(* ===== verification/Relay_Prelude.thy ===== *)
theory Relay_Prelude
  imports
    Main
    "HOL-Library.Multiset"
    "HOL-Library.Word"
    "HOL-Library.FSet"
    "HOL-Library.Finite_Map"
    "HOL-Library.Char_ord"
    "HOL-Library.List_Lexorder"
begin

text \<open>
  The prelude of the development: what the Go language and its standard library give the
  program, in the form the other theories use it.

  \<^item> A Go string and a Go byte slice are a \<open>string\<close>: a list of 8-bit characters, so \<open>len\<close>
    counts bytes and the order of two strings is the order of their bytes.
  \<^item> A Go map is a finite map \<open>('k, 'v) fmap\<close>; reading a missing key yields the zero value
    of the value type (\<open>map_get\<close>). A \<open>range\<close> over a map visits the keys in an unspecified
    order: \<open>range_keys\<close> takes the order as an argument, an arbitrary rearrangement of lists.
  \<^item> \<open>sort.Slice\<close> is an insertion sort by the caller's \<open>less\<close> function. The library's sort is
    not stable, so its result depends on the order of its input; as every call in the program
    sorts what a \<open>range\<close> over a map has collected, the arbitrary visiting order already
    covers every result the library may return.
  \<^item> \<open>time.Time\<close> is an \<open>int\<close>, the nanoseconds since the zero \<open>Time\<close> (the first instant of the
    year 1), so \<open>IsZero\<close> is equality with 0, \<open>Before\<close> is \<open><\<close> and \<open>Add\<close> the sum.
\<close>

named_theorems keep_inv
  \<comment> \<open>preservation lemmas of the state invariant, one per state changing operation\<close>

named_theorems frame_simps
  \<comment> \<open>what an operation leaves unchanged\<close>

unbundle bit_operations_syntax

section \<open>Times\<close>

type_synonym time = int

abbreviation zero_time :: time where
  "zero_time \<equiv> 0"

abbreviation IsZero :: "time \<Rightarrow> bool" where
  "IsZero t \<equiv> t = zero_time"

text \<open>The Unix epoch is 62135596800 seconds after the zero \<open>Time\<close>; \<open>time.Unix(0, 1)\<close>.\<close>

definition unix_0_1 :: time where
  "unix_0_1 = 62135596800 * 1000000000 + 1"

lemma unix_0_1_not_zero [simp]: "unix_0_1 \<noteq> 0"
  by (simp add: unix_0_1_def)

section \<open>Maps\<close>

definition map_get :: "'v \<Rightarrow> ('k, 'v) fmap \<Rightarrow> 'k \<Rightarrow> 'v" where
  "map_get zero m k = (case fmlookup m k of None \<Rightarrow> zero | Some v \<Rightarrow> v)"

lemma map_get_Some [simp]: "fmlookup m k = Some v \<Longrightarrow> map_get z m k = v"
  by (simp add: map_get_def)

lemma map_get_None [simp]: "fmlookup m k = None \<Longrightarrow> map_get z m k = z"
  by (simp add: map_get_def)

lemma map_get_empty [simp]: "map_get z fmempty k = z"
  by simp

lemma map_get_upd: "map_get z (fmupd a b m) k = (if a = k then b else map_get z m k)"
  by (simp add: map_get_def)

lemma map_get_drop: "map_get z (fmdrop a m) k = (if a = k then z else map_get z m k)"
  by (simp add: map_get_def)

type_synonym order = "string list \<Rightarrow> string list"

definition range_order :: "order \<Rightarrow> bool" where
  "range_order ord \<longleftrightarrow> (\<forall>xs. mset (ord xs) = mset xs)"

definition range_keys :: "order \<Rightarrow> (string, 'v) fmap \<Rightarrow> string list" where
  "range_keys ord m = ord (sorted_list_of_fset (fmdom m))"

definition range_fset :: "order \<Rightarrow> string fset \<Rightarrow> string list" where
  "range_fset ord A = ord (sorted_list_of_fset A)"

lemma range_order_id [simp]: "range_order id" "range_order (\<lambda>xs. xs)"
  by (simp_all add: range_order_def)

lemma range_order_rev [simp]: "range_order rev"
  by (simp add: range_order_def)

lemma range_order_set: "range_order ord \<Longrightarrow> set (ord xs) = set xs"
  by (metis range_order_def set_mset_mset)

lemma range_order_distinct: "range_order ord \<Longrightarrow> distinct (ord xs) = distinct xs"
  by (metis range_order_def mset_eq_imp_distinct_iff)

lemma range_order_length: "range_order ord \<Longrightarrow> length (ord xs) = length xs"
  by (metis range_order_def mset_eq_length)

lemma distinct_sorted_list_of_fset [simp]: "distinct (sorted_list_of_fset A)"
  by (simp add: sorted_list_of_fset.rep_eq)

lemma length_sorted_list_of_fset [simp]: "length (sorted_list_of_fset A) = fcard A"
  by (simp add: sorted_list_of_fset.rep_eq fcard.rep_eq)

lemma sorted_sorted_list_of_fset [simp]: "sorted (sorted_list_of_fset A)"
  by (simp add: sorted_list_of_fset.rep_eq)

lemma sorted_list_of_fset_empty [simp]: "sorted_list_of_fset {||} = []"
  by (simp add: sorted_list_of_fset.rep_eq)

lemma sorted_list_of_fset_finsert [simp]:
  "sorted_list_of_fset (finsert x A) = insort x (sorted_list_of_fset (A - {|x|}))"
  by (simp add: sorted_list_of_fset.rep_eq sorted_list_of_set_insert_remove)

lemma range_keys_set [simp]: "range_order ord \<Longrightarrow> set (range_keys ord m) = fset (fmdom m)"
  by (simp add: range_keys_def range_order_set)

lemma range_keys_distinct [simp]: "range_order ord \<Longrightarrow> distinct (range_keys ord m)"
  by (simp add: range_keys_def range_order_distinct)

lemma range_keys_length [simp]: "range_order ord \<Longrightarrow> length (range_keys ord m) = fcard (fmdom m)"
  by (simp add: range_keys_def range_order_length)

lemma range_fset_set [simp]: "range_order ord \<Longrightarrow> set (range_fset ord A) = fset A"
  by (simp add: range_fset_def range_order_set)

lemma range_fset_distinct [simp]: "range_order ord \<Longrightarrow> distinct (range_fset ord A)"
  by (simp add: range_fset_def range_order_distinct)

lemma range_fset_length [simp]: "range_order ord \<Longrightarrow> length (range_fset ord A) = fcard A"
  by (simp add: range_fset_def range_order_length)

lemma fmdom_mem_iff: "k |\<in>| fmdom m \<longleftrightarrow> fmlookup m k \<noteq> None"
  by (auto simp: fmlookup_dom_iff)

section \<open>Sorting by a less function\<close>

fun insert_by :: "('a \<Rightarrow> 'a \<Rightarrow> bool) \<Rightarrow> 'a \<Rightarrow> 'a list \<Rightarrow> 'a list" where
  "insert_by lt x [] = [x]"
| "insert_by lt x (y # ys) = (if lt y x then y # insert_by lt x ys else x # y # ys)"

definition sort_slice :: "('a \<Rightarrow> 'a \<Rightarrow> bool) \<Rightarrow> 'a list \<Rightarrow> 'a list" where
  "sort_slice lt xs = foldr (insert_by lt) xs []"

lemma sort_slice_simps [simp]:
  "sort_slice lt [] = []"
  "sort_slice lt (x # xs) = insert_by lt x (sort_slice lt xs)"
  by (simp_all add: sort_slice_def)

lemma mset_insert_by [simp]: "mset (insert_by lt x xs) = add_mset x (mset xs)"
  by (induction xs) auto

lemma mset_sort_slice [simp]: "mset (sort_slice lt xs) = mset xs"
  by (induction xs) auto

lemma set_sort_slice [simp]: "set (sort_slice lt xs) = set xs"
  by (metis mset_sort_slice set_mset_mset)

lemma length_sort_slice [simp]: "length (sort_slice lt xs) = length xs"
  by (metis mset_sort_slice size_mset)

lemma distinct_sort_slice [simp]: "distinct (sort_slice lt xs) = distinct xs"
  by (metis mset_sort_slice mset_eq_imp_distinct_iff)

lemma sort_slice_Nil_iff [simp]: "sort_slice lt xs = [] \<longleftrightarrow> xs = []"
  by (metis length_0_conv length_sort_slice)

text \<open>
  What \<open>sort.Slice\<close> asks of its \<open>less\<close> argument: a strict weak order. The program's
  comparison functions are interpretations of this locale, in the theories that define them.
\<close>

locale slice_less =
  fixes lt :: "'a \<Rightarrow> 'a \<Rightarrow> bool"
  assumes asym: "lt x y \<Longrightarrow> \<not> lt y x"
    and neg_trans: "\<not> lt x y \<Longrightarrow> \<not> lt y z \<Longrightarrow> \<not> lt x z"
begin

lemma irrefl: "\<not> lt x x"
  using asym by blast

lemma sorted_insert_by:
  "sorted_wrt (\<lambda>x y. \<not> lt y x) xs \<Longrightarrow> sorted_wrt (\<lambda>x y. \<not> lt y x) (insert_by lt a xs)"
proof (induction xs)
  case Nil
  then show ?case by simp
next
  case (Cons y ys)
  have s: "set (insert_by lt a ys) = insert a (set ys)"
    by (metis mset_insert_by set_mset_add_mset_insert set_mset_mset)
  show ?case
  proof (cases "lt y a")
    case True
    with Cons show ?thesis by (auto simp: s dest: asym)
  next
    case False
    with Cons.prems show ?thesis by (auto dest: neg_trans)
  qed
qed

lemma sorted_sort_slice: "sorted_wrt (\<lambda>x y. \<not> lt y x) (sort_slice lt xs)"
  by (induction xs) (auto simp: sorted_insert_by)

lemma sort_slice_hd_min: "x \<in> set xs \<Longrightarrow> \<not> lt x (hd (sort_slice lt xs))"
proof -
  assume x: "x \<in> set xs"
  then obtain h t where ht: "sort_slice lt xs = h # t"
    by (metis length_pos_if_in_set length_sort_slice list.exhaust list.size(3) not_less_zero)
  from x have "x \<in> set (h # t)"
    using ht set_sort_slice by metis
  moreover have "sorted_wrt (\<lambda>x y. \<not> lt y x) (h # t)"
    using sorted_sort_slice[of xs] ht by simp
  ultimately show ?thesis
    using ht irrefl by auto
qed

lemma sort_slice_take_min:
  assumes "x \<in> set (take n (sort_slice lt xs))" "y \<in> set (drop n (sort_slice lt xs))"
  shows "\<not> lt y x"
proof -
  have "sorted_wrt (\<lambda>x y. \<not> lt y x) (take n (sort_slice lt xs) @ drop n (sort_slice lt xs))"
    by (simp add: sorted_sort_slice)
  then show ?thesis
    using assms by (simp only: sorted_wrt_append) blast
qed

end

text \<open>Sorting by an \<open>int\<close> key, as all the program's comparisons of times do.\<close>

lemma slice_less_key: "slice_less (\<lambda>x y. (f x :: int) < f y)"
  by unfold_locales auto

section \<open>Strings\<close>

definition HasPrefix :: "string \<Rightarrow> string \<Rightarrow> bool" where
  "HasPrefix s p \<longleftrightarrow> take (length p) s = p"

definition TrimPrefix :: "string \<Rightarrow> string \<Rightarrow> string" where
  "TrimPrefix s p = (if HasPrefix s p then drop (length p) s else s)"

definition HasSuffix :: "string \<Rightarrow> string \<Rightarrow> bool" where
  "HasSuffix s p \<longleftrightarrow> length p \<le> length s \<and> drop (length s - length p) s = p"

definition TrimSuffix :: "string \<Rightarrow> string \<Rightarrow> string" where
  "TrimSuffix s p = (if HasSuffix s p then take (length s - length p) s else s)"

fun Contains :: "string \<Rightarrow> string \<Rightarrow> bool" where
  "Contains [] p = (p = [])"
| "Contains (c # s) p = (HasPrefix (c # s) p \<or> Contains s p)"

lemma HasPrefix_append [simp]: "HasPrefix (p @ s) p"
  by (simp add: HasPrefix_def)

lemma TrimPrefix_append [simp]: "TrimPrefix (p @ s) p = s"
  by (simp add: TrimPrefix_def)

lemma HasPrefix_iff: "HasPrefix s p \<longleftrightarrow> (\<exists>t. s = p @ t)"
  unfolding HasPrefix_def by (metis append_eq_conv_conj append_take_drop_id)

lemma HasSuffix_append [simp]: "HasSuffix (s @ p) p"
  by (simp add: HasSuffix_def)

lemma HasSuffix_iff: "HasSuffix s p \<longleftrightarrow> (\<exists>t. s = t @ p)"
  unfolding HasSuffix_def
  by (metis append_eq_conv_conj append_take_drop_id diff_add_inverse2 le_add2 length_append)

lemma TrimSuffix_append [simp]: "TrimSuffix (s @ p) p = s"
  by (simp add: TrimSuffix_def)

lemma Contains_iff: "Contains s p \<longleftrightarrow> (\<exists>u v. s = u @ p @ v)"
proof (induction s)
  case Nil
  then show ?case by auto
next
  case (Cons c s)
  show ?case
  proof
    assume "Contains (c # s) p"
    then consider t where "c # s = p @ t" | u v where "s = u @ p @ v"
      using Cons by (auto simp: HasPrefix_iff)
    then show "\<exists>u v. c # s = u @ p @ v"
    proof cases
      case 1
      then have "c # s = [] @ p @ t" by simp
      then show ?thesis by blast
    next
      case 2
      then have "c # s = (c # u) @ p @ v" by simp
      then show ?thesis by blast
    qed
  next
    assume "\<exists>u v. c # s = u @ p @ v"
    then obtain u v where uv: "c # s = u @ p @ v" by blast
    show "Contains (c # s) p"
    proof (cases u)
      case Nil
      with uv have "HasPrefix (c # s) p" by (auto simp: HasPrefix_iff)
      then show ?thesis by simp
    next
      case (Cons a u')
      with uv Cons.IH show ?thesis by auto
    qed
  qed
qed

text \<open>ASCII case folding: \<open>c + 32\<close> on the bytes from \<open>'A'\<close> to \<open>'Z'\<close>.\<close>

definition lower_byte :: "char \<Rightarrow> char" where
  "lower_byte c = (if CHR ''A'' \<le> c \<and> c \<le> CHR ''Z'' then char_of (of_char c + 32 :: nat) else c)"

end
