(* ===== verification/Sha256.thy ===== *)
theory Sha256
  imports Relay_Prelude
begin

text \<open>
  The cryptographic functions of Go's standard library that the program calls, on strings of
  bytes: SHA-256 (\<open>crypto/sha256\<close>, FIPS 180-4), HMAC over it (\<open>crypto/hmac\<close>, RFC 2104) and the
  hexadecimal encoding (\<open>encoding/hex\<close>). They are concrete functions, so nothing in the
  development assumes anything of a hash; the lengths of their results and the round trip of
  the hexadecimal encoding are proved here.
\<close>

section \<open>SHA-256\<close>

type_synonym w32 = "32 word"

text \<open>
  The constants of the standard are the first 32 bits of the fractional parts of the cube roots
  of the first 64 primes, and of the square roots of the first 8. They are computed here:
  \<open>root_bits k b r n\<close> fixes the lowest \<open>b\<close> bits of the \<open>k\<close>-th root of \<open>n\<close>, from above.
\<close>

fun root_bits :: "nat \<Rightarrow> nat \<Rightarrow> int \<Rightarrow> int \<Rightarrow> int" where
  "root_bits k 0 r n = r"
| "root_bits k (Suc b) r n = root_bits k b (if (r + 2 ^ b) ^ k \<le> n then r + 2 ^ b else r) n"

definition fraction_bits :: "nat \<Rightarrow> int \<Rightarrow> w32" where
  "fraction_bits k p = word_of_int (root_bits k 37 0 (p * 2 ^ (32 * k)))"

definition primes_upto :: "int \<Rightarrow> int list" where
  "primes_upto n = filter (\<lambda>p. list_all (\<lambda>d. p mod d \<noteq> 0) [2..p - 1]) [2..n]"

definition sha_K :: "w32 list" where
  "sha_K = map (fraction_bits 3) (primes_upto 311)"

definition rotr :: "nat \<Rightarrow> w32 \<Rightarrow> w32" where
  "rotr n x = drop_bit n x OR push_bit (32 - n) x"

type_synonym sha_state = "w32 \<times> w32 \<times> w32 \<times> w32 \<times> w32 \<times> w32 \<times> w32 \<times> w32"

definition sha_init :: sha_state where
  "sha_init =
     (fraction_bits 2 2, fraction_bits 2 3, fraction_bits 2 5, fraction_bits 2 7,
      fraction_bits 2 11, fraction_bits 2 13, fraction_bits 2 17, fraction_bits 2 19)"

fun sha_round :: "w32 \<times> w32 \<Rightarrow> sha_state \<Rightarrow> sha_state" where
  "sha_round (k, w) (a, b, c, d, e, f, g, h) =
     (let s1 = rotr 6 e XOR rotr 11 e XOR rotr 25 e;
          ch = (e AND f) XOR (NOT e AND g);
          t1 = h + s1 + ch + k + w;
          s0 = rotr 2 a XOR rotr 13 a XOR rotr 22 a;
          mj = (a AND b) XOR (a AND c) XOR (b AND c)
      in (t1 + (s0 + mj), a, b, c, d + t1, e, f, g))"

text \<open>The bits found are those of the root rounded down.\<close>

lemma root_bits_spec:
  assumes "0 \<le> r" "r ^ k \<le> n" "n < (r + 2 ^ b) ^ k"
  shows "root_bits k b r n ^ k \<le> n \<and> n < (root_bits k b r n + 1) ^ k"
  using assms
proof (induction b arbitrary: r)
  case (Suc b)
  show ?case
  proof (cases "(r + 2 ^ b) ^ k \<le> n")
    case True
    then show ?thesis using Suc.IH [of "r + 2 ^ b"] Suc.prems by (simp add: algebra_simps)
  next
    case False
    then show ?thesis using Suc.IH [of r] Suc.prems by simp
  qed
qed simp

text \<open>The message schedule, most recent word first.\<close>

fun sha_extend :: "nat \<Rightarrow> w32 list \<Rightarrow> w32 list" where
  "sha_extend 0 ws = ws"
| "sha_extend (Suc n) ws =
     (let s0 = (let x = ws ! 14 in rotr 7 x XOR rotr 18 x XOR drop_bit 3 x);
          s1 = (let x = ws ! 1 in rotr 17 x XOR rotr 19 x XOR drop_bit 10 x)
      in sha_extend n ((ws ! 15 + s0 + ws ! 6 + s1) # ws))"

fun sha_add :: "sha_state \<Rightarrow> sha_state \<Rightarrow> sha_state" where
  "sha_add (a, b, c, d, e, f, g, h) (a', b', c', d', e', f', g', h') =
     (a + a', b + b', c + c', d + d', e + e', f + f', g + g', h + h')"

definition sha_block :: "w32 list \<Rightarrow> sha_state \<Rightarrow> sha_state" where
  "sha_block ws st =
     sha_add st (fold sha_round (zip sha_K (rev (sha_extend 48 (rev ws)))) st)"

fun sha_words :: "string \<Rightarrow> w32 list" where
  "sha_words (a # b # c # d # cs) =
     (push_bit 24 (of_char a) + push_bit 16 (of_char b) + push_bit 8 (of_char c) + of_char d)
       # sha_words cs"
| "sha_words _ = []"

fun sha_blocks :: "nat \<Rightarrow> w32 list \<Rightarrow> sha_state \<Rightarrow> sha_state" where
  "sha_blocks 0 ws st = st"
| "sha_blocks (Suc n) ws st = sha_blocks n (drop 16 ws) (sha_block (take 16 ws) st)"

text \<open>Padding: the byte \<open>0x80\<close>, zeros, and the length of the message in bits as 64 bits.\<close>

fun be_bytes :: "nat \<Rightarrow> int \<Rightarrow> string" where
  "be_bytes 0 n = []"
| "be_bytes (Suc k) n = be_bytes k (n div 256) @ [char_of (n mod 256)]"

definition sha_pad :: "string \<Rightarrow> string" where
  "sha_pad m = m @ char_of (128 :: nat) # replicate ((119 - length m mod 64) mod 64) (char_of (0 :: nat))
     @ be_bytes 8 (8 * int (length m))"

definition word_bytes :: "w32 \<Rightarrow> string" where
  "word_bytes w = be_bytes 4 (uint w)"

fun sha_out :: "sha_state \<Rightarrow> string" where
  "sha_out (a, b, c, d, e, f, g, h) =
     word_bytes a @ word_bytes b @ word_bytes c @ word_bytes d
       @ word_bytes e @ word_bytes f @ word_bytes g @ word_bytes h"

definition sha256 :: "string \<Rightarrow> string" where
  "sha256 m = (let p = sha_pad m in sha_out (sha_blocks (length p div 64) (sha_words p) sha_init))"

lemma length_be_bytes [simp]: "length (be_bytes k n) = k"
  by (induction k arbitrary: n) auto

lemma length_sha_out [simp]: "length (sha_out st) = 32"
  by (cases st rule: sha_out.cases) (simp add: word_bytes_def)

lemma length_sha256 [simp]: "length (sha256 m) = 32"
  by (simp add: sha256_def Let_def)

lemma sha_pad_blocks: "64 dvd length (sha_pad m)"
proof -
  define r where "r = length m mod 64"
  have r: "r < 64" by (simp add: r_def)
  have "length (sha_pad m) mod 64 = ((length m + 9) + (119 - r) mod 64) mod 64"
    unfolding r_def by (simp add: sha_pad_def ac_simps)
  also have "\<dots> = (length m + 9 + (119 - r)) mod 64"
    by (rule mod_add_right_eq)
  also have "\<dots> = (length m + (9 + (119 - r))) mod 64"
    by (simp only: add.assoc)
  also have "\<dots> = (r + (9 + (119 - r))) mod 64"
    unfolding r_def by (rule mod_add_left_eq [symmetric])
  also have "\<dots> = 0"
    using r by simp
  finally show ?thesis by presburger
qed

section \<open>HMAC\<close>

definition xor_byte :: "int \<Rightarrow> char \<Rightarrow> char" where
  "xor_byte k c = char_of (xor k (of_char c))"

definition hmac_key :: "string \<Rightarrow> string" where
  "hmac_key key = (let k = if length key > 64 then sha256 key else key
                   in k @ replicate (64 - length k) (char_of (0 :: nat)))"

definition hmac_sha256 :: "string \<Rightarrow> string \<Rightarrow> string" where
  "hmac_sha256 key m =
     sha256 (map (xor_byte 0x5c) (hmac_key key) @ sha256 (map (xor_byte 0x36) (hmac_key key) @ m))"

lemma length_hmac_sha256 [simp]: "length (hmac_sha256 key m) = 32"
  by (simp add: hmac_sha256_def)

section \<open>Hexadecimal\<close>

definition hex_digit :: "nat \<Rightarrow> char" where
  "hex_digit n = ''0123456789abcdef'' ! n"

definition hex_byte :: "char \<Rightarrow> string" where
  "hex_byte c = [hex_digit (of_char c div 16), hex_digit (of_char c mod 16)]"

definition hex_encode :: "string \<Rightarrow> string" where
  "hex_encode s = concat (map hex_byte s)"

definition hex_val :: "char \<Rightarrow> nat option" where
  "hex_val c =
     (if CHR ''0'' \<le> c \<and> c \<le> CHR ''9'' then Some (of_char c - 48)
      else if CHR ''a'' \<le> c \<and> c \<le> CHR ''f'' then Some (of_char c - 87)
      else if CHR ''A'' \<le> c \<and> c \<le> CHR ''F'' then Some (of_char c - 55)
      else None)"

text \<open>\<open>hex.DecodeString\<close>: an odd length or a byte that is no hexadecimal digit is an error.\<close>

fun hex_decode :: "string \<Rightarrow> string option" where
  "hex_decode [] = Some []"
| "hex_decode [c] = None"
| "hex_decode (a # b # cs) =
     (case hex_val a of None \<Rightarrow> None | Some x \<Rightarrow>
       (case hex_val b of None \<Rightarrow> None | Some y \<Rightarrow>
         (case hex_decode cs of None \<Rightarrow> None | Some r \<Rightarrow> Some (char_of (16 * x + y) # r))))"

definition sha256_hex :: "string \<Rightarrow> string" where
  "sha256_hex m = hex_encode (sha256 m)"

lemma length_hex_encode [simp]: "length (hex_encode s) = 2 * length s"
  by (induction s) (auto simp: hex_encode_def hex_byte_def)

lemma length_sha256_hex [simp]: "length (sha256_hex m) = 64"
  by (simp add: sha256_hex_def)

lemma sha256_hex_nonempty [simp]: "sha256_hex m \<noteq> []"
  by (metis length_sha256_hex list.size(3) zero_neq_numeral)

lemma hex_val_digit: "n < 16 \<Longrightarrow> hex_val (hex_digit n) = Some n"
proof -
  assume "n < 16"
  moreover have "\<forall>n \<in> set [0..<16]. hex_val (hex_digit n) = Some n"
    by code_simp
  ultimately show ?thesis by simp
qed

lemma hex_decode_encode: "hex_decode (hex_encode s) = Some s"
proof (induction s)
  case Nil
  then show ?case by (simp add: hex_encode_def)
next
  case (Cons c s)
  have b: "of_char c < (256 :: nat)" by (metis nat_of_char_less_256)
  then have d: "of_char c div 16 < (16 :: nat)" by linarith
  have e: "hex_encode (c # s)
      = hex_digit (of_char c div 16) # hex_digit (of_char c mod 16) # hex_encode s"
    by (simp add: hex_encode_def hex_byte_def)
  show ?case
    using Cons.IH d by (simp add: e hex_val_digit)
qed

lemma hex_encode_inj: "hex_encode s = hex_encode t \<Longrightarrow> s = t"
  by (metis hex_decode_encode option.inject)

end
