(* ===== verification/Model.thy ===== *)
theory Model
  imports Sha256
begin

text \<open>
  The data of the store (\<open>internal/store/model.go\<close>), its errors, and the codec of its log.

  Every struct is a record whose fields carry the initial of the struct, so \<open>r_ID\<close> is
  \<open>Request.ID\<close> and \<open>j_State\<close> is \<open>Job.State\<close>. A pointer field of \<open>Event\<close> is an \<open>option\<close>.
  Records are values: the \<open>clone\<close> functions of the source, which keep callers from sharing
  memory with the store, have no counterpart. A nil map or slice is the empty one. The one
  place where the difference shows is the size of a JSON text (\<open>null\<close> against \<open>{}\<close> or
  \<open>""\<close>, which cloning turns into one another): \<open>CloneSize\<close> is the size of the text of the clone
  of an event, which may differ from that of the event.

  The log holds one JSON document per line. \<open>encoding/json\<close> enters as a \<open>codec\<close>, a parameter of
  every definition that marshals or unmarshals, and \<open>codec_ok\<close> states what the program relies
  on: a document is not empty and holds no raw newline byte, and an event whose text is valid
  UTF-8 and that can be written (a time outside the years of RFC 3339 is an error) reads back as
  it was.
\<close>

section \<open>Structs\<close>

type_synonym header = "(string, string list) fmap"

record request =
  r_ID :: string
  r_DeliveryID :: string
  r_Method :: string
  r_Path :: string
  r_RemoteAddr :: string
  r_BodySHA256 :: string
  r_ReceivedAt :: time
  r_Headers :: header
  r_Body :: string
  r_SignatureVerified :: bool

record request_summary =
  u_ID :: string
  u_DeliveryID :: string
  u_Method :: string
  u_Path :: string
  u_BodySHA256 :: string
  u_ReceivedAt :: time
  u_BodyBytes :: int

record attempt =
  a_ID :: string
  a_JobID :: string
  a_RequestID :: string
  a_URL :: string
  a_Error :: string
  a_Number :: int
  a_Status :: int
  a_StartedAt :: time
  a_FinishedAt :: time
  a_ResponseHeaders :: header
  a_ResponseBody :: string

record job =
  j_ID :: string
  j_RequestID :: string
  j_URL :: string
  j_State :: string
  j_Error :: string
  j_LeaseOwner :: string
  j_CreatedAt :: time
  j_UpdatedAt :: time
  j_AvailableAt :: time
  j_LeaseExpiresAt :: time
  j_FinishedAt :: time

record event =
  e_Seq :: "64 word"
  e_Kind :: string
  e_At :: time
  e_Snapshot :: bool
  e_Request :: "request option"
  e_Attempt :: "attempt option"
  e_Job :: "job option"
  e_EvictedRequestIDs :: "string list"
  e_EvictedJobIDs :: "string list"

datatype capture_result = Captured | Duplicate | Conflict

text \<open>The zero values a missing key of a map reads as.\<close>

definition zero_request :: request where
  "zero_request = \<lparr>r_ID = [], r_DeliveryID = [], r_Method = [], r_Path = [], r_RemoteAddr = [],
     r_BodySHA256 = [], r_ReceivedAt = 0, r_Headers = fmempty, r_Body = [],
     r_SignatureVerified = False\<rparr>"

definition zero_job :: job where
  "zero_job = \<lparr>j_ID = [], j_RequestID = [], j_URL = [], j_State = [], j_Error = [],
     j_LeaseOwner = [], j_CreatedAt = 0, j_UpdatedAt = 0, j_AvailableAt = 0,
     j_LeaseExpiresAt = 0, j_FinishedAt = 0\<rparr>"

text \<open>An event literal of the source names its kind and some fields; the others are zero.\<close>

definition event_of_kind :: "string \<Rightarrow> event" where
  "event_of_kind k = \<lparr>e_Seq = 0, e_Kind = k, e_At = 0, e_Snapshot = False, e_Request = None,
     e_Attempt = None, e_Job = None, e_EvictedRequestIDs = [], e_EvictedJobIDs = []\<rparr>"

lemma event_of_kind_sel [simp]:
  "e_Seq (event_of_kind k) = 0" "e_Kind (event_of_kind k) = k" "e_At (event_of_kind k) = 0"
  "e_Snapshot (event_of_kind k) = False" "e_Request (event_of_kind k) = None"
  "e_Attempt (event_of_kind k) = None" "e_Job (event_of_kind k) = None"
  "e_EvictedRequestIDs (event_of_kind k) = []" "e_EvictedJobIDs (event_of_kind k) = []"
  by (simp_all add: event_of_kind_def)

section \<open>Errors\<close>

text \<open>
  The sentinel errors of the package, the errors made on the spot (\<open>errors.New\<close> and
  \<open>fmt.Errorf\<close>, named by their fixed text), a failing system call, and the wrapping of an
  error by another (\<open>%w\<close>); \<open>Panic\<close> is a run-time panic of Go.
\<close>

datatype store_error =
    ErrCapacity
  | ErrEventBacklog
  | ErrIDCollision
  | ErrLeaseLost
  | ErrClosed
  | ErrShortWrite
  | ErrEOF
  | ErrText string
  | ErrSystem string
  | ErrWrap string store_error
  | Panic string

section \<open>The codec\<close>

text \<open>Validity of UTF-8, byte by byte (\<open>unicode/utf8\<close>).\<close>

definition in_range :: "nat \<Rightarrow> nat \<Rightarrow> char \<Rightarrow> bool" where
  "in_range lo hi c \<longleftrightarrow> lo \<le> of_char c \<and> of_char c \<le> hi"

abbreviation cont :: "char \<Rightarrow> bool" where
  "cont \<equiv> in_range 0x80 0xBF"

fun utf8_valid :: "string \<Rightarrow> bool" where
  "utf8_valid [] = True"
| "utf8_valid (a # s) =
     (if in_range 0 0x7F a then utf8_valid s
      else (case s of
        [] \<Rightarrow> False
      | b # s1 \<Rightarrow>
          if in_range 0xC2 0xDF a then cont b \<and> utf8_valid s1
          else (case s1 of
            [] \<Rightarrow> False
          | c # s2 \<Rightarrow>
              if in_range 0xE0 0xE0 a then in_range 0xA0 0xBF b \<and> cont c \<and> utf8_valid s2
              else if in_range 0xED 0xED a then in_range 0x80 0x9F b \<and> cont c \<and> utf8_valid s2
              else if in_range 0xE1 0xEF a then cont b \<and> cont c \<and> utf8_valid s2
              else (case s2 of
                [] \<Rightarrow> False
              | d # s3 \<Rightarrow>
                  if in_range 0xF0 0xF0 a
                    then in_range 0x90 0xBF b \<and> cont c \<and> cont d \<and> utf8_valid s3
                  else if in_range 0xF1 0xF3 a
                    then cont b \<and> cont c \<and> cont d \<and> utf8_valid s3
                  else in_range 0xF4 0xF4 a \<and> in_range 0x80 0x8F b \<and> cont c \<and> cont d
                    \<and> utf8_valid s3))))"

definition header_ok :: "header \<Rightarrow> bool" where
  "header_ok h \<longleftrightarrow> fmpred (\<lambda>k vs. utf8_valid k \<and> list_all utf8_valid vs) h"

definition request_ok :: "request \<Rightarrow> bool" where
  "request_ok r \<longleftrightarrow>
     list_all utf8_valid [r_ID r, r_DeliveryID r, r_Method r, r_Path r, r_RemoteAddr r, r_BodySHA256 r]
     \<and> header_ok (r_Headers r)"

definition attempt_ok :: "attempt \<Rightarrow> bool" where
  "attempt_ok a \<longleftrightarrow>
     list_all utf8_valid [a_ID a, a_JobID a, a_RequestID a, a_URL a, a_Error a]
     \<and> header_ok (a_ResponseHeaders a)"

definition job_ok :: "job \<Rightarrow> bool" where
  "job_ok j \<longleftrightarrow>
     list_all utf8_valid [j_ID j, j_RequestID j, j_URL j, j_State j, j_Error j, j_LeaseOwner j]"

definition event_ok :: "event \<Rightarrow> bool" where
  "event_ok e \<longleftrightarrow>
     utf8_valid (e_Kind e)
     \<and> pred_option request_ok (e_Request e) \<and> pred_option attempt_ok (e_Attempt e)
     \<and> pred_option job_ok (e_Job e)
     \<and> list_all utf8_valid (e_EvictedRequestIDs e) \<and> list_all utf8_valid (e_EvictedJobIDs e)"

record codec =
  Marshal :: "event \<Rightarrow> string option"
  Unmarshal :: "string \<Rightarrow> event option"
  UnmarshalHeaders :: "string \<Rightarrow> (header option \<times> header option) option"
  CloneSize :: "event \<Rightarrow> nat"

text \<open>The header maps of an event, which is all a scan for plaintext headers decodes.\<close>

definition event_headers :: "event \<Rightarrow> header option \<times> header option" where
  "event_headers e = (map_option r_Headers (e_Request e), map_option a_ResponseHeaders (e_Attempt e))"

abbreviation newline :: char where
  "newline \<equiv> CHR 0x0A"

definition codec_ok :: "codec \<Rightarrow> bool" where
  "codec_ok cd \<longleftrightarrow>
     (\<forall>e b. Marshal cd e = Some b \<longrightarrow> b \<noteq> [] \<and> newline \<notin> set b)
     \<and> (\<forall>e b. Marshal cd e = Some b \<longrightarrow> event_ok e \<longrightarrow> Unmarshal cd (b @ [newline]) = Some e)
     \<and> (\<forall>e b. Unmarshal cd b = Some e \<longrightarrow> UnmarshalHeaders cd b = Some (event_headers e))"

lemma codec_okD:
  assumes "codec_ok cd" "Marshal cd e = Some b"
  shows "b \<noteq> []" "newline \<notin> set b" "event_ok e \<Longrightarrow> Unmarshal cd (b @ [newline]) = Some e"
  using assms by (auto simp: codec_ok_def)

text \<open>
  A codec for a given list of events: the event at position \<open>i\<close> is written as \<open>i + 1\<close> bytes.
  The closed examples of the development use it where a concrete codec is needed.
\<close>

fun index_of :: "'a \<Rightarrow> 'a list \<Rightarrow> nat option" where
  "index_of x [] = None"
| "index_of x (y # ys) = (if x = y then Some 0 else map_option Suc (index_of x ys))"

definition table_event :: "event list \<Rightarrow> string \<Rightarrow> event option" where
  "table_event es b =
     (if 2 \<le> length b \<and> length b - 2 < length es then Some (es ! (length b - 2)) else None)"

definition table_codec :: "event list \<Rightarrow> codec" where
  "table_codec es = \<lparr>
     Marshal = (\<lambda>e. map_option (\<lambda>i. replicate (Suc i) (CHR ''x'')) (index_of e es)),
     Unmarshal = table_event es,
     UnmarshalHeaders = (\<lambda>b. map_option event_headers (table_event es b)),
     CloneSize = (\<lambda>e. case index_of e es of None \<Rightarrow> 0 | Some i \<Rightarrow> Suc i)\<rparr>"

lemma index_of_Some: "index_of x xs = Some i \<Longrightarrow> i < length xs \<and> xs ! i = x"
  by (induction xs arbitrary: i) (auto split: if_splits)

lemma table_codec_ok: "codec_ok (table_codec es)"
  by (auto simp: codec_ok_def table_codec_def table_event_def dest: index_of_Some)

end
