(* ===== verification/Store_State.thy ===== *)
theory Store_State
  imports Model
begin

text \<open>
  The state of the store (\<open>internal/store/store.go\<close>): its options and their defaults, the
  \<open>Store\<close> struct with its maps, the append log, the catch-up ring and the subscribers, and the
  environment of one call (the clock, the order in which \<open>range\<close> visits map keys and what each
  system call does).

  The log file is the string of its bytes. \<open>s_file\<close> is the file of the open descriptor
  \<open>Store.f\<close>, positioned at its end; \<open>s_replaced\<close> is \<open>Some c\<close> when the path of the store names
  another file, with contents \<open>c\<close> (a compaction that failed after its rename). Mutexes have no
  counterpart: every operation of the source runs under the lock and is one step here.
\<close>

section \<open>Limits and options\<close>

definition maxEventBytes :: nat where
  "maxEventBytes = 128 * 2 ^ 20"

definition maxCatchUpEvents :: int where
  "maxCatchUpEvents = 1000"

definition maxCatchUpBytes :: int where
  "maxCatchUpBytes = 32 * 2 ^ 20"

record options =
  MaxCaptures :: int
  MaxEvents :: int
  MaxJobsPerRequest :: int
  MaxAttemptsPerJob :: int
  MaxSearchBytes :: int
  MaxSearchScan :: int
  MaxCatchUpEvents :: int
  MaxCatchUpBytes :: int
  SubscriberBacklog :: int

definition default_to :: "int \<Rightarrow> int \<Rightarrow> int" where
  "default_to d n = (if n \<le> 0 then d else n)"

definition withDefaults :: "options \<Rightarrow> options" where
  "withDefaults o0 =
     (let captures = default_to 1000 (MaxCaptures o0)
      in \<lparr>MaxCaptures = captures,
          MaxEvents = default_to 100000 (MaxEvents o0),
          MaxJobsPerRequest = default_to 8 (MaxJobsPerRequest o0),
          MaxAttemptsPerJob = default_to 10 (MaxAttemptsPerJob o0),
          MaxSearchBytes = default_to (64 * 2 ^ 10) (MaxSearchBytes o0),
          MaxSearchScan =
            (if MaxSearchScan o0 \<le> 0 \<or> MaxSearchScan o0 > captures then captures
             else MaxSearchScan o0),
          MaxCatchUpEvents = default_to maxCatchUpEvents (MaxCatchUpEvents o0),
          MaxCatchUpBytes = default_to maxCatchUpBytes (MaxCatchUpBytes o0),
          SubscriberBacklog = default_to 128 (SubscriberBacklog o0)\<rparr>)"

text \<open>Options as \<open>withDefaults\<close> returns them.\<close>

definition options_ok :: "options \<Rightarrow> bool" where
  "options_ok oo \<longleftrightarrow>
     0 < MaxCaptures oo \<and> 0 < MaxEvents oo \<and> 0 < MaxJobsPerRequest oo \<and> 0 < MaxAttemptsPerJob oo
     \<and> 0 < MaxSearchBytes oo \<and> 0 < MaxSearchScan oo \<and> MaxSearchScan oo \<le> MaxCaptures oo
     \<and> 0 < MaxCatchUpEvents oo \<and> 0 < MaxCatchUpBytes oo \<and> 0 < SubscriberBacklog oo"

lemma options_ok_withDefaults [simp]: "options_ok (withDefaults oo)"
  by (simp add: options_ok_def withDefaults_def default_to_def Let_def maxCatchUpEvents_def
      maxCatchUpBytes_def)

lemma withDefaults_idem: "options_ok oo \<Longrightarrow> withDefaults oo = oo"
  by (simp add: options_ok_def withDefaults_def default_to_def Let_def)

section \<open>The store\<close>

record record_ref =
  ref_offset :: nat
  ref_length :: nat
  ref_seq :: "64 word"

definition zero_ref :: record_ref where
  "zero_ref = \<lparr>ref_offset = 0, ref_length = 0, ref_seq = 0\<rparr>"

text \<open>A subscriber's buffered channel: what it holds and whether it is closed.\<close>

record channel =
  ch_buffer :: "event list"
  ch_closed :: bool

record store =
  s_opts :: options
  s_seq :: "64 word"
  s_eventCount :: int
  s_requests :: "(string, request) fmap"
  s_attempts :: "(string, attempt list) fmap"
  s_attemptIDs :: "string fset"
  s_jobs :: "(string, job) fmap"
  s_jobsByRequest :: "(string, string fset) fmap"
  s_delivery :: "(string, string) fmap"
  s_body :: "(string, string) fmap"
  s_requestRecord :: "(string, record_ref) fmap"
  s_requestBytes :: "(string, int) fmap"
  s_attemptRecord :: "(string, record_ref) fmap"
  s_search :: "(string, string) fmap"
  s_chans :: "(nat, channel) fmap"  \<comment> \<open>every channel ever made, by identity\<close>
  s_subs :: "nat fset"              \<comment> \<open>the keys of \<open>Store.subs\<close>\<close>
  s_ring :: "event list"
  s_ringBytes :: int
  s_health :: "store_error option"
  s_closed :: bool
  s_file :: string
  s_replaced :: "string option"
  s_handle :: bool                  \<comment> \<open>the descriptor \<open>Store.f\<close> is open\<close>

definition new_store :: "options \<Rightarrow> string \<Rightarrow> store" where
  "new_store oo file = \<lparr>s_opts = withDefaults oo, s_seq = 0, s_eventCount = 0,
     s_requests = fmempty, s_attempts = fmempty, s_attemptIDs = {||}, s_jobs = fmempty,
     s_jobsByRequest = fmempty, s_delivery = fmempty, s_body = fmempty,
     s_requestRecord = fmempty, s_requestBytes = fmempty, s_attemptRecord = fmempty,
     s_search = fmempty, s_chans = fmempty, s_subs = {||}, s_ring = [], s_ringBytes = 0,
     s_health = None, s_closed = False, s_file = file, s_replaced = None, s_handle = True\<rparr>"

lemma new_store_sel [simp]:
  "s_opts (new_store oo f) = withDefaults oo" "s_seq (new_store oo f) = 0"
  "s_eventCount (new_store oo f) = 0" "s_requests (new_store oo f) = fmempty"
  "s_attempts (new_store oo f) = fmempty" "s_attemptIDs (new_store oo f) = {||}"
  "s_jobs (new_store oo f) = fmempty" "s_jobsByRequest (new_store oo f) = fmempty"
  "s_delivery (new_store oo f) = fmempty" "s_body (new_store oo f) = fmempty"
  "s_requestRecord (new_store oo f) = fmempty" "s_requestBytes (new_store oo f) = fmempty"
  "s_attemptRecord (new_store oo f) = fmempty" "s_search (new_store oo f) = fmempty"
  "s_chans (new_store oo f) = fmempty" "s_subs (new_store oo f) = {||}"
  "s_ring (new_store oo f) = []" "s_ringBytes (new_store oo f) = 0"
  "s_health (new_store oo f) = None" "\<not> s_closed (new_store oo f)"
  "s_file (new_store oo f) = f" "s_replaced (new_store oo f) = None" "s_handle (new_store oo f)"
  by (simp_all add: new_store_def)

text \<open>The file the path of the store names.\<close>

definition disk :: "store \<Rightarrow> string" where
  "disk s = (case s_replaced s of None \<Rightarrow> s_file s | Some c \<Rightarrow> c)"

abbreviation requests_len :: "store \<Rightarrow> int" where
  "requests_len s \<equiv> int (fcard (fmdom (s_requests s)))"

abbreviation jobs_of :: "store \<Rightarrow> string \<Rightarrow> string fset" where
  "jobs_of s rid \<equiv> map_get {||} (s_jobsByRequest s) rid"

abbreviation attempts_of :: "store \<Rightarrow> string \<Rightarrow> attempt list" where
  "attempts_of s rid \<equiv> map_get [] (s_attempts s) rid"

section \<open>The environment of a call\<close>

text \<open>
  A system call either succeeds (\<open>None\<close>) or fails with a message. \<open>w_write\<close> gives, for the
  length of the record appended, how many bytes reached the file and whether the call
  reported an error. \<open>BeforeWrite\<close> and \<open>BeforeSync\<close> are the hooks of the tests.
\<close>

datatype syscall =
    MkdirAll | OpenFile | StatFile | NotRegular | ChmodFile | SeekStart | ReadFile | TruncateFile
  | SeekEnd | SeekCurrent | BeforeWrite | BeforeSync | SyncFile | CloseFile
  | CreateTemp | ChmodTemp | WriteTemp nat | FlushTemp | SyncTemp | CloseTemp | RenameTemp
  | CloseOld | ReopenFile | SeekReopened | SyncDir | OpenNew | SeekNew

record env =
  w_clock :: time
  w_order :: order
  w_fails :: "syscall \<Rightarrow> string option"
  w_write :: "nat \<Rightarrow> nat \<times> string option"
  w_windows :: bool

text \<open>The environment in which nothing fails.\<close>

definition calm :: "time \<Rightarrow> env" where
  "calm now = \<lparr>w_clock = now, w_order = id, w_fails = (\<lambda>_. None), w_write = (\<lambda>n. (n, None)),
     w_windows = False\<rparr>"

lemma calm_sel [simp]:
  "w_clock (calm t) = t" "w_order (calm t) = id" "w_fails (calm t) c = None"
  "w_write (calm t) n = (n, None)" "\<not> w_windows (calm t)"
  by (simp_all add: calm_def)

section \<open>The states of a job\<close>

definition terminalState :: "string \<Rightarrow> bool" where
  "terminalState st \<longleftrightarrow>
     st \<in> set [''succeeded'', ''failed'', ''fatal'', ''dead-letter'', ''poison'']"

lemma terminalState_simps [simp]:
  "terminalState ''succeeded''" "terminalState ''failed''" "terminalState ''fatal''"
  "terminalState ''dead-letter''" "terminalState ''poison''"
  "\<not> terminalState ''pending''" "\<not> terminalState ''queued''" "\<not> terminalState ''leased''"
  "\<not> terminalState ''running''" "\<not> terminalState ''retrying''" "\<not> terminalState []"
  by (simp_all add: terminalState_def)

section \<open>Validation of events\<close>

definition validateRequestDigest :: "request \<Rightarrow> store_error option" where
  "validateRequestDigest r =
     (if r_BodySHA256 r \<noteq> sha256_hex (r_Body r)
      then Some (ErrText ''request body digest does not match'') else None)"

definition validateAttempt :: "attempt \<Rightarrow> store_error option" where
  "validateAttempt a =
     (if a_ID a = [] \<or> a_JobID a = [] \<or> a_RequestID a = [] \<or> a_Number a < 1
      then Some (ErrText ''invalid attempt payload'') else None)"

definition job_kinds :: "string list" where
  "job_kinds = [''forward.pending'', ''forward.queued'', ''forward.running'', ''forward.leased'',
     ''forward.retrying'', ''forward.succeeded'', ''forward.failed'', ''forward.fatal'',
     ''forward.dead-letter'', ''forward.poison'']"

text \<open>The kind of an event that puts a job in a state: \<open>"forward." + state\<close>.\<close>

definition forward_kind :: "string \<Rightarrow> string" where
  "forward_kind st = ''forward.'' @ st"

definition validateRecoveredEvent :: "event \<Rightarrow> store_error option" where
  "validateRecoveredEvent e =
     (if IsZero (e_At e) then Some (ErrText ''event timestamp is missing'')
      else if [] \<in> set (e_EvictedRequestIDs e @ e_EvictedJobIDs e)
        then Some (ErrText ''empty eviction identifier'')
      else if e_Kind e = ''capture.accepted'' then
        (case e_Request e of
          None \<Rightarrow> Some (ErrText ''invalid capture event payload'')
        | Some r \<Rightarrow>
            if e_Attempt e \<noteq> None \<or> r_ID r = []
              then Some (ErrText ''invalid capture event payload'')
            else if (case e_Job e of None \<Rightarrow> False | Some j \<Rightarrow>
                j_ID j = [] \<or> j_RequestID j \<noteq> r_ID r \<or> j_State j \<noteq> ''pending'')
              then Some (ErrText ''invalid capture job payload'')
            else validateRequestDigest r)
      else if e_Kind e = ''request.received'' then
        (case e_Request e of
          None \<Rightarrow> Some (ErrText ''invalid request event payload'')
        | Some r \<Rightarrow>
            if e_Attempt e \<noteq> None \<or> e_Job e \<noteq> None \<or> r_ID r = []
              then Some (ErrText ''invalid request event payload'')
            else validateRequestDigest r)
      else if e_Kind e = ''attempt.finished'' then
        (case e_Attempt e of
          None \<Rightarrow> Some (ErrText ''invalid attempt event payload'')
        | Some a \<Rightarrow>
            if e_Request e \<noteq> None \<or> e_Job e \<noteq> None
              then Some (ErrText ''invalid attempt event payload'')
            else validateAttempt a)
      else if e_Kind e \<in> set job_kinds then
        (case e_Job e of
          None \<Rightarrow> Some (ErrText ''invalid job event payload'')
        | Some j \<Rightarrow>
            if e_Request e \<noteq> None \<or> j_ID j = [] \<or> j_RequestID j = []
              then Some (ErrText ''invalid job event payload'')
            else if j_State j \<noteq> TrimPrefix (e_Kind e) ''forward.''
              then Some (ErrText ''job state does not match event kind'')
            else (case e_Attempt e of
                None \<Rightarrow> None
              | Some a \<Rightarrow>
                  (case validateAttempt a of
                    Some x \<Rightarrow> Some x
                  | None \<Rightarrow>
                      if a_JobID a \<noteq> j_ID j \<or> a_RequestID a \<noteq> j_RequestID j
                        then Some (ErrText ''attempt does not belong to job'') else None)))
      else Some (ErrText ''unknown event kind''))"

definition validateStateLocked :: "store \<Rightarrow> event \<Rightarrow> store_error option" where
  "validateStateLocked s e =
     (let request_error = (case e_Request e of
          None \<Rightarrow> None
        | Some r \<Rightarrow> if fmlookup (s_requests s) (r_ID r) \<noteq> None
            then Some (ErrText ''request is duplicated'') else None);
          job_error = (case e_Job e of
          None \<Rightarrow> None
        | Some j \<Rightarrow>
            (case fmlookup (s_jobs s) (j_ID j) of
              Some existing \<Rightarrow>
                if j_RequestID existing \<noteq> j_RequestID j \<or> j_URL existing \<noteq> j_URL j
                  then Some (ErrText ''job changed immutable identity'') else None
            | None \<Rightarrow>
                if fmlookup (s_requests s) (j_RequestID j) = None
                    \<and> (case e_Request e of None \<Rightarrow> True | Some r \<Rightarrow> r_ID r \<noteq> j_RequestID j)
                  then Some (ErrText ''job refers to a missing request'') else None));
          attempt_error = (case e_Attempt e of
          None \<Rightarrow> None
        | Some a \<Rightarrow>
            if a_ID a |\<in>| s_attemptIDs s then Some (ErrText ''attempt is duplicated'')
            else if fmlookup (s_requests s) (a_RequestID a) = None
                \<and> (case e_Request e of None \<Rightarrow> True | Some r \<Rightarrow> r_ID r \<noteq> a_RequestID a)
              then Some (ErrText ''attempt refers to a missing request'')
            else if fmlookup (s_jobs s) (a_JobID a) = None
                \<and> (case e_Job e of None \<Rightarrow> True | Some j \<Rightarrow> j_ID j \<noteq> a_JobID a)
              then Some (ErrText ''attempt refers to a missing job'')
            else None)
      in case request_error of Some x \<Rightarrow> Some x
         | None \<Rightarrow> (case job_error of Some x \<Rightarrow> Some x | None \<Rightarrow> attempt_error))"

text \<open>The states an event kind exists for.\<close>

definition job_state_ok :: "string \<Rightarrow> bool" where
  "job_state_ok st \<longleftrightarrow> forward_kind st \<in> set job_kinds"

lemma job_state_ok_simps [simp]:
  "job_state_ok ''pending''" "job_state_ok ''leased''" "job_state_ok ''retrying''"
  "job_state_ok ''succeeded''" "job_state_ok ''fatal''" "job_state_ok ''dead-letter''"
  "job_state_ok ''poison''"
  by (simp_all add: job_state_ok_def forward_kind_def job_kinds_def)

lemma forward_kind_simps:
  "forward_kind st \<noteq> ''capture.accepted''" "forward_kind st \<noteq> ''request.received''"
  "forward_kind st \<noteq> ''attempt.finished''" "TrimPrefix (forward_kind st) ''forward.'' = st"
  using TrimPrefix_append [of "''forward.''" st] by (simp_all add: forward_kind_def)

lemma job_kind_forward:
  assumes "k \<in> set job_kinds"
  shows "k = forward_kind (TrimPrefix k ''forward.'')"
proof -
  have "HasPrefix k ''forward.''"
    using assms by (auto simp: job_kinds_def HasPrefix_def)
  then obtain t where "k = ''forward.'' @ t"
    by (auto simp: HasPrefix_iff simp del: append.simps)
  then show ?thesis by (simp only: TrimPrefix_append forward_kind_def)
qed

end
