(* ===== verification/Store_Apply.thy ===== *)
theory Store_Apply
  imports Store_State
begin

text \<open>
  How an event changes the maps of the store (\<open>apply\<close>, \<open>removeRequest\<close>, \<open>removeJob\<close> and
  \<open>appendRing\<close> of \<open>internal/store/store.go\<close>). \<open>apply_event\<close> is the only function that changes
  the retained state, both when an event is appended and when the log is replayed; it is split
  into the three blocks of the source (request, attempt, job), so that each block has its own
  lemmas. The lemmas here say what each block leaves unchanged.
\<close>

definition lower :: "string \<Rightarrow> string" where
  "lower v = map lower_byte v"

section \<open>Removal\<close>

definition removeJob :: "string \<Rightarrow> store \<Rightarrow> store" where
  "removeJob i s =
     (case fmlookup (s_jobs s) i of
       None \<Rightarrow> s
     | Some j \<Rightarrow>
         (let rid = j_RequestID j;
              byRequest = (case fmlookup (s_jobsByRequest s) rid of
                  None \<Rightarrow> s_jobsByRequest s
                | Some A \<Rightarrow>
                    (let A' = A - {|i|}
                     in if A' = {||} then fmdrop rid (s_jobsByRequest s)
                        else fmupd rid A' (s_jobsByRequest s)));
              kept = filter (\<lambda>a. a_JobID a \<noteq> i) (attempts_of s rid);
              gone = fset_of_list (map a_ID (filter (\<lambda>a. a_JobID a = i) (attempts_of s rid)))
          in s\<lparr>s_jobs := fmdrop i (s_jobs s),
               s_jobsByRequest := byRequest,
               s_attemptIDs := s_attemptIDs s - gone,
               s_attemptRecord := fmdrop_fset gone (s_attemptRecord s),
               s_attempts := (if kept = [] then fmdrop rid (s_attempts s)
                              else fmupd rid kept (s_attempts s))\<rparr>))"

definition removeRequest :: "string \<Rightarrow> store \<Rightarrow> store" where
  "removeRequest i s =
     (case fmlookup (s_requests s) i of
       None \<Rightarrow> s
     | Some r \<Rightarrow>
         (let s1 = s\<lparr>
                s_delivery := (if r_DeliveryID r \<noteq> [] \<and> map_get [] (s_delivery s) (r_DeliveryID r) = i
                  then fmdrop (r_DeliveryID r) (s_delivery s) else s_delivery s),
                s_body := (if r_DeliveryID r = [] \<and> map_get [] (s_body s) (r_BodySHA256 r) = i
                  then fmdrop (r_BodySHA256 r) (s_body s) else s_body s)\<rparr>;
              s2 = fold removeJob (sorted_list_of_fset (jobs_of s1 i)) s1;
              gone = fset_of_list (map a_ID (attempts_of s2 i))
          in s2\<lparr>s_jobsByRequest := fmdrop i (s_jobsByRequest s2),
                s_requests := fmdrop i (s_requests s2),
                s_attemptIDs := s_attemptIDs s2 - gone,
                s_attemptRecord := fmdrop_fset gone (s_attemptRecord s2),
                s_attempts := fmdrop i (s_attempts s2),
                s_requestRecord := fmdrop i (s_requestRecord s2),
                s_requestBytes := fmdrop i (s_requestBytes s2),
                s_search := fmdrop i (s_search s2)\<rparr>))"

section \<open>The catch-up ring\<close>

text \<open>
  \<open>json.Marshal\<close> of an event; its error is ignored, and the length is then 0. The ring keeps
  clones, so what the loop subtracts for a dropped event is the size of its clone. The loop
  drops events from the front while the ring is too long or too large. On an empty ring with
  too large a byte count the source indexes out of range: \<open>trim_panics\<close> says so, and
  \<open>trim_ring_no_panic\<close> that it does not happen while the count is the sum of the sizes.
\<close>

definition event_bytes :: "codec \<Rightarrow> event \<Rightarrow> int" where
  "event_bytes cd e = (case Marshal cd e of None \<Rightarrow> 0 | Some b \<Rightarrow> int (length b))"

definition clone_bytes :: "codec \<Rightarrow> event \<Rightarrow> int" where
  "clone_bytes cd e = int (CloneSize cd e)"

abbreviation ring_over :: "options \<Rightarrow> event list \<Rightarrow> int \<Rightarrow> bool" where
  "ring_over oo ring n \<equiv> int (length ring) > MaxCatchUpEvents oo \<or> n > MaxCatchUpBytes oo"

fun trim_ring :: "codec \<Rightarrow> options \<Rightarrow> event list \<Rightarrow> int \<Rightarrow> event list \<times> int" where
  "trim_ring cd oo [] n = ([], n)"
| "trim_ring cd oo (e # es) n =
     (if ring_over oo (e # es) n then trim_ring cd oo es (n - clone_bytes cd e) else (e # es, n))"

fun trim_panics :: "codec \<Rightarrow> options \<Rightarrow> event list \<Rightarrow> int \<Rightarrow> bool" where
  "trim_panics cd oo [] n = ring_over oo [] n"
| "trim_panics cd oo (e # es) n =
     (ring_over oo (e # es) n \<and> trim_panics cd oo es (n - clone_bytes cd e))"

definition ring_size :: "codec \<Rightarrow> event list \<Rightarrow> int" where
  "ring_size cd es = sum_list (map (clone_bytes cd) es)"

definition appendRing :: "codec \<Rightarrow> event \<Rightarrow> store \<Rightarrow> store" where
  "appendRing cd e s =
     (let (ring, n) = trim_ring cd (s_opts s) (s_ring s @ [e]) (s_ringBytes s + event_bytes cd e)
      in s\<lparr>s_ring := ring, s_ringBytes := n\<rparr>)"

section \<open>Apply\<close>

definition search_index :: "options \<Rightarrow> request \<Rightarrow> string" where
  "search_index oo r =
     (let body = r_Body r;
          searchBody = (if int (length body) > MaxSearchBytes oo
            then take (nat (MaxSearchBytes oo)) body else body)
      in lower (r_ID r @ '' '' @ r_Path r @ '' '' @ r_DeliveryID r @ '' '' @ searchBody))"

definition apply_request :: "request \<Rightarrow> record_ref \<Rightarrow> store \<Rightarrow> store" where
  "apply_request r ref s = s\<lparr>
     s_requests := fmupd (r_ID r) (r\<lparr>r_Body := []\<rparr>) (s_requests s),
     s_requestRecord := fmupd (r_ID r) ref (s_requestRecord s),
     s_requestBytes := fmupd (r_ID r) (int (length (r_Body r))) (s_requestBytes s),
     s_delivery := (if r_DeliveryID r \<noteq> [] then fmupd (r_DeliveryID r) (r_ID r) (s_delivery s)
                    else s_delivery s),
     s_body := (if r_DeliveryID r \<noteq> [] then s_body s
                else fmupd (r_BodySHA256 r) (r_ID r) (s_body s)),
     s_search := fmupd (r_ID r) (search_index (s_opts s) r) (s_search s)\<rparr>"

definition apply_attempt :: "attempt \<Rightarrow> record_ref \<Rightarrow> store \<Rightarrow> store" where
  "apply_attempt a ref s = s\<lparr>
     s_attempts := fmupd (a_RequestID a)
       (attempts_of s (a_RequestID a) @ [a\<lparr>a_ResponseBody := []\<rparr>]) (s_attempts s),
     s_attemptIDs := finsert (a_ID a) (s_attemptIDs s),
     s_attemptRecord := fmupd (a_ID a) ref (s_attemptRecord s)\<rparr>"

definition apply_job :: "job \<Rightarrow> store \<Rightarrow> store" where
  "apply_job j s = s\<lparr>
     s_jobs := fmupd (j_ID j) j (s_jobs s),
     s_jobsByRequest := fmupd (j_RequestID j) (finsert (j_ID j) (jobs_of s (j_RequestID j)))
       (s_jobsByRequest s)\<rparr>"

definition apply_evictions :: "event \<Rightarrow> store \<Rightarrow> store" where
  "apply_evictions e s =
     fold removeRequest (e_EvictedRequestIDs e) (fold removeJob (e_EvictedJobIDs e) s)"

definition apply_payload :: "event \<Rightarrow> record_ref \<Rightarrow> store \<Rightarrow> store" where
  "apply_payload e ref s =
     (let s1 = (case e_Request e of None \<Rightarrow> s | Some r \<Rightarrow> apply_request r ref s);
          s2 = (case e_Attempt e of None \<Rightarrow> s1 | Some a \<Rightarrow> apply_attempt a ref s1)
      in (case e_Job e of None \<Rightarrow> s2 | Some j \<Rightarrow> apply_job j s2))"

definition apply_event :: "codec \<Rightarrow> event \<Rightarrow> record_ref \<Rightarrow> store \<Rightarrow> store" where
  "apply_event cd e ref s =
     (let s1 = (if e_Seq e > s_seq s then s\<lparr>s_seq := e_Seq e\<rparr> else s)
      in appendRing cd e (apply_payload e ref (apply_evictions e s1)))"

section \<open>What the operations leave unchanged\<close>

text \<open>
  The fields that hold the retained state; everything else belongs to the log, the ring, the
  subscribers and the health of the store.
\<close>

record retained =
  t_requests :: "(string, request) fmap"
  t_attempts :: "(string, attempt list) fmap"
  t_attemptIDs :: "string fset"
  t_jobs :: "(string, job) fmap"
  t_jobsByRequest :: "(string, string fset) fmap"
  t_delivery :: "(string, string) fmap"
  t_body :: "(string, string) fmap"
  t_requestRecord :: "(string, record_ref) fmap"
  t_requestBytes :: "(string, int) fmap"
  t_attemptRecord :: "(string, record_ref) fmap"
  t_search :: "(string, string) fmap"

definition retained_of :: "store \<Rightarrow> retained" where
  "retained_of s = \<lparr>t_requests = s_requests s, t_attempts = s_attempts s,
     t_attemptIDs = s_attemptIDs s, t_jobs = s_jobs s, t_jobsByRequest = s_jobsByRequest s,
     t_delivery = s_delivery s, t_body = s_body s, t_requestRecord = s_requestRecord s,
     t_requestBytes = s_requestBytes s, t_attemptRecord = s_attemptRecord s,
     t_search = s_search s\<rparr>"

text \<open>The rest of the store: nothing in it is written by the removal or the payload blocks.\<close>

definition same_frame :: "store \<Rightarrow> store \<Rightarrow> bool" where
  "same_frame s t \<longleftrightarrow>
     s_opts t = s_opts s \<and> s_seq t = s_seq s \<and> s_eventCount t = s_eventCount s
     \<and> s_chans t = s_chans s \<and> s_subs t = s_subs s \<and> s_ring t = s_ring s
     \<and> s_ringBytes t = s_ringBytes s \<and> s_health t = s_health s \<and> s_closed t = s_closed s
     \<and> s_file t = s_file s \<and> s_replaced t = s_replaced s \<and> s_handle t = s_handle s"

lemma same_frame_refl [simp]: "same_frame s s"
  by (simp add: same_frame_def)

lemma same_frame_trans: "same_frame s t \<Longrightarrow> same_frame t u \<Longrightarrow> same_frame s u"
  by (simp add: same_frame_def)

lemma same_frame_fold:
  assumes "\<And>x t. same_frame t (f x t)"
  shows "same_frame s (fold f xs s)"
proof (induction xs arbitrary: s)
  case Nil
  then show ?case by simp
next
  case (Cons x xs)
  then show ?case using assms same_frame_trans by (metis fold_simps(2))
qed

lemma removeJob_frame [frame_simps]: "same_frame s (removeJob i s)"
  by (simp add: same_frame_def removeJob_def Let_def split: option.split)

lemma removeRequest_frame [frame_simps]: "same_frame s (removeRequest i s)"
proof (cases "fmlookup (s_requests s) i")
  case None
  then show ?thesis by (simp add: removeRequest_def)
next
  case (Some r)
  have f: "same_frame t (fold removeJob xs t)" for xs t
    by (rule same_frame_fold) (rule removeJob_frame)
  show ?thesis
    unfolding removeRequest_def Some Let_def option.case
    by (rule same_frame_trans [OF _ same_frame_trans [OF f]]) (simp_all add: same_frame_def)
qed

lemma apply_evictions_frame [frame_simps]: "same_frame s (apply_evictions e s)"
  unfolding apply_evictions_def
  by (rule same_frame_trans; rule same_frame_fold) (simp_all add: frame_simps)

lemma apply_payload_frame [frame_simps]: "same_frame s (apply_payload e ref s)"
  unfolding apply_payload_def Let_def
  by (cases "e_Request e"; cases "e_Attempt e"; cases "e_Job e")
    (simp_all add: apply_request_def apply_attempt_def apply_job_def same_frame_def)

lemma appendRing_sel [simp]:
  "s_opts (appendRing cd e s) = s_opts s" "s_seq (appendRing cd e s) = s_seq s"
  "s_eventCount (appendRing cd e s) = s_eventCount s"
  "s_requests (appendRing cd e s) = s_requests s" "s_attempts (appendRing cd e s) = s_attempts s"
  "s_attemptIDs (appendRing cd e s) = s_attemptIDs s" "s_jobs (appendRing cd e s) = s_jobs s"
  "s_jobsByRequest (appendRing cd e s) = s_jobsByRequest s"
  "s_delivery (appendRing cd e s) = s_delivery s" "s_body (appendRing cd e s) = s_body s"
  "s_requestRecord (appendRing cd e s) = s_requestRecord s"
  "s_requestBytes (appendRing cd e s) = s_requestBytes s"
  "s_attemptRecord (appendRing cd e s) = s_attemptRecord s"
  "s_search (appendRing cd e s) = s_search s" "s_chans (appendRing cd e s) = s_chans s"
  "s_subs (appendRing cd e s) = s_subs s" "s_health (appendRing cd e s) = s_health s"
  "s_closed (appendRing cd e s) = s_closed s" "s_file (appendRing cd e s) = s_file s"
  "s_replaced (appendRing cd e s) = s_replaced s" "s_handle (appendRing cd e s) = s_handle s"
  by (simp_all add: appendRing_def split_def Let_def)

lemma retained_of_appendRing [simp]: "retained_of (appendRing cd e s) = retained_of s"
  by (simp add: retained_of_def)

lemma apply_event_sel [simp]:
  "s_opts (apply_event cd e ref s) = s_opts s"
  "s_seq (apply_event cd e ref s) = (if e_Seq e > s_seq s then e_Seq e else s_seq s)"
  "s_eventCount (apply_event cd e ref s) = s_eventCount s"
  "s_chans (apply_event cd e ref s) = s_chans s" "s_subs (apply_event cd e ref s) = s_subs s"
  "s_health (apply_event cd e ref s) = s_health s" "s_closed (apply_event cd e ref s) = s_closed s"
  "s_file (apply_event cd e ref s) = s_file s"
  "s_replaced (apply_event cd e ref s) = s_replaced s"
  "s_handle (apply_event cd e ref s) = s_handle s"
proof -
  define s1 where "s1 = (if e_Seq e > s_seq s then s\<lparr>s_seq := e_Seq e\<rparr> else s)"
  have f: "same_frame s1 (apply_payload e ref (apply_evictions e s1))"
    using apply_evictions_frame apply_payload_frame same_frame_trans by blast
  show "s_opts (apply_event cd e ref s) = s_opts s"
    "s_seq (apply_event cd e ref s) = (if e_Seq e > s_seq s then e_Seq e else s_seq s)"
    "s_eventCount (apply_event cd e ref s) = s_eventCount s"
    "s_chans (apply_event cd e ref s) = s_chans s" "s_subs (apply_event cd e ref s) = s_subs s"
    "s_health (apply_event cd e ref s) = s_health s"
    "s_closed (apply_event cd e ref s) = s_closed s"
    "s_file (apply_event cd e ref s) = s_file s"
    "s_replaced (apply_event cd e ref s) = s_replaced s"
    "s_handle (apply_event cd e ref s) = s_handle s"
    using f by (simp_all add: apply_event_def Let_def same_frame_def flip: s1_def)
      (simp_all add: s1_def)
qed

section \<open>The ring stays within its bounds\<close>

lemma clone_bytes_nonneg [simp]: "0 \<le> clone_bytes cd e"
  by (simp add: clone_bytes_def)

lemma ring_size_simps [simp]:
  "ring_size cd [] = 0" "ring_size cd (e # es) = clone_bytes cd e + ring_size cd es"
  "ring_size cd (es @ fs) = ring_size cd es + ring_size cd fs"
  by (simp_all add: ring_size_def)

lemma trim_ring_spec:
  assumes "trim_ring cd oo es n = (ring, m)" "n = ring_size cd es"
    "0 < MaxCatchUpEvents oo" "0 < MaxCatchUpBytes oo"
  shows "m = ring_size cd ring \<and> (\<exists>dropped. es = dropped @ ring)
    \<and> int (length ring) \<le> MaxCatchUpEvents oo \<and> m \<le> MaxCatchUpBytes oo"
  using assms
proof (induction cd oo es n arbitrary: ring m rule: trim_ring.induct)
  case (1 cd oo n)
  then show ?case by simp
next
  case (2 cd oo e es n)
  show ?case
  proof (cases "ring_over oo (e # es) n")
    case True
    then have t: "trim_ring cd oo es (n - clone_bytes cd e) = (ring, m)"
      and n: "n - clone_bytes cd e = ring_size cd es"
      using "2.prems"(1,2) by simp_all
    from "2.IH" [OF True t n "2.prems"(3,4)] obtain d where
      IH: "m = ring_size cd ring" "es = d @ ring"
      "int (length ring) \<le> MaxCatchUpEvents oo" "m \<le> MaxCatchUpBytes oo"
      by blast
    then have "e # es = (e # d) @ ring" by simp
    with IH show ?thesis by blast
  next
    case False
    then have r: "ring = e # es" "m = n"
      using "2.prems"(1) by auto
    then have "e # es = [] @ ring" by simp
    then have "\<exists>dropped. e # es = dropped @ ring" by (rule exI)
    then show ?thesis using False r "2.prems"(2) by (simp add: not_less)
  qed
qed

text \<open>The loop drops no more than it must: the event before the kept ones does not fit.\<close>

lemma trim_ring_maximal:
  assumes "trim_ring cd oo es n = (ring, m)" "n = ring_size cd es" "es = dropped @ ring"
    "dropped \<noteq> []"
  shows "ring_over oo (last dropped # ring) (clone_bytes cd (last dropped) + ring_size cd ring)"
  using assms
proof (induction cd oo es n arbitrary: ring m dropped rule: trim_ring.induct)
  case (1 cd oo n)
  then show ?case by simp
next
  case (2 cd oo e es n)
  then obtain d where d: "dropped = e # d" "es = d @ ring" by (cases dropped) auto
  have over: "ring_over oo (e # es) n"
    using 2 d by (auto split: if_splits)
  show ?case
  proof (cases "d = []")
    case True
    then show ?thesis using over 2 d by auto
  next
    case False
    then show ?thesis using "2.IH" [of ring m d] over "2.prems" d by auto
  qed
qed

lemma trim_ring_no_panic:
  "n = ring_size cd es \<Longrightarrow> 0 < MaxCatchUpEvents oo \<Longrightarrow> 0 < MaxCatchUpBytes oo \<Longrightarrow>
    \<not> trim_panics cd oo es n"
  by (induction cd oo es n rule: trim_panics.induct) auto

text \<open>
  The length of the ring is always bounded. Its byte count is exact and bounded if cloning does
  not change the size of an event.
\<close>

definition sizes_agree :: "codec \<Rightarrow> bool" where
  "sizes_agree cd \<longleftrightarrow> (\<forall>e. event_bytes cd e = clone_bytes cd e)"

definition ring_inv :: "codec \<Rightarrow> store \<Rightarrow> bool" where
  "ring_inv cd s \<longleftrightarrow>
     int (length (s_ring s)) \<le> MaxCatchUpEvents (s_opts s)
     \<and> (sizes_agree cd \<longrightarrow>
          s_ringBytes s = ring_size cd (s_ring s) \<and> s_ringBytes s \<le> MaxCatchUpBytes (s_opts s))"

lemma ring_inv_cong:
  assumes "s_ring t = s_ring s" "s_ringBytes t = s_ringBytes s" "s_opts t = s_opts s"
  shows "ring_inv cd t = ring_inv cd s"
  unfolding ring_inv_def assms ..

lemma trim_ring_length:
  "trim_ring cd oo es n = (ring, m) \<Longrightarrow> 0 < MaxCatchUpEvents oo \<Longrightarrow>
    int (length ring) \<le> MaxCatchUpEvents oo"
  by (induction cd oo es n arbitrary: ring m rule: trim_ring.induct) (auto split: if_splits)

lemma appendRing_ring_inv [keep_inv]:
  assumes "ring_inv cd s" "options_ok (s_opts s)"
  shows "ring_inv cd (appendRing cd e s)"
proof -
  obtain ring m where t:
    "trim_ring cd (s_opts s) (s_ring s @ [e]) (s_ringBytes s + event_bytes cd e) = (ring, m)"
    by fastforce
  have pos: "0 < MaxCatchUpEvents (s_opts s)" "0 < MaxCatchUpBytes (s_opts s)"
    using assms(2) by (simp_all add: options_ok_def)
  have "m = ring_size cd ring \<and> (\<exists>dropped. s_ring s @ [e] = dropped @ ring)
    \<and> int (length ring) \<le> MaxCatchUpEvents (s_opts s) \<and> m \<le> MaxCatchUpBytes (s_opts s)"
    if "sizes_agree cd"
    using assms(1) pos that by (intro trim_ring_spec [OF t]) (auto simp: ring_inv_def sizes_agree_def)
  then show ?thesis
    using trim_ring_length [OF t pos(1)] by (auto simp: appendRing_def t ring_inv_def)
qed

end
