(* ===== verification/Store_Inv.thy ===== *)
theory Store_Inv
  imports Store_Apply
begin

text \<open>
  The well-formedness invariant of the retained state and its preservation by \<open>apply_event\<close>.

  \<^item> \<open>requests_inv\<close>: a request is filed under its own identifier, without its body, and has a
    record reference, a body length and a search index.
  \<^item> \<open>jobs_inv\<close>: a job is filed under its own identifier, belongs to a retained request, is in
    a state an event kind exists for, and \<open>jobsByRequest\<close> is exactly the inverse of
    \<open>Job.RequestID\<close>.
  \<^item> \<open>attempts_inv\<close>: an attempt belongs to a retained job of its own request, identifiers of
    attempts are unique, and \<open>attemptIDs\<close> and \<open>attemptRecord\<close> list exactly them.
  \<^item> \<open>keys_inv\<close>: an idempotency key leads to a retained request that has that key.
  \<^item> \<open>dedup_inv\<close>: conversely, the key of every retained request leads to it, so no two
    retained requests share a delivery identifier, nor a body hash if they have none.
\<close>

definition requests_inv :: "store \<Rightarrow> bool" where
  "requests_inv s \<longleftrightarrow>
     (\<forall>i r. fmlookup (s_requests s) i = Some r \<longrightarrow> r_ID r = i \<and> i \<noteq> [] \<and> r_Body r = [])
     \<and> fmdom (s_requestRecord s) = fmdom (s_requests s)
     \<and> fmdom (s_requestBytes s) = fmdom (s_requests s)
     \<and> fmdom (s_search s) = fmdom (s_requests s)"

definition jobs_inv :: "store \<Rightarrow> bool" where
  "jobs_inv s \<longleftrightarrow>
     (\<forall>i j. fmlookup (s_jobs s) i = Some j \<longrightarrow>
        j_ID j = i \<and> i \<noteq> [] \<and> fmlookup (s_requests s) (j_RequestID j) \<noteq> None
        \<and> job_state_ok (j_State j))
     \<and> (\<forall>rid. fmlookup (s_jobsByRequest s) rid \<noteq> Some {||})
     \<and> (\<forall>rid i. i |\<in>| jobs_of s rid
          \<longleftrightarrow> (\<exists>j. fmlookup (s_jobs s) i = Some j \<and> j_RequestID j = rid))"

definition attempts_inv :: "store \<Rightarrow> bool" where
  "attempts_inv s \<longleftrightarrow>
     (\<forall>rid. fmlookup (s_attempts s) rid \<noteq> Some [])
     \<and> (\<forall>rid a. a \<in> set (attempts_of s rid) \<longrightarrow>
          a_RequestID a = rid \<and> a_ResponseBody a = [] \<and> validateAttempt a = None
          \<and> (\<exists>j. fmlookup (s_jobs s) (a_JobID a) = Some j \<and> j_RequestID j = rid))
     \<and> (\<forall>x. x |\<in>| s_attemptIDs s \<longleftrightarrow> (\<exists>rid. x \<in> a_ID ` set (attempts_of s rid)))
     \<and> (\<forall>rid. distinct (map a_ID (attempts_of s rid)))
     \<and> (\<forall>rid rid'. rid \<noteq> rid' \<longrightarrow>
          a_ID ` set (attempts_of s rid) \<inter> a_ID ` set (attempts_of s rid') = {})
     \<and> fmdom (s_attemptRecord s) = s_attemptIDs s"

definition keys_inv :: "store \<Rightarrow> bool" where
  "keys_inv s \<longleftrightarrow>
     (\<forall>d i. fmlookup (s_delivery s) d = Some i \<longrightarrow>
        d \<noteq> [] \<and> (\<exists>r. fmlookup (s_requests s) i = Some r \<and> r_DeliveryID r = d))
     \<and> (\<forall>h i. fmlookup (s_body s) h = Some i \<longrightarrow>
        (\<exists>r. fmlookup (s_requests s) i = Some r \<and> r_DeliveryID r = [] \<and> r_BodySHA256 r = h))"

definition dedup_inv :: "store \<Rightarrow> bool" where
  "dedup_inv s \<longleftrightarrow>
     (\<forall>i r. fmlookup (s_requests s) i = Some r \<longrightarrow>
        (if r_DeliveryID r \<noteq> [] then fmlookup (s_delivery s) (r_DeliveryID r) = Some i
         else fmlookup (s_body s) (r_BodySHA256 r) = Some i))"

definition store_inv :: "store \<Rightarrow> bool" where
  "store_inv s \<longleftrightarrow> requests_inv s \<and> jobs_inv s \<and> attempts_inv s \<and> keys_inv s"

lemmas inv_defs = requests_inv_def jobs_inv_def attempts_inv_def keys_inv_def

lemma store_inv_new [simp]: "store_inv (new_store oo f)"
  by (simp add: store_inv_def inv_defs)

lemma dedup_inv_new [simp]: "dedup_inv (new_store oo f)"
  by (simp add: dedup_inv_def)

text \<open>The invariant reads the retained state only.\<close>

lemma store_inv_retained:
  "retained_of s = retained_of t \<Longrightarrow> store_inv s = store_inv t"
  by (simp add: retained_of_def store_inv_def inv_defs)

lemma dedup_inv_retained:
  "retained_of s = retained_of t \<Longrightarrow> dedup_inv s = dedup_inv t"
  by (simp add: retained_of_def dedup_inv_def)

text \<open>The facts of the invariant, as rules.\<close>

lemma requests_invD:
  assumes "requests_inv s" "fmlookup (s_requests s) i = Some r"
  shows "r_ID r = i" "i \<noteq> []" "r_Body r = []"
  using assms by (auto simp: requests_inv_def)

lemma jobs_invD:
  assumes "jobs_inv s" "fmlookup (s_jobs s) i = Some j"
  shows "j_ID j = i" "i \<noteq> []" "\<exists>r. fmlookup (s_requests s) (j_RequestID j) = Some r"
    "job_state_ok (j_State j)" "i |\<in>| jobs_of s (j_RequestID j)"
  using assms by (auto simp: jobs_inv_def)

lemma jobs_of_iff:
  "jobs_inv s \<Longrightarrow> i |\<in>| jobs_of s rid \<longleftrightarrow> (\<exists>j. fmlookup (s_jobs s) i = Some j \<and> j_RequestID j = rid)"
  by (simp add: jobs_inv_def)

lemma attempts_invD:
  assumes "attempts_inv s" "a \<in> set (attempts_of s rid)"
  shows "a_RequestID a = rid" "a_ResponseBody a = []" "validateAttempt a = None"
    "\<exists>j. fmlookup (s_jobs s) (a_JobID a) = Some j \<and> j_RequestID j = rid"
    "a_ID a |\<in>| s_attemptIDs s"
  using assms by (auto simp: attempts_inv_def)

section \<open>Removing a job\<close>

lemma removeJob_None: "fmlookup (s_jobs s) i = None \<Longrightarrow> removeJob i s = s"
  by (simp add: removeJob_def)

lemma removeJob_jobs [simp]: "s_jobs (removeJob i s) = fmdrop i (s_jobs s)"
  by (auto simp: removeJob_def Let_def fmdrop_idle' fmlookup_dom'_iff split: option.split)

lemma removeJob_same [simp]:
  "s_requests (removeJob i s) = s_requests s" "s_delivery (removeJob i s) = s_delivery s"
  "s_body (removeJob i s) = s_body s" "s_requestRecord (removeJob i s) = s_requestRecord s"
  "s_requestBytes (removeJob i s) = s_requestBytes s" "s_search (removeJob i s) = s_search s"
  "s_opts (removeJob i s) = s_opts s"
  by (auto simp: removeJob_def Let_def split: option.split)

lemma jobs_inv_jbr:
  assumes "jobs_inv s" "fmlookup (s_jobs s) i = Some j"
  obtains A where "fmlookup (s_jobsByRequest s) (j_RequestID j) = Some A" "i |\<in>| A"
  using jobs_invD(5) [OF assms] by (cases "fmlookup (s_jobsByRequest s) (j_RequestID j)") auto

lemma removeJob_jobs_of:
  assumes "jobs_inv s"
  shows "jobs_of (removeJob i s) rid = jobs_of s rid - {|i|}"
proof (cases "fmlookup (s_jobs s) i")
  case None
  then have "i |\<notin>| jobs_of s rid" using jobs_of_iff [OF assms] by auto
  then show ?thesis by (simp add: removeJob_None None)
next
  case (Some j)
  then obtain A where A: "fmlookup (s_jobsByRequest s) (j_RequestID j) = Some A"
    using jobs_inv_jbr [OF assms] by blast
  show ?thesis
  proof (cases "rid = j_RequestID j")
    case True
    then show ?thesis using Some A by (auto simp: removeJob_def Let_def map_get_def)
  next
    case False
    then have "i |\<notin>| jobs_of s rid" using jobs_of_iff [OF assms] Some by auto
    then show ?thesis using Some A False by (simp add: removeJob_def Let_def map_get_def)
  qed
qed

lemma removeJob_attempts_of:
  assumes "attempts_inv s"
  shows "attempts_of (removeJob i s) rid = filter (\<lambda>a. a_JobID a \<noteq> i) (attempts_of s rid)"
proof (cases "fmlookup (s_jobs s) i")
  case None
  then have "\<forall>a \<in> set (attempts_of s rid). a_JobID a \<noteq> i"
    using attempts_invD(4) [OF assms] by fastforce
  then show ?thesis by (simp add: removeJob_None None)
next
  case (Some j)
  show ?thesis
  proof (cases "rid = j_RequestID j")
    case True
    then show ?thesis using Some by (simp add: removeJob_def Let_def map_get_def)
  next
    case False
    then have "\<forall>a \<in> set (attempts_of s rid). a_JobID a \<noteq> i"
      using attempts_invD(4) [OF assms] Some by fastforce
    then have "filter (\<lambda>a. a_JobID a \<noteq> i) (attempts_of s rid) = attempts_of s rid" by simp
    then show ?thesis using Some False by (simp add: removeJob_def Let_def map_get_def)
  qed
qed

lemma removeJob_no_empty:
  "fmlookup (s_jobsByRequest s) rid \<noteq> Some {||} \<Longrightarrow>
     fmlookup (s_jobsByRequest (removeJob i s)) rid \<noteq> Some {||}"
  "fmlookup (s_attempts s) rid \<noteq> Some [] \<Longrightarrow> fmlookup (s_attempts (removeJob i s)) rid \<noteq> Some []"
  by (auto simp: removeJob_def Let_def split: option.splits)

lemma a_ID_unique:
  assumes "attempts_inv s" "a \<in> set (attempts_of s rid)" "b \<in> set (attempts_of s rid')"
    "a_ID a = a_ID b"
  shows "a = b"
proof -
  have "rid = rid'" using assms unfolding attempts_inv_def by blast
  then show ?thesis using assms unfolding attempts_inv_def distinct_map inj_on_def by blast
qed

lemma removeJob_attemptIDs:
  assumes "attempts_inv s"
  shows "x |\<in>| s_attemptIDs (removeJob i s)
    \<longleftrightarrow> (\<exists>rid. x \<in> a_ID ` set (attempts_of (removeJob i s) rid))"
proof -
  have ids: "y |\<in>| s_attemptIDs s \<longleftrightarrow> (\<exists>rid. y \<in> a_ID ` set (attempts_of s rid))" for y
    using assms by (simp add: attempts_inv_def)
  show ?thesis
  proof (cases "fmlookup (s_jobs s) i")
    case None
    then show ?thesis by (simp add: removeJob_None ids)
  next
    case (Some j)
    have eq: "x |\<in>| s_attemptIDs (removeJob i s) \<longleftrightarrow> x |\<in>| s_attemptIDs s
      \<and> \<not> (\<exists>a \<in> set (attempts_of s (j_RequestID j)). a_JobID a = i \<and> a_ID a = x)"
      using Some by (auto simp: removeJob_def Let_def fset_of_list.rep_eq)
    have only: "a \<in> set (attempts_of s (j_RequestID j))"
      if "a \<in> set (attempts_of s rid)" "a_JobID a = i" for a rid
      using attempts_invD(4) [OF assms that(1)] that Some by auto
    show ?thesis
      unfolding eq ids removeJob_attempts_of [OF assms]
      using only a_ID_unique [OF assms] by (fastforce simp: image_iff)
  qed
qed

lemma removeJob_attemptRecord:
  assumes "attempts_inv s"
  shows "fmdom (s_attemptRecord (removeJob i s)) = s_attemptIDs (removeJob i s)"
  using assms by (auto simp: removeJob_def Let_def attempts_inv_def split: option.split)

lemma removeJob_inv [keep_inv]:
  assumes "store_inv s"
  shows "store_inv (removeJob i s)"
proof -
  have r: "requests_inv s" and j: "jobs_inv s" and a: "attempts_inv s" and k: "keys_inv s"
    using assms by (simp_all add: store_inv_def)
  have "requests_inv (removeJob i s)" using r by (simp add: requests_inv_def)
  moreover have "keys_inv (removeJob i s)" using k by (simp add: keys_inv_def)
  moreover have "jobs_inv (removeJob i s)"
    unfolding jobs_inv_def removeJob_jobs_of [OF j]
    using j removeJob_no_empty(1) [of s] by (auto simp: jobs_inv_def)
  moreover have "attempts_inv (removeJob i s)"
    unfolding attempts_inv_def
  proof (intro conjI allI impI)
    show "fmlookup (s_attempts (removeJob i s)) rid \<noteq> Some []" for rid
      using a removeJob_no_empty(2) by (simp add: attempts_inv_def)
    show "fmdom (s_attemptRecord (removeJob i s)) = s_attemptIDs (removeJob i s)"
      by (rule removeJob_attemptRecord [OF a])
    show "x |\<in>| s_attemptIDs (removeJob i s)
        \<longleftrightarrow> (\<exists>rid. x \<in> a_ID ` set (attempts_of (removeJob i s) rid))" for x
      by (rule removeJob_attemptIDs [OF a])
    show "distinct (map a_ID (attempts_of (removeJob i s) rid))" for rid
      using a by (auto simp: removeJob_attempts_of [OF a] attempts_inv_def distinct_map_filter)
    show "a_ID ` set (attempts_of (removeJob i s) rid)
        \<inter> a_ID ` set (attempts_of (removeJob i s) rid') = {}" if "rid \<noteq> rid'" for rid rid'
    proof -
      have "a_ID ` set (attempts_of s rid) \<inter> a_ID ` set (attempts_of s rid') = {}"
        using a that by (simp add: attempts_inv_def)
      then show ?thesis by (auto simp: removeJob_attempts_of [OF a])
    qed
    fix rid x
    assume x: "x \<in> set (attempts_of (removeJob i s) rid)"
    then have m: "x \<in> set (attempts_of s rid)" "a_JobID x \<noteq> i"
      by (auto simp: removeJob_attempts_of [OF a])
    show "a_RequestID x = rid" "a_ResponseBody x = []" "validateAttempt x = None"
      "\<exists>j. fmlookup (s_jobs (removeJob i s)) (a_JobID x) = Some j \<and> j_RequestID j = rid"
      using attempts_invD [OF a m(1)] m(2) by auto
  qed
  ultimately show ?thesis by (simp add: store_inv_def)
qed

section \<open>Removing several jobs\<close>

lemma fold_removeJob_same [simp]:
  "s_requests (fold removeJob xs s) = s_requests s"
  "s_delivery (fold removeJob xs s) = s_delivery s" "s_body (fold removeJob xs s) = s_body s"
  "s_requestRecord (fold removeJob xs s) = s_requestRecord s"
  "s_requestBytes (fold removeJob xs s) = s_requestBytes s"
  "s_search (fold removeJob xs s) = s_search s" "s_opts (fold removeJob xs s) = s_opts s"
  by (induction xs arbitrary: s) simp_all

lemma fold_removeJob_jobs [simp]:
  "fmlookup (s_jobs (fold removeJob xs s)) k = (if k \<in> set xs then None else fmlookup (s_jobs s) k)"
  by (induction xs arbitrary: s) auto

lemma fold_removeJob_inv [keep_inv]: "store_inv s \<Longrightarrow> store_inv (fold removeJob xs s)"
  by (induction xs arbitrary: s) (simp_all add: removeJob_inv)

lemma fold_removeJob_jobs_of:
  "store_inv s \<Longrightarrow> jobs_of (fold removeJob xs s) rid = jobs_of s rid - fset_of_list xs"
proof (induction xs arbitrary: s)
  case Nil
  then show ?case by simp
next
  case (Cons x xs)
  have "jobs_of (fold removeJob xs (removeJob x s)) rid
      = jobs_of (removeJob x s) rid - fset_of_list xs"
    using Cons by (simp add: removeJob_inv)
  also have "\<dots> = jobs_of s rid - {|x|} - fset_of_list xs"
    using Cons.prems by (simp add: removeJob_jobs_of store_inv_def)
  finally show ?case by auto
qed

lemma fold_removeJob_attempts_of:
  "store_inv s \<Longrightarrow>
    attempts_of (fold removeJob xs s) rid = filter (\<lambda>a. a_JobID a \<notin> set xs) (attempts_of s rid)"
proof (induction xs arbitrary: s)
  case Nil
  then show ?case by simp
next
  case (Cons x xs)
  have "attempts_of (fold removeJob xs (removeJob x s)) rid
      = filter (\<lambda>a. a_JobID a \<notin> set xs) (attempts_of (removeJob x s) rid)"
    using Cons by (simp add: removeJob_inv)
  then show ?case
    using Cons.prems by (simp add: removeJob_attempts_of store_inv_def conj_commute)
qed

section \<open>Removing a request\<close>

lemma removeRequest_None: "fmlookup (s_requests s) i = None \<Longrightarrow> removeRequest i s = s"
  by (simp add: removeRequest_def)

lemma removeRequest_requests [simp]: "s_requests (removeRequest i s) = fmdrop i (s_requests s)"
  by (auto simp: removeRequest_def Let_def fmdrop_idle' fmlookup_dom'_iff split: option.split)

lemma removeRequest_opts [simp]: "s_opts (removeRequest i s) = s_opts s"
  using removeRequest_frame [of s i] by (simp add: same_frame_def)

text \<open>The store after the first block of \<open>removeRequest\<close>, which forgets the idempotency key.\<close>

definition forget_key :: "string \<Rightarrow> request \<Rightarrow> store \<Rightarrow> store" where
  "forget_key i r s = s\<lparr>
     s_delivery := (if r_DeliveryID r \<noteq> [] \<and> map_get [] (s_delivery s) (r_DeliveryID r) = i
       then fmdrop (r_DeliveryID r) (s_delivery s) else s_delivery s),
     s_body := (if r_DeliveryID r = [] \<and> map_get [] (s_body s) (r_BodySHA256 r) = i
       then fmdrop (r_BodySHA256 r) (s_body s) else s_body s)\<rparr>"

lemma forget_key_same [simp]:
  "s_requests (forget_key i r s) = s_requests s" "s_jobs (forget_key i r s) = s_jobs s"
  "s_jobsByRequest (forget_key i r s) = s_jobsByRequest s"
  "s_attempts (forget_key i r s) = s_attempts s"
  "s_attemptIDs (forget_key i r s) = s_attemptIDs s"
  "s_attemptRecord (forget_key i r s) = s_attemptRecord s"
  "s_requestRecord (forget_key i r s) = s_requestRecord s"
  "s_requestBytes (forget_key i r s) = s_requestBytes s"
  "s_search (forget_key i r s) = s_search s"
  by (simp_all add: forget_key_def)

lemma forget_key_inv: "store_inv s \<Longrightarrow> store_inv (forget_key i r s)"
  by (auto simp: store_inv_def inv_defs) (auto simp: forget_key_def split: if_splits)

lemma forget_key_keys:
  assumes "keys_inv s" "fmlookup (s_requests s) i = Some r" "i \<noteq> []"
  shows "fmlookup (s_delivery (forget_key i r s)) d \<noteq> Some i"
    "fmlookup (s_body (forget_key i r s)) h \<noteq> Some i"
proof -
  have k: "fmlookup (s_delivery s) d = Some i \<Longrightarrow> d \<noteq> [] \<and> r_DeliveryID r = d"
    "fmlookup (s_body s) h = Some i \<Longrightarrow> r_DeliveryID r = [] \<and> r_BodySHA256 r = h" for d h
    using assms unfolding keys_inv_def by (metis option.inject)+
  show "fmlookup (s_delivery (forget_key i r s)) d \<noteq> Some i"
    using k(1) [of d] by (auto simp: forget_key_def map_get_def)
  show "fmlookup (s_body (forget_key i r s)) h \<noteq> Some i"
    using k(2) [of h] by (auto simp: forget_key_def map_get_def)
qed

lemma cleared_inv:
  assumes inv: "store_inv s" and r: "fmlookup (s_requests s) i = Some r"
    and t: "t = fold removeJob (sorted_list_of_fset (jobs_of s i)) (forget_key i r s)"
  shows "store_inv t"
  by (simp add: t fold_removeJob_inv forget_key_inv inv)

lemma cleared_jobs_of:
  assumes inv: "store_inv s" and r: "fmlookup (s_requests s) i = Some r"
    and t: "t = fold removeJob (sorted_list_of_fset (jobs_of s i)) (forget_key i r s)"
  shows "jobs_of t rid = (if rid = i then {||} else jobs_of s rid)"
proof -
  have "jobs_of t rid = jobs_of s rid - jobs_of s i"
    using fold_removeJob_jobs_of [OF forget_key_inv [OF inv]] by (simp add: t)
  moreover have "jobs_of s rid |\<inter>| jobs_of s i = {||}" if "rid \<noteq> i"
    using that inv by (auto simp: store_inv_def jobs_of_iff)
  ultimately show ?thesis by auto
qed

lemma cleared_jobs:
  assumes inv: "store_inv s" and r: "fmlookup (s_requests s) i = Some r"
    and t: "t = fold removeJob (sorted_list_of_fset (jobs_of s i)) (forget_key i r s)"
  shows "fmlookup (s_jobs t) k
    = (if k |\<in>| jobs_of s i then None else fmlookup (s_jobs s) k)"
  by (simp add: t)

lemma cleared_attempts_of:
  assumes inv: "store_inv s" and r: "fmlookup (s_requests s) i = Some r"
    and t: "t = fold removeJob (sorted_list_of_fset (jobs_of s i)) (forget_key i r s)"
  shows "attempts_of t rid = (if rid = i then [] else attempts_of s rid)"
proof -
  have *: "attempts_of t rid = filter (\<lambda>a. a_JobID a |\<notin>| jobs_of s i) (attempts_of s rid)"
    using fold_removeJob_attempts_of [OF forget_key_inv [OF inv]] by (simp add: t)
  have j: "a_JobID a |\<in>| jobs_of s i \<longleftrightarrow> rid = i" if "a \<in> set (attempts_of s rid)" for a
    using that inv attempts_invD(4) [of s a rid] by (auto simp: store_inv_def jobs_of_iff)
  show ?thesis
    unfolding * using j by (auto simp: filter_empty_conv intro!: filter_True)
qed

lemma removeRequest_eq:
  assumes inv: "store_inv s" and r: "fmlookup (s_requests s) i = Some r"
    and t: "t = fold removeJob (sorted_list_of_fset (jobs_of s i)) (forget_key i r s)"
  shows "removeRequest i s = t\<lparr>
    s_jobsByRequest := fmdrop i (s_jobsByRequest t), s_requests := fmdrop i (s_requests s),
    s_attempts := fmdrop i (s_attempts t),
    s_requestRecord := fmdrop i (s_requestRecord s),
    s_requestBytes := fmdrop i (s_requestBytes s), s_search := fmdrop i (s_search s)\<rparr>"
  using cleared_attempts_of [OF inv r t, of i]
  by (simp add: removeRequest_def r t Let_def flip: forget_key_def)

lemma removeRequest_jobs:
  assumes "store_inv s"
  shows "fmlookup (s_jobs (removeRequest i s)) k
    = (case fmlookup (s_jobs s) k of None \<Rightarrow> None
       | Some j \<Rightarrow> if j_RequestID j = i then None else Some j)"
proof (cases "fmlookup (s_requests s) i")
  case None
  then show ?thesis
    using assms jobs_invD(3) [of s k] by (auto simp: removeRequest_None store_inv_def split: option.split)
next
  case (Some r)
  show ?thesis
    using assms unfolding removeRequest_eq [OF assms Some refl]
    by (auto simp: store_inv_def jobs_of_iff split: option.split)
qed

lemma removeRequest_jobs_of:
  assumes "store_inv s"
  shows "jobs_of (removeRequest i s) rid = (if rid = i then {||} else jobs_of s rid)"
proof (cases "fmlookup (s_requests s) i")
  case None
  then have "jobs_of s i = {||}"
    using assms by (fastforce simp: store_inv_def jobs_of_iff dest: jobs_invD(3))
  with None show ?thesis by (simp add: removeRequest_None)
next
  case (Some r)
  show ?thesis
    unfolding removeRequest_eq [OF assms Some refl]
    using cleared_jobs_of [OF assms Some refl, of rid] by (simp add: map_get_drop)
qed

lemma removeRequest_attempts_of:
  assumes "store_inv s"
  shows "attempts_of (removeRequest i s) rid = (if rid = i then [] else attempts_of s rid)"
proof (cases "fmlookup (s_requests s) i")
  case None
  have "attempts_of s i = []"
  proof (rule ccontr)
    assume "attempts_of s i \<noteq> []"
    then obtain a where "a \<in> set (attempts_of s i)" by (meson list.set_sel(1))
    then show False
      using assms None attempts_invD(4) [of s a i] jobs_invD(3) [of s]
      by (fastforce simp: store_inv_def)
  qed
  with None show ?thesis by (simp add: removeRequest_None)
next
  case (Some r)
  show ?thesis
    unfolding removeRequest_eq [OF assms Some refl]
    using cleared_attempts_of [OF assms Some refl, of rid] by (simp add: map_get_drop)
qed

lemma removeRequest_inv [keep_inv]:
  assumes "store_inv s"
  shows "store_inv (removeRequest i s)"
proof (cases "fmlookup (s_requests s) i")
  case None
  then show ?thesis using assms by (simp add: removeRequest_None)
next
  case (Some r)
  define t where t: "t = fold removeJob (sorted_list_of_fset (jobs_of s i)) (forget_key i r s)"
  note eq = removeRequest_eq [OF assms Some t]
  have ti: "store_inv t" by (rule cleared_inv [OF assms Some t])
  have tr: "s_requests t = s_requests s" by (simp add: t)
  have "requests_inv (removeRequest i s)"
    using assms by (simp add: eq store_inv_def requests_inv_def)
  moreover have "keys_inv (removeRequest i s)"
  proof -
    have "i \<noteq> []" using assms requests_invD(2) [OF _ Some] by (simp add: store_inv_def)
    then have "fmlookup (s_delivery t) d \<noteq> Some i" "fmlookup (s_body t) h \<noteq> Some i" for d h
      using forget_key_keys [of s i r] assms Some by (simp_all add: t store_inv_def)
    then show ?thesis
      using ti by (fastforce simp: eq store_inv_def keys_inv_def tr)
  qed
  moreover have "jobs_inv (removeRequest i s)"
  proof -
    have "j_RequestID j \<noteq> i" if "fmlookup (s_jobs t) k = Some j" for j k
      using that ti cleared_jobs_of [OF assms Some t, of i] jobs_invD(5) [of t k j]
      by (auto simp: store_inv_def)
    then show ?thesis
      using ti by (auto simp: eq store_inv_def jobs_inv_def tr map_get_drop)
  qed
  moreover have "attempts_inv (removeRequest i s)"
  proof -
    have e: "attempts_of t i = []"
      using cleared_attempts_of [OF assms Some t, of i] by simp
    then have a: "attempts_of (removeRequest i s) = attempts_of t"
      by (auto simp: eq map_get_drop fun_eq_iff)
    have n: "fmlookup (s_attempts (removeRequest i s)) rid \<noteq> Some []" for rid
      using ti by (auto simp: eq store_inv_def attempts_inv_def)
    show ?thesis
      using ti n unfolding store_inv_def attempts_inv_def a by (simp add: eq)
  qed
  ultimately show ?thesis by (simp add: store_inv_def)
qed

section \<open>The payload blocks\<close>

lemma apply_request_inv [keep_inv]:
  assumes "store_inv s" "r_ID r \<noteq> []" "fmlookup (s_requests s) (r_ID r) = None"
  shows "store_inv (apply_request r ref s)"
proof -
  let ?t = "apply_request r ref s"
  have q: "fmlookup (s_requests ?t) k = (if k = r_ID r then Some (r\<lparr>r_Body := []\<rparr>)
      else fmlookup (s_requests s) k)" for k
    by (simp add: apply_request_def)
  have "requests_inv ?t" using assms by (auto simp: store_inv_def requests_inv_def apply_request_def)
  moreover have "jobs_inv ?t"
    using assms(1) unfolding store_inv_def jobs_inv_def q by (auto simp: apply_request_def)
  moreover have "attempts_inv ?t"
    using assms(1) by (simp add: store_inv_def attempts_inv_def apply_request_def)
  moreover have "keys_inv ?t"
  proof -
    have k: "keys_inv s" using assms(1) by (simp add: store_inv_def)
    then have "fmlookup (s_delivery s) d \<noteq> Some (r_ID r)" "fmlookup (s_body s) h \<noteq> Some (r_ID r)" for d h
      using assms(3) unfolding keys_inv_def by fastforce+
    then show ?thesis
      using k unfolding keys_inv_def q by (auto simp: apply_request_def split: if_splits)
  qed
  ultimately show ?thesis by (simp add: store_inv_def)
qed

lemma apply_job_inv [keep_inv]:
  assumes "store_inv s" "j_ID j \<noteq> []" "job_state_ok (j_State j)"
    "fmlookup (s_requests s) (j_RequestID j) \<noteq> None"
    "\<And>j0. fmlookup (s_jobs s) (j_ID j) = Some j0 \<Longrightarrow> j_RequestID j0 = j_RequestID j"
  shows "store_inv (apply_job j s)"
proof -
  let ?t = "apply_job j s"
  have jb: "fmlookup (s_jobs ?t) k = (if k = j_ID j then Some j else fmlookup (s_jobs s) k)" for k
    by (simp add: apply_job_def)
  have jo: "jobs_of ?t rid = (if rid = j_RequestID j then finsert (j_ID j) (jobs_of s rid)
      else jobs_of s rid)" for rid
    by (simp add: apply_job_def map_get_upd)
  have "jobs_inv ?t"
    unfolding jobs_inv_def
  proof (intro conjI allI)
    show "fmlookup (s_jobsByRequest ?t) rid \<noteq> Some {||}" for rid
      using assms(1) by (simp add: apply_job_def store_inv_def jobs_inv_def)
    show "fmlookup (s_jobs ?t) i = Some k \<longrightarrow> j_ID k = i \<and> i \<noteq> []
        \<and> fmlookup (s_requests ?t) (j_RequestID k) \<noteq> None \<and> job_state_ok (j_State k)" for i k
      unfolding jb using assms by (auto simp: apply_job_def store_inv_def jobs_inv_def)
    show "i |\<in>| jobs_of ?t rid \<longleftrightarrow> (\<exists>k. fmlookup (s_jobs ?t) i = Some k \<and> j_RequestID k = rid)" for rid i
    proof -
      have "i |\<in>| jobs_of s rid \<longleftrightarrow> (\<exists>k. fmlookup (s_jobs s) i = Some k \<and> j_RequestID k = rid)"
        using assms(1) by (simp add: store_inv_def jobs_of_iff)
      then show ?thesis
        unfolding jb jo using assms(5) by (cases "i = j_ID j") auto
    qed
  qed
  moreover have "attempts_inv ?t"
  proof -
    have sel: "s_attempts ?t = s_attempts s" "s_attemptIDs ?t = s_attemptIDs s"
      "s_attemptRecord ?t = s_attemptRecord s"
      by (simp_all add: apply_job_def)
    have "\<exists>k. fmlookup (s_jobs ?t) (a_JobID a) = Some k \<and> j_RequestID k = rid"
      if "a \<in> set (attempts_of s rid)" for a rid
      unfolding jb using that assms(1,5) attempts_invD(4) [of s a rid]
      by (auto simp: store_inv_def)
    with assms(1) show ?thesis
      by (auto simp: store_inv_def attempts_inv_def sel)
  qed
  moreover have "requests_inv ?t" "keys_inv ?t"
    using assms(1) by (simp_all add: store_inv_def requests_inv_def keys_inv_def apply_job_def)
  ultimately show ?thesis by (simp add: store_inv_def)
qed

lemma apply_attempt_inv [keep_inv]:
  assumes "store_inv s" "validateAttempt a = None" "a_ID a |\<notin>| s_attemptIDs s"
    "fmlookup (s_jobs s) (a_JobID a) = Some j" "j_RequestID j = a_RequestID a"
  shows "store_inv (apply_attempt a ref s)"
proof -
  let ?t = "apply_attempt a ref s" and ?a = "a\<lparr>a_ResponseBody := []\<rparr>"
  have ai: "attempts_inv s" using assms(1) by (simp add: store_inv_def)
  have ao: "attempts_of ?t rid = (if rid = a_RequestID a then attempts_of s rid @ [?a]
      else attempts_of s rid)" for rid
    by (simp add: apply_attempt_def map_get_upd)
  have fresh: "a_ID a \<notin> a_ID ` set (attempts_of s rid)" for rid
    using ai assms(3) by (auto simp: attempts_inv_def)
  have va: "validateAttempt ?a = None" using assms(2) by (simp add: validateAttempt_def)
  have jobs: "s_jobs ?t = s_jobs s" by (simp add: apply_attempt_def)
  have "attempts_inv ?t"
    unfolding attempts_inv_def ao jobs
  proof (intro conjI allI impI)
    show "fmlookup (s_attempts ?t) rid \<noteq> Some []" for rid
      using ai by (simp add: apply_attempt_def attempts_inv_def)
    show "fmdom (s_attemptRecord ?t) = s_attemptIDs ?t"
      using ai by (simp add: apply_attempt_def attempts_inv_def)
    show "x |\<in>| s_attemptIDs ?t \<longleftrightarrow> (\<exists>rid. x \<in> a_ID ` set
        (if rid = a_RequestID a then attempts_of s rid @ [?a] else attempts_of s rid))" for x
    proof -
      have "x |\<in>| s_attemptIDs s \<longleftrightarrow> (\<exists>rid. x \<in> a_ID ` set (attempts_of s rid))"
        using ai by (simp add: attempts_inv_def)
      then have "x |\<in>| s_attemptIDs ?t
          \<longleftrightarrow> x = a_ID a \<or> (\<exists>rid. x \<in> a_ID ` set (attempts_of s rid))"
        by (simp add: apply_attempt_def)
      moreover have "(\<exists>rid. x \<in> a_ID ` set
          (if rid = a_RequestID a then attempts_of s rid @ [?a] else attempts_of s rid))
        \<longleftrightarrow> x = a_ID a \<or> (\<exists>rid. x \<in> a_ID ` set (attempts_of s rid))" (is "?l \<longleftrightarrow> ?r")
      proof
        assume ?l
        then show ?r by (auto split: if_splits)
      next
        assume ?r
        then consider "x = a_ID a" | rid where "x \<in> a_ID ` set (attempts_of s rid)" by blast
        then show ?l
        proof cases
          case 1
          then show ?thesis by (intro exI [of _ "a_RequestID a"]) simp
        next
          case (2 rid)
          then show ?thesis by (intro exI [of _ rid]) auto
        qed
      qed
      ultimately show ?thesis by simp
    qed
    show "distinct (map a_ID
        (if rid = a_RequestID a then attempts_of s rid @ [?a] else attempts_of s rid))" for rid
      using ai fresh by (simp add: attempts_inv_def)
    show "a_ID ` set (if rid = a_RequestID a then attempts_of s rid @ [?a] else attempts_of s rid)
      \<inter> a_ID ` set (if rid' = a_RequestID a then attempts_of s rid' @ [?a] else attempts_of s rid')
      = {}" if "rid \<noteq> rid'" for rid rid'
      using ai fresh [of rid] fresh [of rid'] that by (auto simp: attempts_inv_def)
    fix rid b
    assume "b \<in> set (if rid = a_RequestID a then attempts_of s rid @ [?a] else attempts_of s rid)"
    then consider "b \<in> set (attempts_of s rid)" | "b = ?a" "rid = a_RequestID a"
      by (auto split: if_splits)
    then show "a_RequestID b = rid" "a_ResponseBody b = []" "validateAttempt b = None"
      "\<exists>j. fmlookup (s_jobs s) (a_JobID b) = Some j \<and> j_RequestID j = rid"
      using attempts_invD [OF ai, of b rid] va assms(4,5) by (cases; auto)+
  qed
  then show ?thesis
    using assms(1) by (simp add: store_inv_def requests_inv_def keys_inv_def jobs_inv_def
        apply_attempt_def)
qed

lemma apply_job_attempt_commute:
  "apply_job j (apply_attempt a ref s) = apply_attempt a ref (apply_job j s)"
  by (simp add: apply_job_def apply_attempt_def)

section \<open>Evictions\<close>

lemma apply_evictions_inv [keep_inv]: "store_inv s \<Longrightarrow> store_inv (apply_evictions e s)"
proof -
  have "store_inv t \<Longrightarrow> store_inv (fold removeRequest xs t)" for xs t
    by (induction xs arbitrary: t) (simp_all add: removeRequest_inv)
  then show "store_inv s \<Longrightarrow> store_inv (apply_evictions e s)"
    by (simp add: apply_evictions_def fold_removeJob_inv)
qed

lemma fold_removeRequest_requests [simp]:
  "fmlookup (s_requests (fold removeRequest xs s)) k
    = (if k \<in> set xs then None else fmlookup (s_requests s) k)"
  by (induction xs arbitrary: s) auto

lemma fold_removeRequest_lookups:
  assumes "store_inv s"
  shows "fmlookup (s_jobs (fold removeRequest xs s)) k
      = (case fmlookup (s_jobs s) k of None \<Rightarrow> None
         | Some j \<Rightarrow> if j_RequestID j \<in> set xs then None else Some j)"
    and "jobs_of (fold removeRequest xs s) rid = (if rid \<in> set xs then {||} else jobs_of s rid)"
    and "attempts_of (fold removeRequest xs s) rid
      = (if rid \<in> set xs then [] else attempts_of s rid)"
  using assms
  by (induction xs arbitrary: s)
    (auto simp: removeRequest_inv removeRequest_jobs removeRequest_jobs_of
      removeRequest_attempts_of split: option.split)

lemma apply_evictions_requests [simp]:
  "fmlookup (s_requests (apply_evictions e s)) k
    = (if k \<in> set (e_EvictedRequestIDs e) then None else fmlookup (s_requests s) k)"
  by (simp add: apply_evictions_def)

lemma apply_evictions_jobs:
  assumes "store_inv s"
  shows "fmlookup (s_jobs (apply_evictions e s)) k
      = (case fmlookup (s_jobs s) k of None \<Rightarrow> None
         | Some j \<Rightarrow> if k \<in> set (e_EvictedJobIDs e) \<or> j_RequestID j \<in> set (e_EvictedRequestIDs e)
             then None else Some j)"
  by (auto simp: apply_evictions_def fold_removeRequest_lookups fold_removeJob_inv assms
      split: option.split)

lemma apply_evictions_attempts_of:
  assumes "store_inv s"
  shows "attempts_of (apply_evictions e s) rid = (if rid \<in> set (e_EvictedRequestIDs e) then []
      else filter (\<lambda>a. a_JobID a \<notin> set (e_EvictedJobIDs e)) (attempts_of s rid))"
  by (simp add: apply_evictions_def fold_removeRequest_lookups fold_removeJob_inv
      fold_removeJob_attempts_of assms)

lemma apply_evictions_jobs_of:
  assumes "store_inv s"
  shows "jobs_of (apply_evictions e s) rid = (if rid \<in> set (e_EvictedRequestIDs e) then {||}
      else jobs_of s rid - fset_of_list (e_EvictedJobIDs e))"
  by (simp add: apply_evictions_def fold_removeRequest_lookups fold_removeJob_inv
      fold_removeJob_jobs_of assms)

lemma apply_evictions_attemptIDs:
  assumes "store_inv s" "x |\<in>| s_attemptIDs (apply_evictions e s)"
  shows "x |\<in>| s_attemptIDs s"
proof -
  have "attempts_inv (apply_evictions e s)" "attempts_inv s"
    using assms(1) apply_evictions_inv by (simp_all add: store_inv_def)
  then show ?thesis
    using assms by (fastforce simp: attempts_inv_def apply_evictions_attempts_of split: if_splits)
qed

section \<open>Events that fit a state\<close>

text \<open>
  What validation establishes of an event, and what it leaves to the caller: that the event
  does not evict what its own payload refers to, and that a lone attempt names a job of its
  own request. The events the operations of the store append are of this kind.
\<close>

definition event_fits :: "store \<Rightarrow> event \<Rightarrow> bool" where
  "event_fits s e \<longleftrightarrow>
     (case e_Request e of None \<Rightarrow> True | Some r \<Rightarrow>
        r_ID r \<noteq> [] \<and> fmlookup (s_requests s) (r_ID r) = None)
     \<and> (case e_Job e of None \<Rightarrow> True | Some j \<Rightarrow>
        j_ID j \<noteq> [] \<and> job_state_ok (j_State j)
        \<and> (fmlookup (s_requests s) (j_RequestID j) \<noteq> None
             \<and> j_RequestID j \<notin> set (e_EvictedRequestIDs e)
           \<or> (\<exists>r. e_Request e = Some r \<and> r_ID r = j_RequestID j))
        \<and> (\<forall>j0. fmlookup (s_jobs s) (j_ID j) = Some j0 \<longrightarrow> j_RequestID j0 = j_RequestID j))
     \<and> (case e_Attempt e of None \<Rightarrow> True | Some a \<Rightarrow>
        validateAttempt a = None \<and> a_ID a |\<notin>| s_attemptIDs s
        \<and> (case e_Job e of
             Some j \<Rightarrow> a_JobID a = j_ID j \<and> a_RequestID a = j_RequestID j
           | None \<Rightarrow> (\<exists>j. fmlookup (s_jobs s) (a_JobID a) = Some j \<and> j_RequestID j = a_RequestID a)
               \<and> a_RequestID a \<notin> set (e_EvictedRequestIDs e)
               \<and> a_JobID a \<notin> set (e_EvictedJobIDs e)))"

lemma apply_payload_inv:
  assumes "store_inv s" "event_fits s e"
  shows "store_inv (apply_payload e ref (apply_evictions e s))"
proof -
  let ?s = "apply_evictions e s"
  define s1 where "s1 = (case e_Request e of None \<Rightarrow> ?s | Some r \<Rightarrow> apply_request r ref ?s)"
  define s2 where "s2 = (case e_Job e of None \<Rightarrow> s1 | Some j \<Rightarrow> apply_job j s1)"
  have i0: "store_inv ?s" by (rule apply_evictions_inv [OF assms(1)])
  have i1: "store_inv s1"
    using assms(2) i0 by (auto simp: s1_def event_fits_def apply_request_inv split: option.splits)
  have s1: "s_jobs s1 = s_jobs ?s" "s_attemptIDs s1 = s_attemptIDs ?s"
    by (simp_all add: s1_def apply_request_def split: option.split)
  have req1: "fmlookup (s_requests s1) k \<noteq> None \<longleftrightarrow> fmlookup (s_requests ?s) k \<noteq> None
      \<or> (\<exists>r. e_Request e = Some r \<and> r_ID r = k)" for k
    by (auto simp: s1_def apply_request_def split: option.split)
  have old: "j_RequestID j0 = j_RequestID j" if "e_Job e = Some j"
    "fmlookup (s_jobs s1) (j_ID j) = Some j0" for j j0
    using that assms by (auto simp: s1 apply_evictions_jobs event_fits_def split: option.splits if_splits)
  have i2: "store_inv s2"
  proof (cases "e_Job e")
    case None
    then show ?thesis by (simp add: s2_def i1)
  next
    case (Some j)
    have "store_inv (apply_job j s1)"
    proof (rule apply_job_inv [OF i1])
      show "j_ID j \<noteq> []" "job_state_ok (j_State j)"
        using assms(2) Some by (simp_all add: event_fits_def)
      show "fmlookup (s_requests s1) (j_RequestID j) \<noteq> None"
        unfolding req1 using assms(2) Some by (auto simp: event_fits_def)
    qed (rule old [OF Some])
    then show ?thesis by (simp add: s2_def Some)
  qed
  have pay: "apply_payload e ref ?s
      = (case e_Attempt e of None \<Rightarrow> s2 | Some a \<Rightarrow> apply_attempt a ref s2)"
    by (simp add: apply_payload_def Let_def s1_def s2_def apply_job_attempt_commute split: option.split)
  show ?thesis
  proof (cases "e_Attempt e")
    case None
    then show ?thesis by (simp add: pay i2)
  next
    case (Some a)
    have ids: "s_attemptIDs s2 = s_attemptIDs ?s"
      by (simp add: s2_def s1 apply_job_def split: option.split)
    have fresh: "a_ID a |\<notin>| s_attemptIDs s2"
      using assms Some apply_evictions_attemptIDs unfolding ids
      by (auto simp: event_fits_def split: option.splits)
    obtain j where "fmlookup (s_jobs s2) (a_JobID a) = Some j" "j_RequestID j = a_RequestID a"
    proof (cases "e_Job e")
      case None
      then show ?thesis
        using that assms Some by (auto simp: event_fits_def s2_def s1 apply_evictions_jobs)
    next
      case (Some j)
      then show ?thesis
        using that assms \<open>e_Attempt e = Some a\<close> by (auto simp: event_fits_def s2_def apply_job_def)
    qed
    then have "store_inv (apply_attempt a ref s2)"
      using assms(2) Some fresh by (intro apply_attempt_inv [OF i2]) (auto simp: event_fits_def)
    then show ?thesis by (simp add: pay Some)
  qed
qed

lemma retained_seq [simp]: "retained_of (s\<lparr>s_seq := n\<rparr>) = retained_of s"
  by (simp add: retained_of_def)

lemma event_fits_retained:
  assumes "retained_of s = retained_of t"
  shows "event_fits s e = event_fits t e"
proof -
  have "s_requests s = s_requests t" "s_jobs s = s_jobs t" "s_attemptIDs s = s_attemptIDs t"
    using assms by (simp_all add: retained_of_def)
  then show ?thesis by (simp only: event_fits_def)
qed

lemma apply_event_inv [keep_inv]:
  assumes "store_inv s" "event_fits s e"
  shows "store_inv (apply_event cd e ref s)"
proof -
  define s1 where "s1 = (if e_Seq e > s_seq s then s\<lparr>s_seq := e_Seq e\<rparr> else s)"
  have r: "retained_of s1 = retained_of s" by (simp add: s1_def)
  have "store_inv s1" "event_fits s1 e"
    using assms store_inv_retained [OF r] event_fits_retained [OF r] by simp_all
  then have "store_inv (apply_payload e ref (apply_evictions e s1))"
    by (rule apply_payload_inv)
  then show ?thesis
    using store_inv_retained [OF retained_of_appendRing]
    by (simp add: apply_event_def Let_def flip: s1_def)
qed

end
