(* ===== verification/Store_Log.thy ===== *)
theory Store_Log
  imports Store_Inv
begin

text \<open>
  The append log (\<open>internal/store/store.go\<close>): reading one record, replaying the log when the
  store is opened, and reading one record back by its reference.

  A reader is the string of the bytes not yet read, and how the stream ends: at the end of the
  file or with an error of the operating system. \<open>read_slice\<close> is \<open>bufio.Reader.ReadSlice\<close> with
  the 64 KiB buffer the program gives it. \<open>readRecord_line\<close> and its companions show that the
  loop over fragments is the plain splitting of the stream at newlines, with the size limit;
  the offsets the source formats into its error texts are left out.
\<close>

section \<open>Reading one record\<close>

datatype stream_end = AtEOF | ReadError string

datatype slice_status = Delimiter | BufferFull | StreamEnd

definition bufSize :: nat where
  "bufSize = 64 * 2 ^ 10"

definition read_slice :: "string \<Rightarrow> string \<times> slice_status \<times> string" where
  "read_slice xs =
     (let window = take bufSize xs;
          line = takeWhile (\<lambda>c. c \<noteq> newline) window
      in if length line < length window
           then (line @ [newline], Delimiter, drop (Suc (length line)) xs)
         else if length window = bufSize then (window, BufferFull, drop bufSize xs)
         else (window, StreamEnd, []))"

lemma bufSize_pos [simp]: "0 < bufSize"
  by (simp add: bufSize_def)

lemma read_slice_full_shorter: "(f, BufferFull, rest) = read_slice xs \<Longrightarrow> length rest < length xs"
proof -
  assume "(f, BufferFull, rest) = read_slice xs"
  then have r: "rest = drop bufSize xs" and "min (length xs) bufSize = bufSize"
    by (auto simp: read_slice_def Let_def split: if_splits)
  then have "bufSize \<le> length xs" by simp
  then show ?thesis using r by (simp add: diff_less del: bufSize_pos) (use bufSize_pos in linarith)
qed

function readRecord_loop ::
    "stream_end \<Rightarrow> nat \<Rightarrow> bool \<Rightarrow> string \<Rightarrow> string \<Rightarrow> store_error + string \<times> bool \<times> string" where
  "readRecord_loop fin tot oversized rcd xs =
     (case read_slice xs of (fragment, status, rest) \<Rightarrow>
       let tot' = tot + length fragment;
           oversized' = (oversized \<or> tot' > maxEventBytes);
           rcd' = (if tot' > maxEventBytes then []
                      else if \<not> oversized then rcd @ fragment else rcd)
       in (case status of
            Delimiter \<Rightarrow> if oversized' then Inl (ErrText ''event exceeds limit'')
              else Inr ( rcd', True, rest)
          | BufferFull \<Rightarrow> readRecord_loop fin tot' oversized' rcd' rest
          | StreamEnd \<Rightarrow>
              (case fin of AtEOF \<Rightarrow> Inr ( rcd', False, []) | ReadError m \<Rightarrow> Inl (ErrSystem m))))"
  by pat_completeness auto
termination
  by (relation "measure (\<lambda>(_, _, _, _, xs). length xs)") (auto dest: read_slice_full_shorter)

declare readRecord_loop.simps [simp del]

definition readRecord :: "stream_end \<Rightarrow> string \<Rightarrow> store_error + string \<times> bool \<times> string" where
  "readRecord fin xs = readRecord_loop fin 0 False [] xs"

text \<open>A slice is what the reader has taken, and it ends at the first newline or holds none.\<close>

lemma read_slice_cases:
  obtains (line) l rest where "xs = l @ newline # rest" "newline \<notin> set l"
      "read_slice xs = (l @ [newline], Delimiter, rest)"
    | (full) "length (take bufSize xs) = bufSize" "newline \<notin> set (take bufSize xs)"
      "read_slice xs = (take bufSize xs, BufferFull, drop bufSize xs)"
    | (fin) "newline \<notin> set xs" "length xs < bufSize" "read_slice xs = (xs, StreamEnd, [])"
proof -
  define w where "w = take bufSize xs"
  define l where "l = takeWhile (\<lambda>c. c \<noteq> newline) w"
  have nl: "newline \<notin> set l" unfolding l_def by (auto dest: set_takeWhileD)
  show ?thesis
  proof (cases "length l < length w")
    case True
    have "w ! length l = newline"
      using nth_length_takeWhile [of "\<lambda>c. c \<noteq> newline" w] True by (simp add: l_def)
    then have "w = l @ newline # drop (Suc (length l)) w"
      using True by (metis id_take_nth_drop l_def takeWhile_eq_take)
    moreover have "xs = w @ drop bufSize xs" by (simp add: w_def)
    ultimately have "xs = l @ newline # (drop (Suc (length l)) w @ drop bufSize xs)"
      by (metis append.assoc append_Cons)
    then obtain rest where xs: "xs = l @ newline # rest" by blast
    then have "drop (Suc (length l)) xs = rest" by simp
    then show ?thesis
      using line [OF xs nl] True by (simp add: read_slice_def Let_def flip: w_def l_def)
  next
    case nolt: False
    then have lw: "l = w"
      by (metis l_def linorder_neqE_nat length_takeWhile_le not_less takeWhile_eq_take take_all)
    show ?thesis
    proof (cases "length w = bufSize")
      case True
      then show ?thesis
        using full nl lw nolt by (simp add: read_slice_def Let_def flip: w_def l_def)
    next
      case False
      then have "xs = w" "length xs < bufSize" by (auto simp: w_def min_def split: if_splits)
      then show ?thesis
        using fin nl lw False nolt by (simp add: read_slice_def Let_def flip: w_def l_def)
    qed
  qed
qed


lemma append_newline_inj:
  "newline \<notin> set l \<Longrightarrow> newline \<notin> set l' \<Longrightarrow> l @ newline # r = l' @ newline # r' \<Longrightarrow> l = l' \<and> r = r'"
proof (induction l arbitrary: l')
  case Nil
  then show ?case by (cases l') auto
next
  case (Cons a l)
  then show ?case by (cases l') auto
qed

lemma readRecord_loop_line:
  assumes "newline \<notin> set l" "oversized = (tot > maxEventBytes)"
  shows "readRecord_loop fin tot oversized rcd (l @ newline # rest)
    = (if tot + length l + 1 > maxEventBytes then Inl (ErrText ''event exceeds limit'')
       else Inr (rcd @ l @ [newline], True, rest))"
  using assms
proof (induction "length l" arbitrary: l tot oversized rcd rule: less_induct)
  case less
  let ?xs = "l @ newline # rest"
  show ?case
  proof (cases ?xs rule: read_slice_cases)
    case (line l' rest')
    then have "l' = l" "rest' = rest"
      using append_newline_inj [of l l' rest rest'] less.prems(1) by auto
    then show ?thesis
      using line(3) less.prems(2) by (auto simp: readRecord_loop.simps [of _ _ _ _ ?xs] Let_def)
  next
    case full
    have len: "bufSize \<le> length l"
    proof (rule ccontr)
      assume "\<not> bufSize \<le> length l"
      then have "newline \<in> set (take bufSize ?xs)"
        by (simp add: take_Cons' not_le)
      with full(2) show False by simp
    qed
    define l2 where "l2 = drop bufSize l"
    have l: "l = take bufSize l @ l2" by (simp add: l2_def)
    have xs: "take bufSize ?xs = take bufSize l" "drop bufSize ?xs = l2 @ newline # rest"
      using len by (simp_all add: l2_def)
    note slice = full(3) [unfolded xs]
    have nl: "newline \<notin> set l2"
      using less.prems(1) unfolding l2_def by (meson in_set_dropD)
    have shorter: "length l2 < length l"
      using len bufSize_pos unfolding l2_def by (simp del: bufSize_pos)
    have lb: "length (take bufSize l) = bufSize" "length l = bufSize + length l2"
      using len by (simp_all add: l2_def)
    show ?thesis
    proof (cases "tot + bufSize > maxEventBytes")
      case True
      then show ?thesis
        using less.hyps [OF shorter nl, of True "tot + bufSize" "[]"] slice lb less.prems(2)
        by (simp add: readRecord_loop.simps [of _ _ _ _ ?xs] Let_def)
    next
      case False
      then have "\<not> oversized" using less.prems(2) by simp
      moreover have "rcd @ take bufSize l @ l2 @ [newline] = rcd @ l @ [newline]"
        using l by (metis append.assoc)
      ultimately show ?thesis
        using less.hyps [OF shorter nl, of False "tot + bufSize" "rcd @ take bufSize l"]
          slice lb False
        by (simp add: readRecord_loop.simps [of _ _ _ _ ?xs] Let_def)
    qed
  next
    case fin
    then show ?thesis by simp
  qed
qed

lemma readRecord_loop_partial:
  assumes "newline \<notin> set xs"
  shows "\<exists>r. readRecord_loop fin tot oversized rcd xs
    = (case fin of AtEOF \<Rightarrow> Inr (r, False, []) | ReadError m \<Rightarrow> Inl (ErrSystem m))"
  using assms
proof (induction "length xs" arbitrary: xs tot oversized rcd rule: less_induct)
  case less
  show ?case
  proof (cases xs rule: read_slice_cases)
    case (line l rest)
    with less.prems show ?thesis by auto
  next
    case full
    have "bufSize \<le> length xs" using full(1) by simp
    then have "length (drop bufSize xs) < length xs"
      by (simp del: bufSize_pos) (use bufSize_pos in linarith)
    moreover have "newline \<notin> set (drop bufSize xs)"
      using less.prems by (meson in_set_dropD)
    ultimately show ?thesis
      using less.hyps full(3) by (simp add: readRecord_loop.simps [of _ _ _ _ xs] Let_def)
  next
    case fin
    then show ?thesis
      by (simp add: readRecord_loop.simps [of _ _ _ _ xs] Let_def split: stream_end.split)
  qed
qed

text \<open>The loop over fragments splits the stream at the first newline.\<close>

lemma readRecord_line:
  "newline \<notin> set l \<Longrightarrow> readRecord fin (l @ newline # rest)
    = (if length l + 1 > maxEventBytes then Inl (ErrText ''event exceeds limit'')
       else Inr (l @ [newline], True, rest))"
  using readRecord_loop_line [of l False 0 fin "[]" rest] by (simp add: readRecord_def)

lemma readRecord_torn:
  "newline \<notin> set xs \<Longrightarrow> \<exists>r. readRecord AtEOF xs = Inr (r, False, [])"
  using readRecord_loop_partial [of xs AtEOF] by (simp add: readRecord_def)

lemma readRecord_error:
  "newline \<notin> set xs \<Longrightarrow> readRecord (ReadError m) xs = Inl (ErrSystem m)"
  using readRecord_loop_partial [of xs "ReadError m"] by (simp add: readRecord_def)

lemma first_newline:
  obtains (line) l rest where "xs = l @ newline # rest" "newline \<notin> set l"
    | (none) "newline \<notin> set xs"
  using split_list_first [of newline xs] by blast

lemma readRecord_shorter:
  assumes "readRecord fin xs = Inr (r, True, rest)"
  shows "length rest < length xs" "length r + length rest = length xs" "r \<noteq> []"
proof -
  have "xs = r @ rest \<and> r \<noteq> []"
  proof (cases xs rule: first_newline)
    case (line l rest')
    then show ?thesis using assms by (auto simp: readRecord_line split: if_splits)
  next
    case none
    obtain r' where "readRecord fin xs
        = (case fin of AtEOF \<Rightarrow> Inr (r', False, []) | ReadError m \<Rightarrow> Inl (ErrSystem m))"
      using readRecord_loop_partial [OF none] unfolding readRecord_def by blast
    then show ?thesis using assms by (auto split: stream_end.splits)
  qed
  then show "length rest < length xs" "length r + length rest = length xs" "r \<noteq> []"
    by auto
qed

section \<open>Replaying the log\<close>

text \<open>
  The loop of \<open>recover\<close>: \<open>good\<close> counts the bytes of the records replayed, \<open>seen\<close> says whether a
  record that is not part of a snapshot has been replayed.
\<close>

definition recover_record :: "codec \<Rightarrow> string \<Rightarrow> nat \<Rightarrow> bool \<Rightarrow> store \<Rightarrow> store_error + bool \<times> store" where
  "recover_record cd line good seen s =
     (case Unmarshal cd line of
       None \<Rightarrow> Inl (ErrText ''corrupt store'')
     | Some e \<Rightarrow>
         if e_Seq e = 0 \<or> s_seq s \<noteq> 0 \<and> e_Seq e \<noteq> s_seq s + 1
           then Inl (ErrText ''non-contiguous store sequence'')
         else (case validateRecoveredEvent e of
           Some x \<Rightarrow> Inl (ErrWrap ''invalid store event'' x)
         | None \<Rightarrow>
             (case validateStateLocked s e of
               Some x \<Rightarrow> Inl (ErrWrap ''invalid store state'' x)
             | None \<Rightarrow>
                 if e_Snapshot e \<and> seen
                   then Inl (ErrText ''invalid store snapshot: snapshot record follows a mutation'')
                 else
                   (let s1 = (if e_Snapshot e then s else s\<lparr>s_eventCount := s_eventCount s + 1\<rparr>);
                        ref = \<lparr>ref_offset = good, ref_length = length line, ref_seq = e_Seq e\<rparr>
                    in Inr (seen \<or> \<not> e_Snapshot e, apply_event cd e ref s1)))))"

function recover_loop ::
    "codec \<Rightarrow> stream_end \<Rightarrow> string \<Rightarrow> nat \<Rightarrow> bool \<Rightarrow> store \<Rightarrow> store_error + nat \<times> store" where
  "recover_loop cd fin xs good seen s =
     (case readRecord fin xs of
       Inl x \<Rightarrow> Inl (ErrWrap ''read store'' x)
     | Inr (line, complete, rest) \<Rightarrow>
         if \<not> complete then Inr (good, s)
         else (case recover_record cd line good seen s of
             Inl x \<Rightarrow> Inl x
           | Inr (seen', s') \<Rightarrow> recover_loop cd fin rest (good + length line) seen' s'))"
  by pat_completeness auto
termination
  by (relation "measure (\<lambda>(_, _, xs, _, _, _). length xs)") (auto dest: readRecord_shorter(1))

declare recover_loop.simps [simp del]

definition sys_error :: "env \<Rightarrow> syscall \<Rightarrow> store_error option" where
  "sys_error w c = map_option ErrSystem (w_fails w c)"

lemma sys_error_calm [simp]: "sys_error (calm t) c = None"
  by (simp add: sys_error_def)

definition recover :: "codec \<Rightarrow> env \<Rightarrow> store \<Rightarrow> store_error + store" where
  "recover cd w s =
     (case sys_error w SeekStart of Some x \<Rightarrow> Inl x | None \<Rightarrow>
       (case recover_loop cd (case w_fails w ReadFile of None \<Rightarrow> AtEOF | Some m \<Rightarrow> ReadError m)
           (s_file s) 0 False s of
         Inl x \<Rightarrow> Inl x
       | Inr (good, s1) \<Rightarrow>
           (case sys_error w StatFile of Some x \<Rightarrow> Inl x | None \<Rightarrow>
             if length (s_file s1) \<noteq> good then
               (case sys_error w TruncateFile of
                 Some x \<Rightarrow> Inl x
               | None \<Rightarrow> Inr (s1\<lparr>s_file := take good (s_file s1)\<rparr>))
             else Inr s1)))"

text \<open>
  \<open>OpenWithOptions\<close> on a path whose file has the given contents (none, if the call creates it).
  The directory, the mode and the permissions of the file are system calls that may fail.
\<close>

definition OpenWithOptions :: "codec \<Rightarrow> env \<Rightarrow> options \<Rightarrow> string \<Rightarrow> store_error + store" where
  "OpenWithOptions cd w oo contents =
     (case sys_error w MkdirAll of Some x \<Rightarrow> Inl x | None \<Rightarrow>
       (case sys_error w OpenFile of Some x \<Rightarrow> Inl x | None \<Rightarrow>
         (case sys_error w StatFile of Some x \<Rightarrow> Inl x | None \<Rightarrow>
           if w_fails w NotRegular \<noteq> None then Inl (ErrText ''store is not a regular file'')
           else (case sys_error w ChmodFile of Some x \<Rightarrow> Inl x | None \<Rightarrow>
             (case recover cd w (new_store oo contents) of
               Inl x \<Rightarrow> Inl x
             | Inr s \<Rightarrow>
                 (case sys_error w SeekEnd of Some x \<Rightarrow> Inl x | None \<Rightarrow> Inr s))))))"

section \<open>Reading a record back\<close>

definition readEventAt :: "codec \<Rightarrow> env \<Rightarrow> store \<Rightarrow> record_ref \<Rightarrow> store_error + event" where
  "readEventAt cd w s ref =
     (if ref_length ref = 0 \<or> ref_length ref > maxEventBytes
        then Inl (ErrText ''invalid store record reference'')
      else if \<not> s_handle s then Inl ErrClosed
      else (case sys_error w ReadFile of Some x \<Rightarrow> Inl x | None \<Rightarrow>
        (let data = take (ref_length ref) (drop (ref_offset ref) (s_file s))
         in if length data \<noteq> ref_length ref then Inl ErrEOF
            else (case Unmarshal cd data of
                None \<Rightarrow> Inl (ErrText ''unmarshal'')
              | Some e \<Rightarrow>
                  if e_Seq e \<noteq> ref_seq ref then Inl (ErrText ''store record sequence changed'')
                  else Inr e))))"

text \<open>
  What a reference reads depends on the file, the descriptor and the environment only, and a
  reference that reads a record still reads it after the file has grown.
\<close>

lemma readEventAt_cong:
  assumes "s_file s = s_file t" "s_handle s = s_handle t"
  shows "readEventAt cd w s ref = readEventAt cd w t ref"
  unfolding readEventAt_def assms by (rule refl)

lemma readEventAt_grow:
  assumes "readEventAt cd w s ref = Inr e" "s_file t = s_file s @ suf" "s_handle t = s_handle s"
  shows "readEventAt cd w t ref = Inr e"
proof -
  have "length (take (ref_length ref) (drop (ref_offset ref) (s_file s))) = ref_length ref"
    and pos: "ref_length ref \<noteq> 0"
    using assms(1) by (auto simp: readEventAt_def Let_def split: if_splits option.splits)
  then have "ref_offset ref + ref_length ref \<le> length (s_file s)" by simp
  then have "take (ref_length ref) (drop (ref_offset ref) (s_file s @ suf))
      = take (ref_length ref) (drop (ref_offset ref) (s_file s))" using pos by simp
  then show ?thesis using assms(1) unfolding readEventAt_def assms(2,3) by (simp only:)
qed

lemma readEventAt_written:
  assumes "codec_ok cd" "Marshal cd e = Some b" "event_ok e" "length b < maxEventBytes"
    "s_file s = pre @ b @ [newline] @ post" "s_handle s" "w_fails w ReadFile = None"
    "ref = \<lparr>ref_offset = length pre, ref_length = length b + 1, ref_seq = e_Seq e\<rparr>"
  shows "readEventAt cd w s ref = Inr e"
  using codec_okD [OF assms(1,2)] assms by (simp add: readEventAt_def sys_error_def)

end
