(* ===== verification/Store_Append.thy ===== *)
theory Store_Append
  imports Store_Log
begin

text \<open>
  Compaction of the log and the append of one event (\<open>compactLocked\<close>, \<open>snapshotRecordsLocked\<close>,
  \<open>hydrateSnapshotEventLocked\<close> and \<open>appendLocked\<close> of \<open>internal/store/store.go\<close>). Every system
  call may fail, as the environment says; an operation returns the store it leaves behind
  together with its error or its result, so a failure half way is a state of the model.
\<close>

section \<open>The records of a snapshot\<close>

definition snapshot_time :: "time \<Rightarrow> time" where
  "snapshot_time t = (if IsZero t then unix_0_1 else t)"

definition snapshot_request :: "store \<Rightarrow> string \<Rightarrow> event" where
  "snapshot_request s i =
     (let r = map_get zero_request (s_requests s) i
      in (event_of_kind ''request.received'')
           \<lparr>e_At := snapshot_time (r_ReceivedAt r), e_Request := Some r\<rparr>)"

definition snapshot_job :: "store \<Rightarrow> string \<Rightarrow> event" where
  "snapshot_job s i =
     (let j = map_get zero_job (s_jobs s) i;
          t = (if IsZero (j_UpdatedAt j) then j_CreatedAt j else j_UpdatedAt j)
      in (event_of_kind (forward_kind (j_State j)))\<lparr>e_At := snapshot_time t, e_Job := Some j\<rparr>)"

definition snapshot_attempt :: "attempt \<Rightarrow> event" where
  "snapshot_attempt a =
     (event_of_kind ''attempt.finished'')
       \<lparr>e_At := snapshot_time (a_FinishedAt a), e_Attempt := Some a\<rparr>"

definition snapshot_of_request :: "env \<Rightarrow> store \<Rightarrow> string \<Rightarrow> event list" where
  "snapshot_of_request w s i =
     snapshot_request s i
       # map (snapshot_job s) (sort (range_fset (w_order w) (jobs_of s i)))
       @ map snapshot_attempt (attempts_of s i)"

definition by_ReceivedAt :: "store \<Rightarrow> string \<Rightarrow> string \<Rightarrow> bool" where
  "by_ReceivedAt s a b \<longleftrightarrow>
     r_ReceivedAt (map_get zero_request (s_requests s) a)
       < r_ReceivedAt (map_get zero_request (s_requests s) b)"

definition snapshotRecordsLocked :: "env \<Rightarrow> store \<Rightarrow> event list" where
  "snapshotRecordsLocked w s =
     concat (map (snapshot_of_request w s)
       (sort_slice (by_ReceivedAt s) (range_keys (w_order w) (s_requests s))))"

interpretation received: slice_less "by_ReceivedAt s" for s
  unfolding by_ReceivedAt_def by (rule slice_less_key)

text \<open>The bodies, which the store keeps on disk only, are read back into a snapshot record.\<close>

definition hydrate_request :: "codec \<Rightarrow> env \<Rightarrow> store \<Rightarrow> request \<Rightarrow> store_error + request" where
  "hydrate_request cd w s r =
     (case readEventAt cd w s (map_get zero_ref (s_requestRecord s) (r_ID r)) of
       Inl x \<Rightarrow> Inl (ErrWrap ''read request for compaction'' x)
     | Inr stored \<Rightarrow>
         (case e_Request stored of
           None \<Rightarrow> Inl (ErrText ''store record identity changed'')
         | Some r0 \<Rightarrow>
             if r_ID r0 \<noteq> r_ID r then Inl (ErrText ''store record identity changed'')
             else (let r' = r\<lparr>r_Body := r_Body r0\<rparr>
                   in case validateRequestDigest r' of
                        Some x \<Rightarrow> Inl (ErrWrap ''read request for compaction'' x)
                      | None \<Rightarrow> Inr r')))"

definition hydrate_attempt :: "codec \<Rightarrow> env \<Rightarrow> store \<Rightarrow> attempt \<Rightarrow> store_error + attempt" where
  "hydrate_attempt cd w s a =
     (case readEventAt cd w s (map_get zero_ref (s_attemptRecord s) (a_ID a)) of
       Inl x \<Rightarrow> Inl (ErrWrap ''read attempt for compaction'' x)
     | Inr stored \<Rightarrow>
         (case e_Attempt stored of
           None \<Rightarrow> Inl (ErrText ''store record identity changed'')
         | Some a0 \<Rightarrow>
             if a_ID a0 \<noteq> a_ID a then Inl (ErrText ''store record identity changed'')
             else Inr (a\<lparr>a_ResponseBody := a_ResponseBody a0\<rparr>)))"

definition hydrateSnapshotEventLocked :: "codec \<Rightarrow> env \<Rightarrow> store \<Rightarrow> event \<Rightarrow> store_error + event" where
  "hydrateSnapshotEventLocked cd w s e =
     (case (case e_Request e of None \<Rightarrow> Inr e
            | Some r \<Rightarrow> (case hydrate_request cd w s r of
                Inl x \<Rightarrow> Inl x | Inr r' \<Rightarrow> Inr (e\<lparr>e_Request := Some r'\<rparr>))) of
       Inl x \<Rightarrow> Inl x
     | Inr e1 \<Rightarrow>
         (case e_Attempt e1 of None \<Rightarrow> Inr e1
          | Some a \<Rightarrow> (case hydrate_attempt cd w s a of
              Inl x \<Rightarrow> Inl x | Inr a' \<Rightarrow> Inr (e1\<lparr>e_Attempt := Some a'\<rparr>))))"

section \<open>Compaction\<close>

text \<open>
  The loop that writes the snapshot: the bytes written so far and the references to the new
  records. \<open>i\<close> is the index of the record, \<open>start\<close> the sequence number of the first.
\<close>

record snapshot_file =
  p_bytes :: string
  p_requestRecord :: "(string, record_ref) fmap"
  p_attemptRecord :: "(string, record_ref) fmap"

fun write_snapshot ::
    "codec \<Rightarrow> env \<Rightarrow> store \<Rightarrow> 64 word \<Rightarrow> nat \<Rightarrow> snapshot_file \<Rightarrow> event list \<Rightarrow> store_error + snapshot_file" where
  "write_snapshot cd w s start i p [] = Inr p"
| "write_snapshot cd w s start i p (e # es) =
     (case hydrateSnapshotEventLocked cd w s e of
       Inl x \<Rightarrow> Inl x
     | Inr h \<Rightarrow>
         (let h' = h\<lparr>e_Seq := start + of_nat i, e_Snapshot := True\<rparr>
          in case Marshal cd h' of
               None \<Rightarrow> Inl (ErrText ''marshal'')
             | Some b \<Rightarrow>
                 (case sys_error w (WriteTemp i) of
                   Some x \<Rightarrow> Inl x
                 | None \<Rightarrow>
                     (let encoded = b @ [newline];
                          ref = \<lparr>ref_offset = length (p_bytes p), ref_length = length encoded,
                                 ref_seq = e_Seq h'\<rparr>;
                          p' = \<lparr>p_bytes = p_bytes p @ encoded,
                            p_requestRecord = (case e_Request h' of None \<Rightarrow> p_requestRecord p
                              | Some r \<Rightarrow> fmupd (r_ID r) ref (p_requestRecord p)),
                            p_attemptRecord = (case e_Attempt h' of None \<Rightarrow> p_attemptRecord p
                              | Some a \<Rightarrow> fmupd (a_ID a) ref (p_attemptRecord p))\<rparr>
                      in write_snapshot cd w s start (Suc i) p' es))))"

definition snapshot_start :: "store \<Rightarrow> event list \<Rightarrow> 64 word" where
  "snapshot_start s records = (if records \<noteq> [] then s_seq s + 1 else s_seq s)"

definition first_error :: "env \<Rightarrow> syscall list \<Rightarrow> store_error option" where
  "first_error w cs = (case filter (\<lambda>c. w_fails w c \<noteq> None) cs of [] \<Rightarrow> None | c # _ \<Rightarrow> sys_error w c)"

text \<open>Replacing the log by the temporary file, once that is written, synced and closed.\<close>

definition install_snapshot :: "env \<Rightarrow> event list \<Rightarrow> snapshot_file \<Rightarrow> store \<Rightarrow> store \<times> store_error option" where
  "install_snapshot w records p s =
     (let oldClosed = w_windows w
      in if oldClosed \<and> w_fails w CloseOld \<noteq> None then (s, sys_error w CloseOld)
         else if w_fails w RenameTemp \<noteq> None then
           (if oldClosed \<and> first_error w [ReopenFile, SeekReopened] \<noteq> None
              then (s\<lparr>s_handle := False\<rparr>, first_error w [RenameTemp])
            else (s, sys_error w RenameTemp))
         else
           (let moved = s\<lparr>s_replaced := Some (p_bytes p), s_handle := s_handle s \<and> \<not> oldClosed\<rparr>
            in case first_error w ((if w_windows w then [] else [SyncDir]) @ [OpenNew, SeekNew]) of
                 Some x \<Rightarrow> (moved, Some x)
               | None \<Rightarrow>
                   (let done = moved\<lparr>
                        s_file := p_bytes p, s_replaced := None, s_handle := True,
                        s_seq := (if records \<noteq> []
                          then snapshot_start s records + of_nat (length records) - 1 else s_seq s),
                        s_eventCount := 0,
                        s_requestRecord := p_requestRecord p,
                        s_attemptRecord := p_attemptRecord p\<rparr>
                    in (done, if oldClosed then None else sys_error w CloseOld))))"

definition compactLocked :: "codec \<Rightarrow> env \<Rightarrow> store \<Rightarrow> store \<times> store_error option" where
  "compactLocked cd w s =
     (let records = snapshotRecordsLocked w s
      in if of_nat (length records) > (- 1 :: 64 word) - s_seq s
           then (s, Some (ErrText ''store sequence exhausted during compaction''))
         else (case first_error w [CreateTemp, ChmodTemp] of Some x \<Rightarrow> (s, Some x) | None \<Rightarrow>
           (case write_snapshot cd w s (snapshot_start s records) 0
                \<lparr>p_bytes = [], p_requestRecord = fmempty, p_attemptRecord = fmempty\<rparr> records of
             Inl x \<Rightarrow> (s, Some x)
           | Inr p \<Rightarrow>
               (case first_error w [FlushTemp, SyncTemp, CloseTemp] of
                 Some x \<Rightarrow> (s, Some x)
               | None \<Rightarrow> install_snapshot w records p s))))"

section \<open>Appending an event\<close>

text \<open>Delivery to the live subscribers; one whose buffer is full is closed and forgotten.\<close>

definition has_room :: "store \<Rightarrow> nat \<Rightarrow> bool" where
  "has_room s c = (case fmlookup (s_chans s) c of None \<Rightarrow> False
     | Some ch \<Rightarrow> int (length (ch_buffer ch)) < SubscriberBacklog (s_opts s))"

definition publish :: "event \<Rightarrow> store \<Rightarrow> store" where
  "publish e s = s\<lparr>
     s_chans := fmmap_keys (\<lambda>c ch.
         if c |\<notin>| s_subs s then ch
         else if has_room s c then ch\<lparr>ch_buffer := ch_buffer ch @ [e]\<rparr>
         else ch\<lparr>ch_closed := True\<rparr>) (s_chans s),
     s_subs := ffilter (has_room s) (s_subs s)\<rparr>"

text \<open>
  The event as it is written: the next sequence number, no snapshot mark, and the time of the
  call if it has none.
\<close>

definition stamped :: "env \<Rightarrow> store \<Rightarrow> event \<Rightarrow> event" where
  "stamped w s e = e\<lparr>e_Seq := s_seq s + 1, e_Snapshot := False,
     e_At := (if IsZero (e_At e) then w_clock w else e_At e)\<rparr>"

text \<open>
  The write of one record: the bytes that reached the file stay there, whatever the outcome.
\<close>

definition append_bytes :: "string \<Rightarrow> store \<Rightarrow> store" where
  "append_bytes b s = s\<lparr>s_file := s_file s @ b\<rparr>"

definition poisoned :: "store_error \<Rightarrow> store \<Rightarrow> store" where
  "poisoned x s = s\<lparr>s_health := Some x\<rparr>"

text \<open>What follows a synced write: the maps, the counter, a compaction when it is due, delivery.\<close>

definition commit_event ::
    "codec \<Rightarrow> env \<Rightarrow> event \<Rightarrow> record_ref \<Rightarrow> store \<Rightarrow> store \<times> (store_error + event)" where
  "commit_event cd w e ref s =
     (let s1 = apply_event cd e ref s;
          s2 = s1\<lparr>s_eventCount := s_eventCount s1 + 1\<rparr>
      in if s_eventCount s2 > MaxEvents (s_opts s2) then
           (case compactLocked cd w s2 of
             (s3, Some x) \<Rightarrow> (poisoned x s3, Inl x)
           | (s3, None) \<Rightarrow> (publish e s3, Inr e))
         else (publish e s2, Inr e))"

definition write_event ::
    "codec \<Rightarrow> env \<Rightarrow> event \<Rightarrow> string \<Rightarrow> store \<Rightarrow> store \<times> (store_error + event)" where
  "write_event cd w e b s =
     (let offset = length (s_file s);
          (n, err) = w_write w (length b);
          s1 = append_bytes (take n b) s
      in case err of
           Some m \<Rightarrow> (poisoned (ErrSystem m) s1, Inl (ErrSystem m))
         | None \<Rightarrow>
             if n \<noteq> length b then (poisoned ErrShortWrite s1, Inl ErrShortWrite)
             else (case first_error w [BeforeSync, SyncFile] of
               Some x \<Rightarrow> (poisoned x s1, Inl x)
             | None \<Rightarrow> commit_event cd w e
                 \<lparr>ref_offset = offset, ref_length = length b, ref_seq = e_Seq e\<rparr> s1))"

definition appendLocked :: "codec \<Rightarrow> env \<Rightarrow> event \<Rightarrow> store \<Rightarrow> store \<times> (store_error + event)" where
  "appendLocked cd w e0 s0 =
     (if s_closed s0 then (s0, Inl ErrClosed)
      else (case s_health s0 of
        Some h \<Rightarrow> (s0, Inl (ErrWrap ''store poisoned'' h))
      | None \<Rightarrow>
          (let e = stamped w s0 e0;
               s = s0\<lparr>s_seq := s_seq s0 + 1\<rparr>;
               back = s\<lparr>s_seq := s_seq s - 1\<rparr>
           in case validateRecoveredEvent e of Some x \<Rightarrow> (back, Inl x) | None \<Rightarrow>
             (case validateStateLocked s e of Some x \<Rightarrow> (back, Inl x) | None \<Rightarrow>
               (case sys_error w BeforeWrite of Some x \<Rightarrow> (poisoned x back, Inl x) | None \<Rightarrow>
                 (case Marshal cd e of None \<Rightarrow> (back, Inl (ErrText ''marshal'')) | Some b \<Rightarrow>
                   if length (b @ [newline]) > maxEventBytes
                     then (back, Inl (ErrText ''event exceeds limit''))
                   else if \<not> s_handle s then (back, Inl ErrClosed)
                   else (case sys_error w SeekCurrent of
                       Some x \<Rightarrow> (back, Inl x)
                     | None \<Rightarrow> write_event cd w e (b @ [newline]) s)))))))"

definition Append :: "codec \<Rightarrow> env \<Rightarrow> event \<Rightarrow> store \<Rightarrow> store \<times> (store_error + event)" where
  "Append cd w e s = appendLocked cd w e s"

end
