(* ===== verification/Store_Ops.thy ===== *)
theory Store_Ops
  imports Store_Append
begin

text \<open>
  The operations of the store that the application calls (\<open>internal/store/store.go\<close>): accepting a
  capture, scheduling, claiming and finishing forwarding jobs, loading, redacting and listing
  captures, counting jobs and subscribing to events. Each definition follows its source from
  guard to guard; an operation that changes the state returns the store it leaves behind.
\<close>

section \<open>Accepting a capture\<close>

definition duplicateLocked :: "store \<Rightarrow> request \<Rightarrow> (string \<times> capture_result) option" where
  "duplicateLocked s r =
     (if r_DeliveryID r \<noteq> [] then
        (case fmlookup (s_delivery s) (r_DeliveryID r) of
          None \<Rightarrow> None
        | Some i \<Rightarrow>
            if r_BodySHA256 (map_get zero_request (s_requests s) i) \<noteq> r_BodySHA256 r
              then Some (i, Conflict) else Some (i, Duplicate))
      else (case fmlookup (s_body s) (r_BodySHA256 r) of
          None \<Rightarrow> None | Some i \<Rightarrow> Some (i, Duplicate)))"

definition prefer_job :: "job option \<Rightarrow> job \<Rightarrow> job option" where
  "prefer_job selected j =
     (case selected of
       None \<Rightarrow> Some j
     | Some d \<Rightarrow>
         if terminalState (j_State d) \<and> \<not> terminalState (j_State j)
            \<or> terminalState (j_State d) = terminalState (j_State j) \<and> j_CreatedAt j < j_CreatedAt d
           then Some j else Some d)"

definition discoverableJobLocked :: "env \<Rightarrow> store \<Rightarrow> string \<Rightarrow> job option" where
  "discoverableJobLocked w s rid =
     fold (\<lambda>i d. prefer_job d (map_get zero_job (s_jobs s) i)) (range_fset (w_order w) (jobs_of s rid)) None"

definition requestTerminalLocked :: "store \<Rightarrow> string \<Rightarrow> bool" where
  "requestTerminalLocked s rid =
     list_all (\<lambda>i. terminalState (j_State (map_get zero_job (s_jobs s) i)))
       (sorted_list_of_fset (jobs_of s rid))"

definition captureEvictionsLocked :: "env \<Rightarrow> store \<Rightarrow> int \<Rightarrow> store_error + string list" where
  "captureEvictionsLocked w s required =
     (let over = requests_len s + required - MaxCaptures (s_opts s)
      in if over \<le> 0 then Inr []
         else (let candidates = sort_slice (\<lambda>a b. r_ReceivedAt a < r_ReceivedAt b)
                 (map (map_get zero_request (s_requests s))
                   (filter (\<lambda>i. requestTerminalLocked s (r_ID (map_get zero_request (s_requests s) i)))
                     (range_keys (w_order w) (s_requests s))))
               in if int (length candidates) < over then Inl ErrCapacity
                  else Inr (map r_ID (take (nat over) candidates))))"

type_synonym accept_result = "string \<times> capture_result \<times> job option \<times> store_error option"

definition capture_event :: "request \<Rightarrow> job option \<Rightarrow> string list \<Rightarrow> event" where
  "capture_event r jo evictions = (event_of_kind ''capture.accepted'')
     \<lparr>e_Request := Some r, e_Job := jo, e_EvictedRequestIDs := evictions\<rparr>"

definition job_event :: "string \<Rightarrow> job \<Rightarrow> event" where
  "job_event st j = (event_of_kind (forward_kind st))\<lparr>e_Job := Some j\<rparr>"

text \<open>The branch of a duplicate, which repairs a capture that has no forwarding job.\<close>

definition accept_duplicate ::
    "codec \<Rightarrow> env \<Rightarrow> string \<Rightarrow> capture_result \<Rightarrow> job option \<Rightarrow> store \<Rightarrow> store \<times> accept_result" where
  "accept_duplicate cd w i result jo s =
     (let persisted = discoverableJobLocked w s i
      in case jo of
           Some j \<Rightarrow>
             if result = Duplicate \<and> persisted = None then
               (if fmlookup (s_jobs s) (j_ID j) \<noteq> None
                  then (s, i, result, None, Some (ErrWrap ''job'' ErrIDCollision))
                else (let repaired = j\<lparr>j_RequestID := i\<rparr>
                      in case appendLocked cd w (job_event ''pending'' repaired) s of
                           (s', Inl x) \<Rightarrow> (s', i, result, None, Some x)
                         | (s', Inr e) \<Rightarrow> (s', i, result, Some repaired, None)))
             else (s, i, result, persisted, None)
         | None \<Rightarrow> (s, i, result, persisted, None))"

definition accept_new ::
    "codec \<Rightarrow> env \<Rightarrow> request \<Rightarrow> job option \<Rightarrow> store \<Rightarrow> store \<times> accept_result" where
  "accept_new cd w r jo s =
     (if fmlookup (s_requests s) (r_ID r) \<noteq> None
        then (s, [], Captured, None, Some (ErrWrap ''request'' ErrIDCollision))
      else if (case jo of None \<Rightarrow> False | Some j \<Rightarrow> fmlookup (s_jobs s) (j_ID j) \<noteq> None)
        then (s, [], Captured, None, Some (ErrWrap ''job'' ErrIDCollision))
      else (case captureEvictionsLocked w s 1 of
          Inl x \<Rightarrow> (s, [], Captured, None, Some x)
        | Inr evictions \<Rightarrow>
            (case appendLocked cd w (capture_event r jo evictions) s of
              (s', Inl x) \<Rightarrow> (s', [], Captured, None, Some x)
            | (s', Inr e) \<Rightarrow> (s', r_ID r, Captured, jo, None))))"

definition Accept ::
    "codec \<Rightarrow> env \<Rightarrow> request \<Rightarrow> job option \<Rightarrow> store \<Rightarrow> store \<times> accept_result" where
  "Accept cd w r jo s =
     (if (case jo of None \<Rightarrow> False
          | Some j \<Rightarrow> j_ID j = [] \<or> j_RequestID j \<noteq> r_ID r \<or> j_State j \<noteq> ''pending'')
        then (s, [], Captured, None, Some (ErrText ''invalid capture forwarding intent''))
      else (case duplicateLocked s r of
          Some (i, result) \<Rightarrow> accept_duplicate cd w i result jo s
        | None \<Rightarrow> accept_new cd w r jo s))"

definition Capture ::
    "codec \<Rightarrow> env \<Rightarrow> request \<Rightarrow> store \<Rightarrow> store \<times> string \<times> capture_result \<times> store_error option" where
  "Capture cd w r s =
     (case Accept cd w r None s of (s', i, result, _, err) \<Rightarrow> (s', i, result, err))"

section \<open>Scheduling a replay\<close>

text \<open>An operation that returns only an error.\<close>

type_synonym outcome = "store \<times> store_error option"

definition error_only :: "store \<times> (store_error + event) \<Rightarrow> outcome" where
  "error_only p = (case p of (s, Inl x) \<Rightarrow> (s, Some x) | (s, Inr e) \<Rightarrow> (s, None))"

definition by_CreatedAt :: "job \<Rightarrow> job \<Rightarrow> bool" where
  "by_CreatedAt a b \<longleftrightarrow> j_CreatedAt a < j_CreatedAt b"

interpretation created: slice_less by_CreatedAt
  unfolding by_CreatedAt_def by (rule slice_less_key)

text \<open>The job a full request gives up: the oldest of its terminal jobs.\<close>

definition enqueue_eviction :: "env \<Rightarrow> store \<Rightarrow> string \<Rightarrow> store_error + string list" where
  "enqueue_eviction w s rid =
     (if int (fcard (jobs_of s rid)) \<ge> MaxJobsPerRequest (s_opts s) then
        (let candidates = filter (\<lambda>j. terminalState (j_State j))
               (map (map_get zero_job (s_jobs s)) (range_fset (w_order w) (jobs_of s rid)))
         in case sort_slice by_CreatedAt candidates of
              [] \<Rightarrow> Inl ErrCapacity
            | c # _ \<Rightarrow> Inr [j_ID c])
      else Inr [])"

definition Enqueue :: "codec \<Rightarrow> env \<Rightarrow> job \<Rightarrow> store \<Rightarrow> outcome" where
  "Enqueue cd w j s =
     (if fmlookup (s_requests s) (j_RequestID j) = None then (s, Some (ErrText ''request missing''))
      else if j_State j \<noteq> ''pending'' then (s, Some (ErrText ''new job must be pending''))
      else if fmlookup (s_jobs s) (j_ID j) \<noteq> None then (s, Some (ErrWrap ''job'' ErrIDCollision))
      else (case enqueue_eviction w s (j_RequestID j) of
          Inl x \<Rightarrow> (s, Some x)
        | Inr evicted \<Rightarrow>
            error_only (appendLocked cd w ((job_event ''pending'' j)\<lparr>e_EvictedJobIDs := evicted\<rparr>) s)))"

section \<open>Claiming and finishing jobs\<close>

definition eligible :: "time \<Rightarrow> job \<Rightarrow> bool" where
  "eligible now j \<longleftrightarrow>
     j_State j = ''pending'' \<or> j_State j = ''queued''
     \<or> j_State j = ''retrying'' \<and> \<not> j_AvailableAt j > now
     \<or> (j_State j = ''leased'' \<or> j_State j = ''running'')
       \<and> (IsZero (j_LeaseExpiresAt j) \<or> \<not> j_LeaseExpiresAt j > now)"

definition claim_order :: "job \<Rightarrow> job \<Rightarrow> bool" where
  "claim_order a b \<longleftrightarrow>
     (if j_AvailableAt a = j_AvailableAt b then j_CreatedAt a < j_CreatedAt b
      else j_AvailableAt a < j_AvailableAt b)"

interpretation claims: slice_less claim_order
  by unfold_locales (auto simp: claim_order_def split: if_splits)

definition all_jobs :: "env \<Rightarrow> store \<Rightarrow> job list" where
  "all_jobs w s = map (map_get zero_job (s_jobs s)) (range_keys (w_order w) (s_jobs s))"

definition lease_job :: "string \<Rightarrow> time \<Rightarrow> time \<Rightarrow> job \<Rightarrow> job" where
  "lease_job owner now lease j = j\<lparr>j_State := ''leased'', j_LeaseOwner := owner,
     j_LeaseExpiresAt := now + lease, j_UpdatedAt := now\<rparr>"

definition ClaimNextJob ::
    "codec \<Rightarrow> env \<Rightarrow> string \<Rightarrow> time \<Rightarrow> time \<Rightarrow> store \<Rightarrow> store \<times> (store_error + job option)" where
  "ClaimNextJob cd w owner now lease s =
     (case sort_slice claim_order (filter (eligible now) (all_jobs w s)) of
       [] \<Rightarrow> (s, Inr None)
     | c # _ \<Rightarrow>
         (let j = lease_job owner now lease c
          in case appendLocked cd w (job_event ''leased'' j) s of
               (s', Inl x) \<Rightarrow> (s', Inl x)
             | (s', Inr e) \<Rightarrow> (s', Inr (Some j))))"

definition recovered_job :: "time \<Rightarrow> job \<Rightarrow> job" where
  "recovered_job now j = j\<lparr>j_State := ''pending'', j_Error := [], j_LeaseOwner := [],
     j_LeaseExpiresAt := zero_time, j_AvailableAt := now, j_UpdatedAt := now\<rparr>"

fun recover_jobs :: "codec \<Rightarrow> env \<Rightarrow> time \<Rightarrow> job list \<Rightarrow> store \<Rightarrow> outcome" where
  "recover_jobs cd w now [] s = (s, None)"
| "recover_jobs cd w now (j # js) s =
     (case appendLocked cd w (job_event ''pending'' (recovered_job now j)) s of
       (s', Inl x) \<Rightarrow> (s', Some x)
     | (s', Inr e) \<Rightarrow> recover_jobs cd w now js s')"

definition stale_jobs :: "env \<Rightarrow> store \<Rightarrow> job list" where
  "stale_jobs w s = sort_slice by_CreatedAt
     (filter (\<lambda>j. j_State j = ''leased'' \<or> j_State j = ''running'') (all_jobs w s))"

definition RecoverLeases :: "codec \<Rightarrow> env \<Rightarrow> time \<Rightarrow> store \<Rightarrow> outcome" where
  "RecoverLeases cd w now s = recover_jobs cd w now (stale_jobs w s) s"

text \<open>The number the next attempt of a job must have.\<close>

definition next_number :: "string \<Rightarrow> attempt list \<Rightarrow> int" where
  "next_number i as = fold (\<lambda>a n. if a_JobID a = i \<and> a_Number a \<ge> n then a_Number a + 1 else n) as 1"

definition result_states :: "string list" where
  "result_states = [''retrying'', ''succeeded'', ''fatal'', ''dead-letter'']"

definition finished_job :: "job \<Rightarrow> string \<Rightarrow> string \<Rightarrow> time \<Rightarrow> time \<Rightarrow> job" where
  "finished_job j st message now availableAt =
     (let j1 = j\<lparr>j_State := st, j_Error := message, j_UpdatedAt := now, j_LeaseOwner := [],
            j_LeaseExpiresAt := zero_time, j_AvailableAt := availableAt\<rparr>
      in if terminalState st then j1\<lparr>j_FinishedAt := now\<rparr> else j1)"

definition leased_by :: "store \<Rightarrow> string \<Rightarrow> string \<Rightarrow> job option" where
  "leased_by s i owner =
     (case fmlookup (s_jobs s) i of
       None \<Rightarrow> None
     | Some j \<Rightarrow> if j_State j \<noteq> ''leased'' \<or> j_LeaseOwner j \<noteq> owner then None else Some j)"

definition RecordAttempt ::
    "codec \<Rightarrow> env \<Rightarrow> string \<Rightarrow> string \<Rightarrow> attempt \<Rightarrow> string \<Rightarrow> string \<Rightarrow> time \<Rightarrow> store \<Rightarrow> outcome" where
  "RecordAttempt cd w i owner a st message availableAt s =
     (case leased_by s i owner of
       None \<Rightarrow> (s, Some ErrLeaseLost)
     | Some j \<Rightarrow>
         if a_Number a > MaxAttemptsPerJob (s_opts s) then (s, Some ErrCapacity)
         else if a_Number a \<noteq> next_number i (attempts_of s (j_RequestID j))
           then (s, Some (ErrText ''attempt number is not next expected number''))
         else if a_ID a |\<in>| s_attemptIDs s then (s, Some (ErrWrap ''attempt'' ErrIDCollision))
         else if st \<notin> set result_states then (s, Some (ErrText ''invalid attempt result state''))
         else (let now = (if IsZero (a_FinishedAt a) then w_clock w else a_FinishedAt a)
               in error_only (appendLocked cd w
                    ((job_event st (finished_job j st message now availableAt))\<lparr>e_Attempt := Some a\<rparr>) s)))"

definition FinishWithoutAttempt ::
    "codec \<Rightarrow> env \<Rightarrow> string \<Rightarrow> string \<Rightarrow> string \<Rightarrow> string \<Rightarrow> store \<Rightarrow> outcome" where
  "FinishWithoutAttempt cd w i owner st message s =
     (case leased_by s i owner of
       None \<Rightarrow> (s, Some ErrLeaseLost)
     | Some j \<Rightarrow>
         if st \<noteq> ''poison'' then (s, Some (ErrText ''invalid no-attempt state''))
         else error_only (appendLocked cd w (job_event st
                (j\<lparr>j_State := st, j_Error := message, j_UpdatedAt := w_clock w,
                   j_FinishedAt := w_clock w, j_LeaseOwner := [],
                   j_LeaseExpiresAt := zero_time\<rparr>)) s))"

section \<open>Loading a capture\<close>

definition poison :: "store_error \<Rightarrow> store \<Rightarrow> store" where
  "poison x s = (if s_health s = None then s\<lparr>s_health := Some x\<rparr> else s)"

definition load_request :: "codec \<Rightarrow> env \<Rightarrow> store \<Rightarrow> string \<Rightarrow> store_error + string" where
  "load_request cd w s i =
     (case readEventAt cd w s (map_get zero_ref (s_requestRecord s) i) of
       Inl x \<Rightarrow> Inl (ErrWrap ''load request'' x)
     | Inr e \<Rightarrow>
         (case e_Request e of
           None \<Rightarrow> Inl (ErrText ''load request: store record identity changed'')
         | Some r \<Rightarrow>
             if r_ID r \<noteq> i then Inl (ErrText ''load request: store record identity changed'')
             else (case validateRequestDigest r of
                 Some x \<Rightarrow> Inl (ErrWrap ''load request'' x)
               | None \<Rightarrow> Inr (r_Body r))))"

fun load_attempts :: "codec \<Rightarrow> env \<Rightarrow> store \<Rightarrow> attempt list \<Rightarrow> store_error + attempt list" where
  "load_attempts cd w s [] = Inr []"
| "load_attempts cd w s (a # as) =
     (case readEventAt cd w s (map_get zero_ref (s_attemptRecord s) (a_ID a)) of
       Inl x \<Rightarrow> Inl (ErrWrap ''load attempt'' x)
     | Inr e \<Rightarrow>
         (case e_Attempt e of
           None \<Rightarrow> Inl (ErrText ''load attempt: store record identity changed'')
         | Some a0 \<Rightarrow>
             if a_ID a0 \<noteq> a_ID a
               then Inl (ErrText ''load attempt: store record identity changed'')
             else (case load_attempts cd w s as of
                 Inl x \<Rightarrow> Inl x
               | Inr bs \<Rightarrow> Inr (a\<lparr>a_ResponseBody := a_ResponseBody a0\<rparr> # bs))))"

definition Load ::
    "codec \<Rightarrow> env \<Rightarrow> string \<Rightarrow> store \<Rightarrow> store \<times> (store_error + (request \<times> attempt list) option)" where
  "Load cd w i s =
     (case fmlookup (s_requests s) i of
       None \<Rightarrow> (s, Inr None)
     | Some r \<Rightarrow>
         (case load_request cd w s i of
           Inl x \<Rightarrow> (poison x s, Inl x)
         | Inr body \<Rightarrow>
             (case load_attempts cd w s (attempts_of s i) of
               Inl x \<Rightarrow> (poison x s, Inl x)
             | Inr as \<Rightarrow> (s, Inr (Some (r\<lparr>r_Body := body\<rparr>, as))))))"

definition Get :: "codec \<Rightarrow> env \<Rightarrow> string \<Rightarrow> store \<Rightarrow> store \<times> (request \<times> attempt list) option" where
  "Get cd w i s = (case Load cd w i s of (s', Inl x) \<Rightarrow> (s', None) | (s', Inr r) \<Rightarrow> (s', r))"

section \<open>Redacting retained headers\<close>

definition REDACTED :: string where
  "REDACTED = ''[REDACTED]''"

definition headerValuesNeedRedaction :: "header \<Rightarrow> (string \<Rightarrow> bool) \<Rightarrow> bool" where
  "headerValuesNeedRedaction h sensitive \<longleftrightarrow>
     \<not> fmpred (\<lambda>name values. \<not> (sensitive name \<and> values \<noteq> [REDACTED])) h"

definition redact_header :: "(string \<Rightarrow> bool) \<Rightarrow> header \<Rightarrow> header" where
  "redact_header sensitive h =
     fmmap_keys (\<lambda>name values. if sensitive name then [REDACTED] else values) h"

definition redact_request :: "(string \<Rightarrow> bool) \<Rightarrow> request \<Rightarrow> request" where
  "redact_request sensitive r = r\<lparr>r_Headers := redact_header sensitive (r_Headers r)\<rparr>"

definition redact_attempt :: "(string \<Rightarrow> bool) \<Rightarrow> attempt \<Rightarrow> attempt" where
  "redact_attempt sensitive a = a\<lparr>a_ResponseHeaders := redact_header sensitive (a_ResponseHeaders a)\<rparr>"

definition redact_event :: "(string \<Rightarrow> bool) \<Rightarrow> event \<Rightarrow> event" where
  "redact_event sensitive e = e\<lparr>
     e_Request := map_option (redact_request sensitive) (e_Request e),
     e_Attempt := map_option (redact_attempt sensitive) (e_Attempt e)\<rparr>"

definition event_needs_redaction :: "(string \<Rightarrow> bool) \<Rightarrow> header option \<times> header option \<Rightarrow> bool" where
  "event_needs_redaction sensitive hs \<longleftrightarrow>
     (case fst hs of None \<Rightarrow> False | Some h \<Rightarrow> headerValuesNeedRedaction h sensitive)
     \<or> (case snd hs of None \<Rightarrow> False | Some h \<Rightarrow> headerValuesNeedRedaction h sensitive)"

definition recountRingLocked :: "codec \<Rightarrow> store \<Rightarrow> store" where
  "recountRingLocked cd s =
     (let (ring, n) = trim_ring cd (s_opts s) (s_ring s) (ring_size cd (s_ring s))
      in s\<lparr>s_ring := ring, s_ringBytes := n\<rparr>)"

function scan_log :: "codec \<Rightarrow> stream_end \<Rightarrow> (string \<Rightarrow> bool) \<Rightarrow> string \<Rightarrow> store_error + bool" where
  "scan_log cd fin sensitive xs =
     (case readRecord fin xs of
       Inl x \<Rightarrow> Inl (ErrWrap ''read store'' x)
     | Inr (line, complete, rest) \<Rightarrow>
         if \<not> complete then Inr False
         else (case UnmarshalHeaders cd line of
             None \<Rightarrow> Inl (ErrText ''decode store'')
           | Some hs \<Rightarrow> if event_needs_redaction sensitive hs then Inr True
               else scan_log cd fin sensitive rest))"
  by pat_completeness auto
termination
  by (relation "measure (\<lambda>(_, _, _, xs). length xs)") (auto dest: readRecord_shorter(1))

declare scan_log.simps [simp del]

definition logNeedsHeaderRedactionLocked ::
    "codec \<Rightarrow> env \<Rightarrow> (string \<Rightarrow> bool) \<Rightarrow> store \<Rightarrow> store_error + bool" where
  "logNeedsHeaderRedactionLocked cd w sensitive s =
     (if \<not> s_handle s then Inl ErrClosed
      else (case sys_error w StatFile of Some x \<Rightarrow> Inl x | None \<Rightarrow>
        scan_log cd (case w_fails w ReadFile of None \<Rightarrow> AtEOF | Some m \<Rightarrow> ReadError m)
          sensitive (s_file s)))"

definition redact_state :: "(string \<Rightarrow> bool) \<Rightarrow> store \<Rightarrow> store" where
  "redact_state sensitive s = s\<lparr>
     s_requests := fmmap (redact_request sensitive) (s_requests s),
     s_attempts := fmmap (map (redact_attempt sensitive)) (s_attempts s),
     s_ring := map (redact_event sensitive) (s_ring s)\<rparr>"

definition state_needs_redaction :: "(string \<Rightarrow> bool) \<Rightarrow> store \<Rightarrow> bool" where
  "state_needs_redaction sensitive s \<longleftrightarrow>
     \<not> fmpred (\<lambda>_ r. \<not> headerValuesNeedRedaction (r_Headers r) sensitive) (s_requests s)
     \<or> \<not> fmpred (\<lambda>_ as. list_all (\<lambda>a. \<not> headerValuesNeedRedaction (a_ResponseHeaders a) sensitive) as)
          (s_attempts s)
     \<or> list_ex (\<lambda>e. event_needs_redaction sensitive (event_headers e)) (s_ring s)"

definition RedactHeaders :: "codec \<Rightarrow> env \<Rightarrow> (string \<Rightarrow> bool) option \<Rightarrow> store \<Rightarrow> outcome" where
  "RedactHeaders cd w policy s =
     (case policy of
       None \<Rightarrow> (s, Some (ErrText ''sensitive header policy is required''))
     | Some sensitive \<Rightarrow>
         if s_closed s then (s, Some ErrClosed)
         else (case s_health s of Some h \<Rightarrow> (s, Some (ErrWrap ''store poisoned'' h)) | None \<Rightarrow>
           (let changed = state_needs_redaction sensitive s;
                s1 = redact_state sensitive s;
                s2 = (if changed then recountRingLocked cd s1 else s1)
            in case (if changed then Inr True else logNeedsHeaderRedactionLocked cd w sensitive s2) of
                 Inl x \<Rightarrow> (poisoned x s2, Some (ErrWrap ''scan legacy headers'' x))
               | Inr False \<Rightarrow> (s2, None)
               | Inr True \<Rightarrow>
                   (case compactLocked cd w s2 of
                     (s3, Some x) \<Rightarrow> (poisoned x s3, Some (ErrWrap ''compact redacted store'' x))
                   | (s3, None) \<Rightarrow> (s3, None)))))"

section \<open>Listing and counting\<close>

text \<open>
  A context is the answers of its \<open>Done\<close> channel to the polls of the call, by number: the first
  before the scan, then one for every 64 records matched.
\<close>

definition summary_of :: "store \<Rightarrow> string \<Rightarrow> request_summary \<times> string" where
  "summary_of s i =
     (let r = map_get zero_request (s_requests s) i
      in (\<lparr>u_ID = r_ID r, u_DeliveryID = r_DeliveryID r, u_Method = r_Method r, u_Path = r_Path r,
           u_BodySHA256 = r_BodySHA256 r, u_ReceivedAt = r_ReceivedAt r,
           u_BodyBytes = map_get 0 (s_requestBytes s) i\<rparr>, map_get [] (s_search s) i))"

definition newest_first :: "request_summary \<Rightarrow> request_summary \<Rightarrow> bool" where
  "newest_first a b \<longleftrightarrow>
     (if u_ReceivedAt a = u_ReceivedAt b then u_ID a > u_ID b else u_ReceivedAt a > u_ReceivedAt b)"

interpretation newest: slice_less newest_first
  by unfold_locales (auto simp: newest_first_def split: if_splits)

fun match_records ::
    "(nat \<Rightarrow> bool) \<Rightarrow> string \<Rightarrow> nat \<Rightarrow> (request_summary \<times> string) list \<Rightarrow> request_summary list option" where
  "match_records ctx_done q i [] = Some []"
| "match_records ctx_done q i ((u, index) # rs) =
     (if i mod 64 = 0 \<and> ctx_done (Suc (i div 64)) then None
      else map_option (\<lambda>us. if q = [] \<or> Contains index q then u # us else us)
        (match_records ctx_done q (Suc i) rs))"

definition ListSummariesContext ::
    "env \<Rightarrow> (nat \<Rightarrow> bool) \<Rightarrow> string \<Rightarrow> int \<Rightarrow> int \<Rightarrow> store
      \<Rightarrow> store_error + request_summary list \<times> int \<times> bool" where
  "ListSummariesContext w ctx_done q offset limit s =
     (if ctx_done 0 then Inl (ErrText ''context done'')
      else (let ids = range_keys (w_order w) (s_requests s);
                all = map (summary_of s) (take (nat (MaxSearchScan (s_opts s))) ids);
                truncated = requests_len s > int (length all)
            in case match_records ctx_done (lower q) 0 all of
                 None \<Rightarrow> Inl (ErrText ''context done'')
               | Some found \<Rightarrow>
                   (let matched = sort_slice newest_first found;
                        n = int (length matched);
                        from = (if offset > n then n else offset);
                        til = min (from + limit) n
                    in if from < 0 \<or> til < from then Inl (Panic ''slice bounds out of range'')
                       else Inr (take (nat (til - from)) (drop (nat from) matched), n, truncated))))"

definition ListSummaries ::
    "env \<Rightarrow> string \<Rightarrow> int \<Rightarrow> int \<Rightarrow> store \<Rightarrow> request_summary list \<times> int" where
  "ListSummaries w q offset limit s =
     (case ListSummariesContext w (\<lambda>_. False) q offset limit s of
       Inl _ \<Rightarrow> ([], 0) | Inr (items, n, _) \<Rightarrow> (items, n))"

definition UnfinishedJobs :: "env \<Rightarrow> store \<Rightarrow> job list" where
  "UnfinishedJobs w s = sort_slice by_CreatedAt (filter (\<lambda>j. \<not> terminalState (j_State j)) (all_jobs w s))"

definition AttemptsForJob :: "env \<Rightarrow> string \<Rightarrow> store \<Rightarrow> int" where
  "AttemptsForJob w i s =
     fold (\<lambda>a n. if a_JobID a = i \<and> a_Number a > n then a_Number a else n)
       (concat (map (attempts_of s) (range_keys (w_order w) (s_attempts s)))) 0"

definition count_name :: "string \<Rightarrow> string" where
  "count_name st = (if st = ''queued'' then ''pending'' else if st = ''running'' then ''leased'' else st)"

definition JobCounts :: "env \<Rightarrow> store \<Rightarrow> (string, int) fmap" where
  "JobCounts w s =
     fold (\<lambda>j out. let st = count_name (j_State j) in fmupd st (map_get 0 out st + 1) out)
       (all_jobs w s)
       (fmap_of_list [(''pending'', 0), (''leased'', 0), (''retrying'', 0), (''succeeded'', 0),
          (''failed'', 0), (''fatal'', 0), (''dead-letter'', 0), (''poison'', 0)])"

definition Health :: "store \<Rightarrow> store_error option" where
  "Health s = (if s_closed s then Some ErrClosed else s_health s)"

definition Sequence :: "store \<Rightarrow> 64 word" where
  "Sequence s = s_seq s"

section \<open>Subscribing\<close>

text \<open>The identity of the next channel: channels are never taken out of \<open>s_chans\<close>.\<close>

definition SubscribeFrom :: "64 word \<Rightarrow> store \<Rightarrow> store \<times> (store_error + event list \<times> nat)" where
  "SubscribeFrom cursor s =
     (let behind = (case s_ring s of [] \<Rightarrow> False
            | e # _ \<Rightarrow> cursor < e_Seq e \<and> e_Seq e - cursor > 1)
      in if behind then (s, Inl ErrEventBacklog)
         else (let old = filter (\<lambda>e. e_Seq e > cursor) (s_ring s);
                   c = fcard (fmdom (s_chans s))
               in (s\<lparr>s_chans := fmupd c \<lparr>ch_buffer = [], ch_closed = False\<rparr> (s_chans s),
                     s_subs := finsert c (s_subs s)\<rparr>, Inr (old, c))))"

definition close_channel :: "channel \<Rightarrow> channel" where
  "close_channel ch = ch\<lparr>ch_closed := True\<rparr>"

definition cancel_subscription :: "nat \<Rightarrow> store \<Rightarrow> store" where
  "cancel_subscription c s =
     (if c |\<in>| s_subs s then
        s\<lparr>s_subs := s_subs s - {|c|},
          s_chans := fmmap_keys (\<lambda>k ch. if k = c then close_channel ch else ch) (s_chans s)\<rparr>
      else s)"

definition Close :: "env \<Rightarrow> store \<Rightarrow> outcome" where
  "Close w s =
     (if s_closed s then (s, None)
      else (s\<lparr>s_closed := True,
              s_chans := fmmap_keys (\<lambda>k ch. if k |\<in>| s_subs s then close_channel ch else ch) (s_chans s),
              s_subs := {||}, s_handle := False\<rparr>,
            sys_error w CloseFile))"

end
