(* ===== verification/Go_Strings.thy ===== *)
theory Go_Strings
  imports Model
begin

text \<open>
  The functions of Go's \<open>strings\<close>, \<open>strconv\<close>, \<open>encoding/base64\<close>, \<open>net/textproto\<close> and
  \<open>net/http\<close> that the application calls on strings and headers. Header names are ASCII (\<open>net/http\<close>
  refuses others), so the functions on runes are functions on bytes here.
\<close>

section \<open>Bytes\<close>

definition upper_byte :: "char \<Rightarrow> char" where
  "upper_byte c = (if CHR ''a'' \<le> c \<and> c \<le> CHR ''z'' then char_of (of_char c - 32 :: nat) else c)"

definition is_lower :: "char \<Rightarrow> bool" where
  "is_lower c \<longleftrightarrow> CHR ''a'' \<le> c \<and> c \<le> CHR ''z''"

definition is_upper :: "char \<Rightarrow> bool" where
  "is_upper c \<longleftrightarrow> CHR ''A'' \<le> c \<and> c \<le> CHR ''Z''"

definition is_digit :: "char \<Rightarrow> bool" where
  "is_digit c \<longleftrightarrow> CHR ''0'' \<le> c \<and> c \<le> CHR ''9''"

definition is_space :: "char \<Rightarrow> bool" where
  "is_space c \<longleftrightarrow> 9 \<le> (of_char c :: nat) \<and> of_char c \<le> (13 :: nat) \<or> of_char c = (32 :: nat)"

lemma lower_byte_lower_byte [simp]: "lower_byte (lower_byte c) = lower_byte c"
  by (auto simp: lower_byte_def less_eq_char_def)

lemma lower_byte_upper_byte [simp]: "lower_byte (upper_byte c) = lower_byte c"
proof -
  have "char_of (of_char c :: nat) = c" by simp
  then show ?thesis by (auto simp: lower_byte_def upper_byte_def less_eq_char_def)
qed

lemma is_space_lower_byte [simp]: "is_space (lower_byte c) = is_space c"
  by (auto simp: lower_byte_def is_space_def less_eq_char_def)

section \<open>Strings\<close>

definition ToLower :: "string \<Rightarrow> string" where
  "ToLower s = map lower_byte s"

definition EqualFold :: "string \<Rightarrow> string \<Rightarrow> bool" where
  "EqualFold s t \<longleftrightarrow> ToLower s = ToLower t"

definition TrimSpace :: "string \<Rightarrow> string" where
  "TrimSpace s = rev (dropWhile is_space (rev (dropWhile is_space s)))"

text \<open>\<open>strings.Split\<close> with a separator of one byte.\<close>

fun split_on :: "char \<Rightarrow> string \<Rightarrow> string list" where
  "split_on d [] = [[]]"
| "split_on d (c # s) =
     (if c = d then [] # split_on d s
      else (case split_on d s of [] \<Rightarrow> [[c]] | p # ps \<Rightarrow> (c # p) # ps))"

lemma ToLower_ToLower [simp]: "ToLower (ToLower s) = ToLower s"
  by (simp add: ToLower_def)

lemma dropWhile_ToLower: "dropWhile is_space (map lower_byte s) = map lower_byte (dropWhile is_space s)"
  by (induction s) auto

lemma ToLower_TrimSpace: "ToLower (TrimSpace s) = TrimSpace (ToLower s)"
  by (simp add: ToLower_def TrimSpace_def dropWhile_ToLower rev_map)

lemma TrimSpace_cong: "ToLower s = ToLower t \<Longrightarrow> ToLower (TrimSpace s) = ToLower (TrimSpace t)"
  by (simp add: ToLower_TrimSpace)

lemma split_on_not_Nil [simp]: "split_on d s \<noteq> []"
  by (cases s) (auto split: list.splits)

section \<open>Numbers (\<open>strconv\<close>)\<close>

fun digits_val :: "nat \<Rightarrow> string \<Rightarrow> nat option" where
  "digits_val n [] = Some n"
| "digits_val n (c # s) =
     (if is_digit c then digits_val (10 * n + (of_char c - 48)) s else None)"

definition parse_digits :: "string \<Rightarrow> nat option" where
  "parse_digits s = (if s = [] then None else digits_val 0 s)"

text \<open>\<open>ParseInt(s, 10, 64)\<close>, which is also \<open>Atoi\<close> on a 64-bit machine; out of range is an error.\<close>

definition ParseInt :: "string \<Rightarrow> int option" where
  "ParseInt s =
     (let (neg, ds) = (case s of
          c # cs \<Rightarrow> if c = CHR ''-'' then (True, cs) else if c = CHR ''+'' then (False, cs) else (False, s)
        | [] \<Rightarrow> (False, []))
      in case parse_digits ds of
           None \<Rightarrow> None
         | Some n \<Rightarrow>
             (let v = (if neg then - int n else int n)
              in if - (2 ^ 63) \<le> v \<and> v < 2 ^ 63 then Some v else None))"

definition ParseUint :: "string \<Rightarrow> 64 word option" where
  "ParseUint s = (case parse_digits s of
     None \<Rightarrow> None | Some n \<Rightarrow> if n < 2 ^ 64 then Some (of_nat n) else None)"

lemma ParseInt_range: "ParseInt s = Some v \<Longrightarrow> - (2 ^ 63) \<le> v \<and> v < 2 ^ 63"
  by (auto simp: ParseInt_def Let_def split: option.splits if_splits prod.splits)

text \<open>\<open>strconv.Itoa\<close> and \<open>fmt\<close>'s \<open>%d\<close>.\<close>

fun nat_digits :: "nat \<Rightarrow> string" where
  "nat_digits n = (if n < 10 then [char_of (48 + n)]
     else nat_digits (n div 10) @ [char_of (48 + n mod 10)])"

declare nat_digits.simps [simp del]

definition Itoa :: "int \<Rightarrow> string" where
  "Itoa i = (if i < 0 then CHR ''-'' # nat_digits (nat (- i)) else nat_digits (nat i))"

lemma digits_val_append:
  "digits_val n (s @ t) = (case digits_val n s of None \<Rightarrow> None | Some m \<Rightarrow> digits_val m t)"
  by (induction n s rule: digits_val.induct) auto

lemma digit_char:
  assumes "d < 10"
  shows "is_digit (char_of (48 + d :: nat))" "of_char (char_of (48 + d :: nat)) = 48 + d"
proof -
  have "list_all (\<lambda>d. is_digit (char_of (48 + d :: nat))) [0..<10]" by code_simp
  then show "is_digit (char_of (48 + d :: nat))"
    using assms by (simp add: list_all_iff del: upt_rec_numeral)
  show "of_char (char_of (48 + d :: nat)) = 48 + d" using assms by simp
qed

lemma nat_digits_not_Nil [simp]: "nat_digits n \<noteq> []"
  by (subst nat_digits.simps) simp

lemma digits_val_nat_digits: "digits_val 0 (nat_digits n) = Some n"
proof (induction n rule: nat_digits.induct)
  case (1 n)
  show ?case
  proof (cases "n < 10")
    case True
    then show ?thesis by (subst nat_digits.simps) (simp add: digit_char)
  next
    case False
    then show ?thesis
      using 1 [OF False] by (subst nat_digits.simps) (simp add: digits_val_append digit_char)
  qed
qed

lemma parse_nat_digits: "parse_digits (nat_digits n) = Some n"
  by (simp add: parse_digits_def digits_val_nat_digits)

section \<open>Base64 (\<open>encoding/base64\<close>)\<close>

definition std_alphabet :: string where
  "std_alphabet = ''ABCDEFGHIJKLMNOPQRSTUVWXYZabcdefghijklmnopqrstuvwxyz0123456789+/''"

definition url_alphabet :: string where
  "url_alphabet = ''ABCDEFGHIJKLMNOPQRSTUVWXYZabcdefghijklmnopqrstuvwxyz0123456789-_''"

definition sextets :: "nat \<Rightarrow> nat list" where
  "sextets n = [n div 2 ^ 18 mod 64, n div 2 ^ 12 mod 64, n div 2 ^ 6 mod 64, n mod 64]"

fun base64 :: "string \<Rightarrow> string \<Rightarrow> string \<Rightarrow> string" where
  "base64 tab pad [] = []"
| "base64 tab pad [a] = map (nth tab) (take 2 (sextets (of_char a * 2 ^ 16))) @ pad @ pad"
| "base64 tab pad [a, b] =
     map (nth tab) (take 3 (sextets (of_char a * 2 ^ 16 + of_char b * 2 ^ 8))) @ pad"
| "base64 tab pad (a # b # c # s) =
     map (nth tab) (sextets (of_char a * 2 ^ 16 + of_char b * 2 ^ 8 + of_char c)) @ base64 tab pad s"

definition StdEncoding :: "string \<Rightarrow> string" where
  "StdEncoding = base64 std_alphabet ''=''"

definition RawURLEncoding :: "string \<Rightarrow> string" where
  "RawURLEncoding = base64 url_alphabet []"

text \<open>A decoder for unpadded text, the inverse the encoding promises.\<close>

fun unsextets :: "nat list \<Rightarrow> nat" where
  "unsextets [] = 0"
| "unsextets (x # xs) = x * 64 ^ length xs + unsextets xs"

fun base64_bytes :: "nat list \<Rightarrow> string" where
  "base64_bytes (p # q # r # t # xs) =
     (let n = unsextets [p, q, r, t]
      in char_of (n div 2 ^ 16) # char_of (n div 2 ^ 8) # char_of n # base64_bytes xs)"
| "base64_bytes [p, q, r] =
     (let n = unsextets [p, q, r] div 2 ^ 2 in [char_of (n div 2 ^ 8), char_of n])"
| "base64_bytes [p, q] = [char_of (unsextets [p, q] div 2 ^ 4)]"
| "base64_bytes _ = []"

definition base64_decode :: "string \<Rightarrow> string \<Rightarrow> string" where
  "base64_decode tab s = base64_bytes (map (\<lambda>c. the (index_of c tab)) s)"

lemma index_of_nth: "distinct xs \<Longrightarrow> i < length xs \<Longrightarrow> index_of (xs ! i) xs = Some i"
  by (induction xs arbitrary: i) (auto simp: nth_Cons split: nat.splits)

lemma sextets_less: "x \<in> set (sextets n) \<Longrightarrow> x < 64"
  by (auto simp: sextets_def)

lemma unsextets_sextets:
  fixes n :: nat
  assumes "n < 2 ^ 24"
  shows "unsextets (sextets n) = n"
    "unsextets (take 3 (sextets n)) = n div 2 ^ 6" "unsextets (take 2 (sextets n)) = n div 2 ^ 12"
proof -
  have c: "n div 64 div 64 = n div 4096" "n div 4096 div 64 = n div 262144"
    by (simp_all flip: div_mult2_eq)
  have d: "n = n mod 64 + 64 * (n div 64)" "n div 64 = n div 64 mod 64 + 64 * (n div 4096)"
    "n div 4096 = n div 4096 mod 64 + 64 * (n div 262144)"
    using mult_div_mod_eq [of 64 n] mult_div_mod_eq [of 64 "n div 64"]
      mult_div_mod_eq [of 64 "n div 4096"] by (simp_all add: c)
  have t: "n div 262144 mod 64 = n div 262144"
    using assms by (simp add: div_less_iff_less_mult)
  show "unsextets (sextets n) = n" "unsextets (take 3 (sextets n)) = n div 2 ^ 6"
    "unsextets (take 2 (sextets n)) = n div 2 ^ 12"
    unfolding sextets_def using d by (simp_all add: t; linarith)+
qed

lemma decode_sextets:
  assumes "distinct tab" "length tab = 64" "set xs \<subseteq> {..<64}"
  shows "map (\<lambda>c. the (index_of c tab)) (map (nth tab) xs) = xs"
  using assms(3) by (induction xs) (simp_all add: index_of_nth assms(1,2))

lemma byte_less: "of_char c < (256 :: nat)"
  using nat_of_char_less_256 [of c] by simp

lemma char_of_byte: "char_of (256 * n + of_char a :: nat) = a"
proof -
  have "char_of (256 * n + of_char a :: nat) = char_of ((256 * n + of_char a) mod 256 :: nat)"
    by (simp only: char_of_mod_256)
  then show ?thesis by simp
qed

lemma base64_decode_base64:
  assumes "distinct tab" "length tab = 64"
  shows "base64_decode tab (base64 tab [] s) = s"
  using assms
proof (induction tab "[] :: string" s rule: base64.induct)
  case (1 tab)
  then show ?case by (simp add: base64_decode_def)
next
  case (2 tab a)
  define n :: nat where "n = of_char a * 2 ^ 16"
  have n: "n < 2 ^ 24" using byte_less [of a] by (simp add: n_def)
  have d: "map (\<lambda>c. the (index_of c tab)) (map (nth tab) (take 2 (sextets n))) = take 2 (sextets n)"
    by (rule decode_sextets [OF 2]) (auto dest: in_set_takeD sextets_less)
  obtain p q where pq: "take 2 (sextets n) = [p, q]" by (simp add: sextets_def)
  have "unsextets [p, q] = n div 2 ^ 12"
    using unsextets_sextets(3) [OF n] pq by simp
  then have "unsextets [p, q] div 2 ^ 4 = of_char a" by (simp add: n_def)
  moreover have "base64_decode tab (base64 tab [] [a]) = base64_bytes (take 2 (sextets n))"
    by (simp only: base64_decode_def base64.simps append_Nil2 d flip: n_def)
  ultimately show ?case by (simp add: pq del: unsextets.simps)
next
  case (3 tab a b)
  define n :: nat where "n = of_char a * 2 ^ 16 + of_char b * 2 ^ 8"
  have n: "n < 2 ^ 24" by (simp add: n_def) (use byte_less [of a] byte_less [of b] in linarith)
  have d: "map (\<lambda>c. the (index_of c tab)) (map (nth tab) (take 3 (sextets n))) = take 3 (sextets n)"
    by (rule decode_sextets [OF 3]) (auto dest: in_set_takeD sextets_less)
  obtain p q r where pq: "take 3 (sextets n) = [p, q, r]" by (simp add: sextets_def)
  have "unsextets [p, q, r] = n div 2 ^ 6"
    using unsextets_sextets(2) [OF n] pq by simp
  then have e: "unsextets [p, q, r] div 2 ^ 2 = 256 * of_char a + of_char b"
    by (simp add: n_def flip: div_mult2_eq)
  then have "unsextets [p, q, r] div 2 ^ 2 div 2 ^ 8 = of_char a"
    using byte_less [of b] by simp
  moreover have "base64_decode tab (base64 tab [] [a, b]) = base64_bytes (take 3 (sextets n))"
    by (simp only: base64_decode_def base64.simps append_Nil2 d flip: n_def)
  ultimately show ?case
    using e by (simp only: pq base64_bytes.simps Let_def e char_of_byte char_of_char)
next
  case (4 tab a b c s)
  define n :: nat where "n = of_char a * 2 ^ 16 + of_char b * 2 ^ 8 + of_char c"
  have n: "n < 2 ^ 24"
    by (simp add: n_def) (use byte_less [of a] byte_less [of b] byte_less [of c] in linarith)
  have d: "map (\<lambda>c. the (index_of c tab)) (map (nth tab) (sextets n)) = sextets n"
    by (rule decode_sextets [OF 4(2,3)]) (auto dest: sextets_less)
  obtain p q r t where pq: "sextets n = [p, q, r, t]" by (simp add: sextets_def)
  have e: "unsextets [p, q, r, t] = n"
    using unsextets_sextets(1) [OF n] pq by simp
  have f: "n = 256 * (256 * of_char a + of_char b) + of_char c" by (simp add: n_def)
  have g: "n div 2 ^ 8 = 256 * of_char a + of_char b"
    unfolding f using byte_less [of c] by (simp del: distrib_left_numeral)
  have "n div 2 ^ 16 = n div 2 ^ 8 div 2 ^ 8" by (simp flip: div_mult2_eq)
  then have "n div 2 ^ 16 = of_char a" unfolding g using byte_less [of b] by simp
  note this g
  then have "char_of (n div 2 ^ 16) = a" "char_of (n div 2 ^ 8) = b" "char_of n = c"
    using char_of_byte [of "of_char a" b] char_of_byte [of "256 * of_char a + of_char b" c] f
    by (simp_all only: char_of_char)
  moreover have "base64_decode tab (base64 tab [] (a # b # c # s))
      = base64_bytes (sextets n @ map (\<lambda>c. the (index_of c tab)) (base64 tab [] s))"
    by (simp only: base64_decode_def base64.simps map_append d flip: n_def)
  ultimately show ?case
    using 4 by (simp only: pq append_Cons append_Nil base64_bytes.simps Let_def e)
      (simp add: base64_decode_def)
qed

lemma length_base64_raw: "length (base64 tab [] s) = (4 * length s + 2) div 3"
  by (induction tab "[] :: string" s rule: base64.induct) (simp_all add: sextets_def)

lemma alphabets: "distinct std_alphabet" "length std_alphabet = 64" "distinct url_alphabet"
    "length url_alphabet = 64"
  by (simp_all add: std_alphabet_def url_alphabet_def)

lemma RawURLEncoding_inj: "RawURLEncoding s = RawURLEncoding t \<Longrightarrow> s = t"
  unfolding RawURLEncoding_def using base64_decode_base64 alphabets(3,4) by metis

section \<open>Headers (\<open>net/textproto\<close>, \<open>net/http\<close>)\<close>

definition is_alnum :: "char \<Rightarrow> bool" where
  "is_alnum c \<longleftrightarrow> is_lower c \<or> is_digit c"

definition is_token :: "char \<Rightarrow> bool" where
  "is_token c \<longleftrightarrow> is_lower c \<or> is_upper c \<or> is_digit c \<or> c \<in> set ''!#$%&*+-.^_`|~'' \<or> c = CHR 0x27"

fun canon_bytes :: "bool \<Rightarrow> string \<Rightarrow> string" where
  "canon_bytes upper [] = []"
| "canon_bytes upper (c # s) =
     (let d = (if upper then upper_byte c else lower_byte c) in d # canon_bytes (d = CHR ''-'') s)"

text \<open>A name with a byte no header name may have is left as it is.\<close>

definition CanonicalHeaderKey :: "string \<Rightarrow> string" where
  "CanonicalHeaderKey s = (if list_all is_token s then canon_bytes True s else s)"

definition header_values :: "header \<Rightarrow> string \<Rightarrow> string list" where
  "header_values h k = map_get [] h (CanonicalHeaderKey k)"

definition header_get :: "header \<Rightarrow> string \<Rightarrow> string" where
  "header_get h k = (case header_values h k of [] \<Rightarrow> [] | v # _ \<Rightarrow> v)"

definition header_add :: "string \<Rightarrow> string \<Rightarrow> header \<Rightarrow> header" where
  "header_add k v h = (let c = CanonicalHeaderKey k in fmupd c (map_get [] h c @ [v]) h)"

definition header_set :: "string \<Rightarrow> string \<Rightarrow> header \<Rightarrow> header" where
  "header_set k v h = fmupd (CanonicalHeaderKey k) [v] h"

lemma is_token_case:
  "is_token (lower_byte c) = is_token c" "is_token (upper_byte c) = is_token c"
proof -
  have r: "char_of (of_char c :: nat) = c" by simp
  have "is_upper c \<Longrightarrow> is_lower (lower_byte c)" "\<not> is_upper c \<Longrightarrow> lower_byte c = c"
    "is_lower c \<Longrightarrow> is_upper (upper_byte c)" "\<not> is_lower c \<Longrightarrow> upper_byte c = c"
    by (auto simp: is_upper_def is_lower_def lower_byte_def upper_byte_def less_eq_char_def)
  then show "is_token (lower_byte c) = is_token c" "is_token (upper_byte c) = is_token c"
    by (metis is_token_def)+
qed

lemma canon_bytes_lower [simp]: "ToLower (canon_bytes u s) = ToLower s"
  by (induction u s rule: canon_bytes.induct) (simp_all add: ToLower_def Let_def)

lemma canon_bytes_tokens [simp]: "list_all is_token (canon_bytes u s) = list_all is_token s"
  by (induction u s rule: canon_bytes.induct) (auto simp: Let_def is_token_case)

lemma case_idem [simp]:
  "upper_byte (upper_byte c) = upper_byte c"
  by (auto simp: upper_byte_def less_eq_char_def)

lemma canon_bytes_idem [simp]: "canon_bytes u (canon_bytes u s) = canon_bytes u s"
proof (induction u s rule: canon_bytes.induct)
  case (2 u c s)
  then show ?case by (cases u) (simp_all add: Let_def)
qed simp

lemma CanonicalHeaderKey_idem [simp]: "CanonicalHeaderKey (CanonicalHeaderKey s) = CanonicalHeaderKey s"
  by (simp add: CanonicalHeaderKey_def)

lemma CanonicalHeaderKey_lower [simp]: "ToLower (CanonicalHeaderKey s) = ToLower s"
  by (simp add: CanonicalHeaderKey_def)

lemma CanonicalHeaderKey_Nil [simp]: "CanonicalHeaderKey s = [] \<longleftrightarrow> s = []"
  by (metis CanonicalHeaderKey_lower ToLower_def map_is_Nil_conv)

end
