(* ===== verification/App_Headers.thy ===== *)
theory App_Headers
  imports Store_Ops Go_Strings
begin

text \<open>
  The header policy of the application (\<open>internal/app/app.go\<close>): which names are sensitive, the
  redaction of captured and recorded headers, and the headers a forwarded request carries.
  A Go map used as a set is an \<open>fset\<close>.
\<close>

section \<open>Sensitive names\<close>

definition default_sensitive :: "string list" where
  "default_sensitive =
     [''Authorization'', ''Proxy-Authorization'', ''Cookie'', ''Set-Cookie'',
      ''API-Key'', ''X-API-Key'', ''API-Token'', ''X-API-Token'', ''X-Auth-Token'',
      ''X-Access-Token'', ''X-Client-Token'', ''X-Token'', ''Secret-Key'', ''X-Secret-Key'',
      ''X-Secret'', ''X-Client-Secret'', ''X-Amz-Security-Token'',
      ''X-Hub-Signature'', ''X-Hub-Signature-256'']"

definition sensitiveHeaderPolicy :: "string list \<Rightarrow> string fset" where
  "sensitiveHeaderPolicy extra =
     fset_of_list (map ToLower default_sensitive)
       |\<union>| fset_of_list (map ToLower (filter (\<lambda>name. name \<noteq> []) (map TrimSpace extra)))"

text \<open>
  The scan of a lower-case name: the components between bytes that are neither letters nor
  digits, and the letters and digits alone. \<open>cur\<close> is \<open>lowerName[componentStart:i]\<close>.
\<close>

fun name_scan :: "string \<Rightarrow> string \<Rightarrow> string list \<times> string" where
  "name_scan cur [] = (if cur \<noteq> [] then [cur] else [], [])"
| "name_scan cur (c # s) =
     (if is_alnum c
        then (let (components, normalized) = name_scan (cur @ [c]) s in (components, c # normalized))
      else (let (components, normalized) = name_scan [] s
            in (if cur \<noteq> [] then cur # components else components, normalized)))"

definition markers :: "string list" where
  "markers =
     [''apikey'', ''authorization'', ''authentication'', ''credential'',
      ''cookie'', ''secret'', ''signature'', ''token'']"

definition sensitiveHeader :: "string \<Rightarrow> string fset \<Rightarrow> bool" where
  "sensitiveHeader name policy =
     (let lowerName = ToLower (TrimSpace name)
      in if lowerName |\<in>| policy then True
         else (let (components, compact) = name_scan [] lowerName
               in list_ex (\<lambda>component. component = ''auth'') components
                  \<or> list_ex (Contains compact) markers))"

section \<open>Redaction\<close>

definition redactWithPolicy :: "header \<Rightarrow> string fset \<Rightarrow> header" where
  "redactWithPolicy h policy =
     fmmap_keys (\<lambda>k v. if sensitiveHeader k policy then [REDACTED] else v) h"

definition sanitizeRequest :: "string fset \<Rightarrow> request \<Rightarrow> request" where
  "sanitizeRequest policy r = r\<lparr>r_Headers := redactWithPolicy (r_Headers r) policy\<rparr>"

definition sanitizeAttempt :: "string fset \<Rightarrow> attempt \<Rightarrow> attempt" where
  "sanitizeAttempt policy a = a\<lparr>a_ResponseHeaders := redactWithPolicy (a_ResponseHeaders a) policy\<rparr>"

definition sanitizeEvent :: "string fset \<Rightarrow> event \<Rightarrow> event" where
  "sanitizeEvent policy e = e\<lparr>
     e_Request := map_option (sanitizeRequest policy) (e_Request e),
     e_Attempt := map_option (sanitizeAttempt policy) (e_Attempt e)\<rparr>"

section \<open>Forwarded headers\<close>

definition hop_headers :: "string list" where
  "hop_headers =
     [''Connection'', ''Keep-Alive'', ''Proxy-Authenticate'', ''Proxy-Authorization'',
      ''Proxy-Connection'', ''Te'', ''Trailer'', ''Transfer-Encoding'', ''Upgrade'',
      ''Forwarded'', ''X-Forwarded-For'', ''X-Forwarded-Host'', ''X-Forwarded-Proto'',
      ''X-Real-Ip'', ''X-Relaybox-Job-Id'', ''X-Relaybox-Request-Id'']"

text \<open>The names the \<open>Connection\<close> headers of the request declare as hop-by-hop.\<close>

definition connection_names :: "header \<Rightarrow> string list" where
  "connection_names src =
     filter (\<lambda>name. name \<noteq> [])
       (map (\<lambda>token. CanonicalHeaderKey (TrimSpace token))
         (concat (map (split_on (CHR '','')) (header_values src ''Connection''))))"

definition drop_names :: "header \<Rightarrow> string fset" where
  "drop_names src = fset_of_list hop_headers |\<union>| fset_of_list (connection_names src)"

definition forward_values :: "string \<Rightarrow> string list \<Rightarrow> header \<Rightarrow> header" where
  "forward_values name vs dst = fold (\<lambda>v d. if v \<noteq> REDACTED then header_add name v d else d) vs dst"

definition forward_name :: "string fset \<Rightarrow> string fset \<Rightarrow> header \<Rightarrow> string \<Rightarrow> header \<Rightarrow> header" where
  "forward_name sensitive dropped src name0 dst =
     (if sensitiveHeader name0 sensitive then dst
      else (let name = CanonicalHeaderKey name0
            in if name |\<in>| dropped \<or> name = [] then dst
               else forward_values name (map_get [] src name0) dst))"

definition forwardHeaders :: "order \<Rightarrow> header \<Rightarrow> string fset \<Rightarrow> header" where
  "forwardHeaders ord src sensitive =
     fold (forward_name sensitive (drop_names src) src) (range_keys ord src) fmempty"

section \<open>The reference policy\<close>

text \<open>
  A name is sensitive when it is configured, when \<open>auth\<close> stands in it between bytes that are
  neither letters nor digits, or when a marker is left once such bytes are removed.
\<close>

definition delimited :: "string \<Rightarrow> string \<Rightarrow> bool" where
  "delimited x s \<longleftrightarrow> (\<exists>u v. s = u @ x @ v \<and> (u = [] \<or> \<not> is_alnum (last u))
     \<and> (v = [] \<or> \<not> is_alnum (hd v)))"

lemma name_scan_compact: "snd (name_scan cur s) = filter is_alnum s"
  by (induction cur s rule: name_scan.induct) (auto split: prod.splits)

lemma alnum_split:
  assumes "cur @ c # s = u @ x @ v" "list_all is_alnum x" "\<not> is_alnum c" "x \<noteq> []"
  shows "(\<exists>w. cur = u @ x @ w \<and> v = w @ c # s) \<or> (\<exists>w. u = cur @ c # w \<and> s = w @ x @ v)"
proof -
  from assms(1) consider w where "cur = u @ w" "w @ c # s = x @ v"
    | w where "w \<noteq> []" "cur @ w = u" "c # s = w @ x @ v"
    by (auto simp: append_eq_append_conv2) (metis append.right_neutral append_Nil)
  then show ?thesis
  proof cases
    case 1
    then consider z where "w = x @ z" "v = z @ c # s" | z where "x = w @ c # z"
      by (auto simp: append_eq_append_conv2 Cons_eq_append_conv)
    then show ?thesis using 1 assms(2,3) by cases auto
  next
    case 2
    then show ?thesis by (cases w) auto
  qed
qed

lemma name_scan_components:
  assumes "list_all is_alnum cur" "list_all is_alnum x" "x \<noteq> []"
  shows "x \<in> set (fst (name_scan cur s)) \<longleftrightarrow> delimited x (cur @ s)"
  using assms(1)
proof (induction cur s rule: name_scan.induct)
  case (1 cur)
  have "delimited x cur \<longleftrightarrow> x = cur"
  proof
    assume "delimited x cur"
    then obtain u v where uv: "cur = u @ x @ v" "u = [] \<or> \<not> is_alnum (last u)"
      "v = [] \<or> \<not> is_alnum (hd v)" unfolding delimited_def by blast
    then have "list_all is_alnum u" "list_all is_alnum v" using 1 by auto
    then have "u = []" "v = []"
      using uv by (auto simp: list_all_iff) (metis hd_in_set last_in_set)+
    then show "x = cur" using uv by simp
  next
    assume "x = cur"
    then show "delimited x cur" unfolding delimited_def by (intro exI [of _ "[]"]) simp
  qed
  then show ?case using assms(3) by auto
next
  case (2 cur c s)
  show ?case
  proof (cases "is_alnum c")
    case True
    then show ?thesis using 2 by (simp add: split: prod.splits) (metis fst_conv)
  next
    case False
    then have "x \<in> set (fst (name_scan cur (c # s))) \<longleftrightarrow> x = cur \<or> delimited x s"
      using 2(2) assms(3) by (auto split: prod.splits)
    also have "\<dots> \<longleftrightarrow> delimited x (cur @ c # s)"
    proof
      assume "x = cur \<or> delimited x s"
      then show "delimited x (cur @ c # s)"
      proof
        assume "x = cur"
        then show ?thesis using False unfolding delimited_def by (intro exI [of _ "[]"] exI [of _ "c # s"]) simp
      next
        assume "delimited x s"
        then obtain u v where "s = u @ x @ v" "u = [] \<or> \<not> is_alnum (last u)"
          "v = [] \<or> \<not> is_alnum (hd v)" unfolding delimited_def by blast
        then show ?thesis
          using False unfolding delimited_def by (intro exI [of _ "cur @ c # u"] exI [of _ v]) auto
      qed
    next
      assume "delimited x (cur @ c # s)"
      then obtain u v where uv: "cur @ c # s = u @ x @ v" "u = [] \<or> \<not> is_alnum (last u)"
        "v = [] \<or> \<not> is_alnum (hd v)" unfolding delimited_def by blast
      from alnum_split [OF uv(1) assms(2) False assms(3)] show "x = cur \<or> delimited x s"
      proof
        assume "\<exists>w. cur = u @ x @ w \<and> v = w @ c # s"
        then obtain w where w: "cur = u @ x @ w" "v = w @ c # s" by blast
        then have "list_all is_alnum u" "list_all is_alnum w" using 2(3) by auto
        then have "u = []" "w = []"
          using uv(2,3) w(2) by (auto simp: list_all_iff) (metis hd_append2 hd_in_set last_in_set)+
        then show ?thesis using w by simp
      next
        assume "\<exists>w. u = cur @ c # w \<and> s = w @ x @ v"
        then obtain w where "u = cur @ c # w" "s = w @ x @ v" by blast
        then have "delimited x s"
          using uv(2,3) False unfolding delimited_def
          by (intro exI [of _ w] exI [of _ v]) (auto split: if_splits)
        then show ?thesis ..
      qed
    qed
    finally show ?thesis .
  qed
qed

lemma sensitiveHeader_iff:
  "sensitiveHeader name policy \<longleftrightarrow>
     ToLower (TrimSpace name) |\<in>| policy
     \<or> delimited ''auth'' (ToLower (TrimSpace name))
     \<or> (\<exists>m \<in> set markers. Contains (filter is_alnum (ToLower (TrimSpace name))) m)"
proof -
  define n where "n = ToLower (TrimSpace name)"
  have a: "list_all is_alnum ''auth''" "''auth'' \<noteq> []"
    by (simp_all add: is_alnum_def is_lower_def less_eq_char_def)
  have "list_ex (\<lambda>component. component = ''auth'') (fst (name_scan [] n)) \<longleftrightarrow> delimited ''auth'' n"
    using name_scan_components [of "[]" "''auth''" n] a by (auto simp: list_ex_iff)
  moreover have "snd (name_scan [] n) = filter is_alnum n" by (rule name_scan_compact)
  ultimately show ?thesis
    by (simp add: sensitiveHeader_def list_ex_iff case_prod_beta Let_def flip: n_def)
qed

lemma sensitiveHeader_case:
  "ToLower a = ToLower b \<Longrightarrow> sensitiveHeader a policy = sensitiveHeader b policy"
  by (drule TrimSpace_cong) (simp only: sensitiveHeader_iff)

lemma sensitiveHeader_canonical [simp]:
  "sensitiveHeader (CanonicalHeaderKey name) policy = sensitiveHeader name policy"
  by (rule sensitiveHeader_case) simp

lemma sensitiveHeader_policy: "ToLower (TrimSpace name) |\<in>| policy \<Longrightarrow> sensitiveHeader name policy"
  by (simp only: sensitiveHeader_iff simp_thms)

lemma sensitiveHeader_configured:
  assumes "x \<in> set extra" "TrimSpace x \<noteq> []" "ToLower (TrimSpace name) = ToLower (TrimSpace x)"
  shows "sensitiveHeader name (sensitiveHeaderPolicy extra)"
proof (rule sensitiveHeader_policy)
  have "TrimSpace x \<in> set (filter (\<lambda>name. name \<noteq> []) (map TrimSpace extra))"
    using assms(1,2) by simp
  then have "ToLower (TrimSpace x) |\<in>| fset_of_list (map ToLower (filter (\<lambda>name. name \<noteq> []) (map TrimSpace extra)))"
    unfolding fset_of_list_elem set_map by (rule imageI)
  then show "ToLower (TrimSpace name) |\<in>| sensitiveHeaderPolicy extra"
    unfolding sensitiveHeaderPolicy_def assms(3) by blast
qed

lemma TrimSpace_no_space: "s = [] \<or> \<not> is_space (hd s) \<and> \<not> is_space (last s) \<Longrightarrow> TrimSpace s = s"
proof (cases s)
  case (Cons c t)
  assume "s = [] \<or> \<not> is_space (hd s) \<and> \<not> is_space (last s)"
  then have "\<not> is_space (hd s)" "\<not> is_space (last s)" using Cons by auto
  then have h: "\<not> is_space c" "\<not> is_space (hd (rev s))" unfolding hd_rev using Cons by simp_all
  have "dropWhile is_space s = s" using h(1) Cons by simp
  moreover have "dropWhile is_space (rev s) = rev s" using h(2) by (cases "rev s") simp_all
  ultimately show ?thesis by (simp add: TrimSpace_def)
qed (simp add: TrimSpace_def)

lemma sensitiveHeader_default:
  assumes "name \<in> set default_sensitive"
  shows "sensitiveHeader name (sensitiveHeaderPolicy extra)"
proof (rule sensitiveHeader_policy)
  have "list_all (\<lambda>s. \<not> is_space (hd s) \<and> \<not> is_space (last s)) default_sensitive"
    by (simp add: default_sensitive_def is_space_def)
  then have "TrimSpace name = name"
    using assms by (intro TrimSpace_no_space) (simp add: list_all_iff)
  moreover have "ToLower name |\<in>| fset_of_list (map ToLower default_sensitive)"
    unfolding fset_of_list_elem set_map using assms by (rule imageI)
  ultimately show "ToLower (TrimSpace name) |\<in>| sensitiveHeaderPolicy extra"
    unfolding sensitiveHeaderPolicy_def by simp
qed

section \<open>Redacted headers\<close>

lemma redactWithPolicy_redact_header:
  "redactWithPolicy h policy = redact_header (\<lambda>name. sensitiveHeader name policy) h"
  by (simp add: redactWithPolicy_def redact_header_def)

lemma redactWithPolicy_lookup [simp]:
  "fmlookup (redactWithPolicy h policy) k =
     map_option (\<lambda>v. if sensitiveHeader k policy then [REDACTED] else v) (fmlookup h k)"
  by (simp add: redactWithPolicy_def)

lemma redactWithPolicy_idem [simp]:
  "redactWithPolicy (redactWithPolicy h policy) policy = redactWithPolicy h policy"
proof (rule fmap_ext)
  fix k
  show "fmlookup (redactWithPolicy (redactWithPolicy h policy) policy) k
      = fmlookup (redactWithPolicy h policy) k"
    by (cases "fmlookup h k") simp_all
qed

section \<open>What is forwarded\<close>

lemma forward_values_lookup:
  "fmlookup (forward_values name vs dst) n =
     (if n = CanonicalHeaderKey name \<and> filter (\<lambda>v. v \<noteq> REDACTED) vs \<noteq> []
      then Some (map_get [] dst n @ filter (\<lambda>v. v \<noteq> REDACTED) vs) else fmlookup dst n)"
  unfolding forward_values_def
  by (induction vs arbitrary: dst) (auto simp: header_add_def Let_def map_get_upd)

definition forwarded_as :: "string fset \<Rightarrow> header \<Rightarrow> string \<Rightarrow> string \<Rightarrow> bool" where
  "forwarded_as sensitive src k n \<longleftrightarrow>
     \<not> sensitiveHeader k sensitive \<and> CanonicalHeaderKey k = n \<and> n |\<notin>| drop_names src \<and> n \<noteq> []"

lemma forward_name_get:
  "map_get [] (forward_name sensitive (drop_names src) src k dst) n =
     map_get [] dst n
       @ (if forwarded_as sensitive src k n then filter (\<lambda>v. v \<noteq> REDACTED) (map_get [] src k) else [])"
  by (auto simp: forward_name_def forwarded_as_def Let_def forward_values_lookup map_get_def
      split: option.splits)

lemma forward_fold_get:
  "map_get [] (fold (forward_name sensitive (drop_names src) src) ks dst) n =
     map_get [] dst n
       @ concat (map (\<lambda>k. filter (\<lambda>v. v \<noteq> REDACTED) (map_get [] src k))
           (filter (\<lambda>k. forwarded_as sensitive src k n) ks))"
  by (induction ks arbitrary: dst) (simp_all add: forward_name_get)

lemma forwardHeaders_get:
  "map_get [] (forwardHeaders ord src sensitive) n =
     concat (map (\<lambda>k. filter (\<lambda>v. v \<noteq> REDACTED) (map_get [] src k))
       (filter (\<lambda>k. forwarded_as sensitive src k n) (range_keys ord src)))"
  by (simp add: forwardHeaders_def forward_fold_get)

lemma forward_name_nonempty:
  assumes "\<forall>n. fmlookup dst n \<noteq> Some []"
  shows "fmlookup (forward_name sensitive dropped src k dst) n \<noteq> Some []"
  using assms by (auto simp: forward_name_def Let_def forward_values_lookup split: if_splits)

lemma forward_fold_nonempty:
  "(\<forall>n. fmlookup dst n \<noteq> Some []) \<Longrightarrow>
    \<forall>n. fmlookup (fold (forward_name sensitive dropped src) ks dst) n \<noteq> Some []"
  by (induction ks arbitrary: dst) (simp_all add: forward_name_nonempty)

lemma forwardHeaders_dom:
  assumes "fmlookup (forwardHeaders ord src sensitive) n = Some vs" "range_order ord"
  obtains k where "k |\<in>| fmdom src" "forwarded_as sensitive src k n" "vs \<noteq> []"
    "REDACTED \<notin> set vs"
proof -
  have "vs \<noteq> []"
    using forward_fold_nonempty [of fmempty sensitive "drop_names src" src "range_keys ord src"]
      assms(1) by (auto simp: forwardHeaders_def)
  moreover have v: "vs = concat (map (\<lambda>k. filter (\<lambda>v. v \<noteq> REDACTED) (map_get [] src k))
      (filter (\<lambda>k. forwarded_as sensitive src k n) (range_keys ord src)))"
    using forwardHeaders_get [of ord src sensitive n] assms(1) by simp
  ultimately have "filter (\<lambda>k. forwarded_as sensitive src k n) (range_keys ord src) \<noteq> []"
    by (metis concat.simps(1) list.simps(8))
  then obtain k where "k \<in> set (range_keys ord src)" "forwarded_as sensitive src k n"
    by (auto simp: filter_empty_conv)
  moreover have "REDACTED \<notin> set vs" unfolding v by auto
  ultimately show ?thesis using that \<open>vs \<noteq> []\<close> assms(2) by simp
qed

end
