(* ===== verification/Net_Target.thy ===== *)
theory Net_Target
  imports Relay_Prelude
begin

text \<open>
  The addresses the forwarder may connect to (\<open>blockedIP\<close>, \<open>nonPublicPrefixes\<close> and the
  \<open>DialContext\<close> of \<open>secureClient\<close> in \<open>internal/app/app.go\<close>), over the operations of Go's
  \<open>net/netip\<close> the code calls. An IPv4 address is a 32-bit word, an IPv6 address a 128-bit word
  with its zone (empty for none); \<open>NoAddr\<close> is the zero \<open>netip.Addr\<close>. The lemmas give the same
  decision as a list of intervals of addresses, the form in which the registries state them.
\<close>

section \<open>Addresses (\<open>net/netip\<close>)\<close>

datatype addr = NoAddr | Addr4 "32 word" | Addr6 "128 word" string

definition IsValid :: "addr \<Rightarrow> bool" where
  "IsValid ip \<longleftrightarrow> ip \<noteq> NoAddr"

text \<open>The bytes and 16-bit groups of an address, most significant first.\<close>

definition v4 :: "nat \<Rightarrow> 32 word \<Rightarrow> 32 word" where
  "v4 i a = take_bit 8 (drop_bit ((3 - i) * 8) a)"

definition v6 :: "nat \<Rightarrow> 128 word \<Rightarrow> 128 word" where
  "v6 i a = take_bit 8 (drop_bit ((15 - i) * 8) a)"

definition v6u16 :: "nat \<Rightarrow> 128 word \<Rightarrow> 128 word" where
  "v6u16 i a = take_bit 16 (drop_bit ((7 - i) * 16) a)"

definition addr_from4 :: "32 word \<Rightarrow> 32 word \<Rightarrow> 32 word \<Rightarrow> 32 word \<Rightarrow> addr" where
  "addr_from4 a b c d = Addr4 (push_bit 24 a OR push_bit 16 b OR push_bit 8 c OR d)"

text \<open>An IPv6 address by its first three groups, the rest being zero.\<close>

definition addr_from6 :: "128 word \<Rightarrow> 128 word \<Rightarrow> 128 word \<Rightarrow> addr" where
  "addr_from6 a b c = Addr6 (push_bit 112 a OR push_bit 96 b OR push_bit 80 c) []"

definition is4in6 :: "128 word \<Rightarrow> bool" where
  "is4in6 a \<longleftrightarrow> drop_bit 64 a = 0 \<and> drop_bit 32 (take_bit 64 a) = 0xFFFF"

fun Unmap :: "addr \<Rightarrow> addr" where
  "Unmap (Addr6 a z) = (if is4in6 a then Addr4 (ucast a) else Addr6 a z)"
| "Unmap ip = ip"

fun unicast_loopback :: "addr \<Rightarrow> bool" where
  "unicast_loopback NoAddr = False"
| "unicast_loopback (Addr4 a) = (v4 0 a = 127)"
| "unicast_loopback (Addr6 a z) = (a = 1)"

definition IsLoopback :: "addr \<Rightarrow> bool" where
  "IsLoopback ip = unicast_loopback (Unmap ip)"

fun unmapped_multicast :: "addr \<Rightarrow> bool" where
  "unmapped_multicast NoAddr = False"
| "unmapped_multicast (Addr4 a) = (v4 0 a AND 0xF0 = 0xE0)"
| "unmapped_multicast (Addr6 a z) = (v6 0 a = 0xFF)"

definition IsMulticast :: "addr \<Rightarrow> bool" where
  "IsMulticast ip = unmapped_multicast (Unmap ip)"

fun unmapped_link_local :: "addr \<Rightarrow> bool" where
  "unmapped_link_local NoAddr = False"
| "unmapped_link_local (Addr4 a) = (v4 0 a = 169 \<and> v4 1 a = 254)"
| "unmapped_link_local (Addr6 a z) = (v6u16 0 a AND 0xFFC0 = 0xFE80)"

definition IsLinkLocalUnicast :: "addr \<Rightarrow> bool" where
  "IsLinkLocalUnicast ip = unmapped_link_local (Unmap ip)"

fun unmapped_link_local_multicast :: "addr \<Rightarrow> bool" where
  "unmapped_link_local_multicast NoAddr = False"
| "unmapped_link_local_multicast (Addr4 a) = (v4 0 a = 224 \<and> v4 1 a = 0 \<and> v4 2 a = 0)"
| "unmapped_link_local_multicast (Addr6 a z) = (v6u16 0 a AND 0xFF0F = 0xFF02)"

definition IsLinkLocalMulticast :: "addr \<Rightarrow> bool" where
  "IsLinkLocalMulticast ip = unmapped_link_local_multicast (Unmap ip)"

fun IsInterfaceLocalMulticast :: "addr \<Rightarrow> bool" where
  "IsInterfaceLocalMulticast (Addr6 a z) = (\<not> is4in6 a \<and> v6u16 0 a AND 0xFF0F = 0xFF01)"
| "IsInterfaceLocalMulticast ip = False"

fun unmapped_private :: "addr \<Rightarrow> bool" where
  "unmapped_private NoAddr = False"
| "unmapped_private (Addr4 a) =
     (v4 0 a = 10 \<or> v4 0 a = 172 \<and> v4 1 a AND 0xF0 = 16 \<or> v4 0 a = 192 \<and> v4 1 a = 168)"
| "unmapped_private (Addr6 a z) = (v6 0 a AND 0xFE = 0xFC)"

definition IsPrivate :: "addr \<Rightarrow> bool" where
  "IsPrivate ip = unmapped_private (Unmap ip)"

definition IsUnspecified :: "addr \<Rightarrow> bool" where
  "IsUnspecified ip \<longleftrightarrow> ip = Addr4 0 \<or> ip = Addr6 0 []"

definition IsGlobalUnicast :: "addr \<Rightarrow> bool" where
  "IsGlobalUnicast ip \<longleftrightarrow>
     IsValid ip \<and> Unmap ip \<noteq> Addr4 0 \<and> Unmap ip \<noteq> Addr4 (- 1) \<and> Unmap ip \<noteq> Addr6 0 []
     \<and> \<not> IsLoopback ip \<and> \<not> IsMulticast ip \<and> \<not> IsLinkLocalUnicast ip"

section \<open>Prefixes\<close>

type_synonym ip_prefix = "addr \<times> nat"

text \<open>
  \<open>netip.Prefix.Contains\<close>: an address of the other family, or one with a zone, is never
  contained.
\<close>

fun prefix_contains :: "ip_prefix \<Rightarrow> addr \<Rightarrow> bool" where
  "prefix_contains (Addr4 p, n) (Addr4 a) = (drop_bit (32 - n) (a XOR p) = 0)"
| "prefix_contains (Addr6 p _, n) (Addr6 a z) = (z = [] \<and> drop_bit (128 - n) (a XOR p) = 0)"
| "prefix_contains _ _ = False"

definition nonPublicPrefixes :: "ip_prefix list" where
  "nonPublicPrefixes =
     [(addr_from4 100 64 0 0, 10),
      (addr_from4 192 0 0 0, 24),
      (addr_from4 192 0 2 0, 24),
      (addr_from4 198 18 0 0, 15),
      (addr_from4 198 51 100 0, 24),
      (addr_from4 203 0 113 0, 24),
      (addr_from6 0x64 0xFF9B 0, 96),
      (addr_from6 0x64 0xFF9B 1, 48),
      (addr_from6 0x2001 0 0, 32),
      (addr_from6 0x2001 0xDB8 0, 32),
      (addr_from6 0x2002 0 0, 16)]"

section \<open>The decision\<close>

definition blockedIP :: "addr \<Rightarrow> bool" where
  "blockedIP ip0 =
     (if \<not> IsValid ip0 then True
      else let ip = Unmap ip0 in
        if \<not> IsGlobalUnicast ip \<or> IsLoopback ip \<or> IsPrivate ip \<or> IsLinkLocalUnicast ip
           \<or> IsLinkLocalMulticast ip \<or> IsMulticast ip \<or> IsUnspecified ip
           \<or> IsInterfaceLocalMulticast ip
          then True
        else list_ex (\<lambda>prefix. prefix_contains prefix ip) nonPublicPrefixes)"

text \<open>The address \<open>DialContext\<close> connects to, of those the resolver returned, in its order.\<close>

fun dial_address :: "bool \<Rightarrow> addr list \<Rightarrow> addr option" where
  "dial_address allowPrivate [] = None"
| "dial_address allowPrivate (ip # ips) =
     (if \<not> allowPrivate \<and> blockedIP ip then dial_address allowPrivate ips else Some ip)"

section \<open>Intervals\<close>

text \<open>The interval of a prefix whose low bits are zero.\<close>

definition interval :: "nat \<Rightarrow> nat \<Rightarrow> nat \<times> nat" where
  "interval base host_bits = (base, base + 2 ^ host_bits - 1)"

definition within :: "nat \<Rightarrow> nat \<times> nat \<Rightarrow> bool" where
  "within n r \<longleftrightarrow> fst r \<le> n \<and> n \<le> snd r"

lemma div_eq_range:
  fixes n m q :: nat
  assumes "0 < m"
  shows "n div m = q \<longleftrightarrow> q * m \<le> n \<and> n < Suc q * m"
proof
  show "q * m \<le> n \<and> n < Suc q * m" if "n div m = q"
    using that assms dividend_less_times_div [of m n] times_div_less_eq_dividend [of m n]
    by (auto simp: algebra_simps)
  show "n div m = q" if "q * m \<le> n \<and> n < Suc q * m"
    using that by (intro div_nat_eqI) (simp_all add: algebra_simps)
qed

lemma within_interval: "within n (interval (q * 2 ^ k) k) \<longleftrightarrow> n div 2 ^ k = q"
proof -
  define m where "m = (2::nat) ^ k"
  have m: "0 < m" by (simp add: m_def)
  have "within n (interval (q * m) k) \<longleftrightarrow> q * m \<le> n \<and> n \<le> q * m + m - 1"
    by (simp add: within_def interval_def m_def)
  also have "\<dots> \<longleftrightarrow> q * m \<le> n \<and> n < Suc q * m"
    using m by auto
  finally show ?thesis
    using div_eq_range [OF m, of n q] by (simp add: m_def)
qed

lemma unat_drop_bit:
  fixes a :: "'a::len word"
  shows "unat (drop_bit k a) = unat a div 2 ^ k"
  by (simp only: unat_drop_bit_eq) (simp only: drop_bit_eq_div)

lemma xor_zero_iff:
  fixes a b :: "'a::len word"
  shows "a XOR b = 0 \<longleftrightarrow> a = b"
  by (auto simp: bit_eq_iff bit_simps)

lemma field_xor:
  fixes a b :: "'a::len word"
  shows "drop_bit k a XOR b = 0 \<longleftrightarrow> unat a div 2 ^ k = unat b"
  using word_unat_eq_iff [of "drop_bit k a" b] by (simp only: xor_zero_iff unat_drop_bit)

lemma unat_field:
  fixes a :: "'a::len word"
  shows "unat (take_bit m (drop_bit k a)) = unat a div 2 ^ k mod 2 ^ m"
  by (simp only: unsigned_take_bit_eq unat_drop_bit) (simp only: take_bit_eq_mod)

lemma and_field: "(n :: nat) AND push_bit k (mask m) = 2 ^ k * (n div 2 ^ k mod 2 ^ m)"
proof -
  have "n AND push_bit k (mask m) = push_bit k (take_bit m (drop_bit k n))"
    by (rule bit_eqI) (auto simp: bit_simps)
  then show ?thesis by (simp only: push_bit_eq_mult take_bit_eq_mod drop_bit_eq_div mult.commute)
qed

lemma field_masks:
  "(n :: nat) AND 0xF0 = 2 ^ 4 * (n div 2 ^ 4 mod 2 ^ 4)"
  "(n :: nat) AND 0xFE = 2 ^ 1 * (n div 2 ^ 1 mod 2 ^ 7)"
  "(n :: nat) AND 0xFFC0 = 2 ^ 6 * (n div 2 ^ 6 mod 2 ^ 10)"
  using and_field [of n 4 4] and_field [of n 1 7] and_field [of n 6 10]
  by (simp_all add: mask_eq_exp_minus_1 push_bit_eq_mult)

text \<open>The special-purpose blocks of IPv4 and IPv6, as intervals.\<close>

definition cidr4 :: "nat \<Rightarrow> nat \<Rightarrow> nat \<Rightarrow> nat \<Rightarrow> nat \<Rightarrow> nat \<times> nat" where
  "cidr4 a b c d n = interval (((a * 256 + b) * 256 + c) * 256 + d) (32 - n)"

definition cidr6 :: "nat \<Rightarrow> nat \<Rightarrow> nat \<Rightarrow> nat \<Rightarrow> nat \<times> nat" where
  "cidr6 a b c n = interval (((a * 2 ^ 16 + b) * 2 ^ 16 + c) * 2 ^ 80) (128 - n)"

definition special4 :: "(nat \<times> nat) list" where
  "special4 =
     [cidr4 0 0 0 0 32, cidr4 10 0 0 0 8, cidr4 100 64 0 0 10, cidr4 127 0 0 0 8,
      cidr4 169 254 0 0 16, cidr4 172 16 0 0 12, cidr4 192 0 0 0 24, cidr4 192 0 2 0 24,
      cidr4 192 168 0 0 16, cidr4 198 18 0 0 15, cidr4 198 51 100 0 24, cidr4 203 0 113 0 24,
      cidr4 224 0 0 0 4, cidr4 255 255 255 255 32]"

definition special6 :: "(nat \<times> nat) list" where
  "special6 =
     [cidr6 0 0 0 128, interval 1 0, cidr6 0x64 0xFF9B 0 96, cidr6 0x64 0xFF9B 1 48,
      cidr6 0x2001 0 0 32, cidr6 0x2001 0xDB8 0 32, cidr6 0x2002 0 0 16,
      cidr6 0xFC00 0 0 7, cidr6 0xFE80 0 0 10, cidr6 0xFF00 0 0 8]"

lemma within_aligned:
  assumes "2 ^ k dvd base"
  shows "within m (interval base k) \<longleftrightarrow> m div 2 ^ k = base div 2 ^ k"
  using within_interval [of m "base div 2 ^ k" k] assms by simp

lemma within_special4:
  "list_ex (within n) special4 \<longleftrightarrow>
     n = 0 \<or> n div 2 ^ 24 = 10 \<or> n div 2 ^ 22 = 401 \<or> n div 2 ^ 24 = 127
     \<or> n div 2 ^ 16 = 43518 \<or> n div 2 ^ 20 = 2753 \<or> n div 2 ^ 8 = 12582912
     \<or> n div 2 ^ 8 = 12582914 \<or> n div 2 ^ 16 = 49320 \<or> n div 2 ^ 17 = 25353
     \<or> n div 2 ^ 8 = 12989284 \<or> n div 2 ^ 8 = 13303921 \<or> n div 2 ^ 28 = 14 \<or> n = 2 ^ 32 - 1"
  by (simp add: special4_def cidr4_def within_aligned)

lemma within_special6:
  "list_ex (within n) special6 \<longleftrightarrow>
     n = 0 \<or> n = 1 \<or> n div 2 ^ 32 = 0x64FF9B0000000000000000 \<or> n div 2 ^ 80 = 0x64FF9B0001
     \<or> n div 2 ^ 96 = 0x20010000 \<or> n div 2 ^ 96 = 0x20010DB8 \<or> n div 2 ^ 112 = 0x2002
     \<or> n div 2 ^ 121 = 0x7E \<or> n div 2 ^ 118 = 0x3FA \<or> n div 2 ^ 120 = 0xFF"
  by (simp add: special6_def cidr6_def within_aligned)

text \<open>The classes of \<open>net/netip\<close> in the same form.\<close>

lemma unat_v4: "i < 4 \<Longrightarrow> unat (v4 i a) = unat a div 2 ^ ((3 - i) * 8) mod 256"
  by (simp add: v4_def unat_field del: take_bit_word_eq_self)

lemma unat_less4: "unat (a :: 32 word) < 4294967296"
  using unsigned_less [of a] by simp

lemma unat_less6: "unat (a :: 128 word) < 340282366920938463463374607431768211456"
  using unsigned_less [of a] by simp

lemma unat_v6: "unat (v6 0 a) = unat a div 2 ^ 120"
proof -
  have "unat (v6 0 a) = unat a div 2 ^ 120 mod 2 ^ 8"
    by (simp only: v6_def unat_field) simp
  moreover have "unat a div 2 ^ 120 < 2 ^ 8"
    using unat_less6 [of a] by (simp add: div_less_iff_less_mult)
  ultimately show ?thesis by simp
qed

lemma unat_v6u16: "unat (v6u16 0 a) = unat a div 2 ^ 112"
proof -
  have "unat (v6u16 0 a) = unat a div 2 ^ 112 mod 2 ^ 16"
    by (simp only: v6u16_def unat_field) simp
  moreover have "unat a div 2 ^ 112 < 2 ^ 16"
    using unat_less6 [of a] by (simp add: div_less_iff_less_mult)
  ultimately show ?thesis by simp
qed

lemma div_mod_digits: "b < d \<Longrightarrow> m div d = a \<and> m mod d = b \<longleftrightarrow> m = d * a + b" for m a b d :: nat
  using mult_div_mod_eq [of d m] by auto

lemma high_bits4:
  fixes n :: nat
  shows "n div 16777216 = n div 65536 div 256" "n div 268435456 = n div 65536 div 4096"
    "n div 1048576 = n div 65536 div 16"
  by (simp_all flip: div_mult2_eq)

lemma class4:
  fixes a :: "32 word"
  shows "unicast_loopback (Addr4 a) \<longleftrightarrow> unat a div 16777216 = 127"
    "unmapped_multicast (Addr4 a) \<longleftrightarrow> unat a div 268435456 = 14"
    "unmapped_link_local (Addr4 a) \<longleftrightarrow> unat a div 65536 = 43518"
    "unmapped_private (Addr4 a) \<longleftrightarrow> unat a div 16777216 = 10 \<or> unat a div 1048576 = 2753
       \<or> unat a div 65536 = 49320"
    "unmapped_link_local_multicast (Addr4 a) \<Longrightarrow> unat a div 268435456 = 14"
proof -
  define m where "m = unat a div 65536"
  have m: "m < 65536" using unat_less4 [of a] by (simp add: m_def div_less_iff_less_mult)
  have v: "unat (v4 0 a) = m div 256" "unat (v4 1 a) = m mod 256"
    using m by (simp_all add: unat_v4 high_bits4 m_def div_less_iff_less_mult)
  have d: "unat a div 16777216 = m div 256" "unat a div 268435456 = m div 4096"
    "unat a div 1048576 = m div 16" "unat a div 65536 = m"
    by (simp_all add: high_bits4 m_def)
  show "unicast_loopback (Addr4 a) \<longleftrightarrow> unat a div 16777216 = 127"
    by (simp add: word_unat_eq_iff v d)
  have f: "x AND 240 = 16 * (x div 16 mod 16)" for x :: nat
    using field_masks(1) [of x] by simp
  show "unmapped_multicast (Addr4 a) \<longleftrightarrow> unat a div 268435456 = 14"
  proof -
    have "m div 4096 = m div 256 div 16" by (simp flip: div_mult2_eq)
    moreover have "m div 256 div 16 < 16" using m by (simp add: div_less_iff_less_mult)
    ultimately show ?thesis by (simp add: word_unat_eq_iff unsigned_and_eq v d f)
  qed
  show "unmapped_link_local (Addr4 a) \<longleftrightarrow> unat a div 65536 = 43518"
  proof -
    have "m div 256 = 169 \<and> m mod 256 = 254 \<longleftrightarrow> m = 43518"
      by (simp add: div_mod_digits)
    then show ?thesis by (simp add: word_unat_eq_iff v d del: One_nat_def)
  qed
  show "unmapped_private (Addr4 a) \<longleftrightarrow> unat a div 16777216 = 10 \<or> unat a div 1048576 = 2753
       \<or> unat a div 65536 = 49320"
  proof -
    define q where "q = m div 16"
    have "m div 256 = q div 16" by (simp add: q_def flip: div_mult2_eq)
    moreover have "m mod 256 div 16 = q mod 16"
      using mod_mult2_eq [of m 16 16] by (simp add: q_def)
    moreover have "q div 16 = 172 \<and> 16 * (q mod 16 mod 16) = 16 \<longleftrightarrow> q = 2753"
      using div_mod_digits [of 1 16 q 172] by simp
    ultimately have "m div 256 = 172 \<and> 16 * (m mod 256 div 16 mod 16) = 16 \<longleftrightarrow> m div 16 = 2753"
      by (simp only: q_def)
    moreover have "m div 256 = 192 \<and> m mod 256 = 168 \<longleftrightarrow> m = 49320"
      by (simp add: div_mod_digits)
    moreover have "unmapped_private (Addr4 a) \<longleftrightarrow> m div 256 = 10
        \<or> m div 256 = 172 \<and> 16 * (m mod 256 div 16 mod 16) = 16 \<or> m div 256 = 192 \<and> m mod 256 = 168"
      by (simp add: word_unat_eq_iff unsigned_and_eq v f del: One_nat_def)
    ultimately show ?thesis unfolding d by blast
  qed
  show "unat a div 268435456 = 14" if "unmapped_link_local_multicast (Addr4 a)"
  proof -
    have "m div 256 = 224" using that by (simp add: word_unat_eq_iff v)
    moreover have "m div 4096 = m div 256 div 16" by (simp flip: div_mult2_eq)
    ultimately show ?thesis by (simp add: d)
  qed
qed

text \<open>Constants of the IPv6 classes, kept folded.\<close>

lemma class6:
  fixes a :: "128 word"
  shows "unicast_loopback (Addr6 a z) \<longleftrightarrow> unat a = 1"
    "unmapped_multicast (Addr6 a z) \<longleftrightarrow> unat a div 2 ^ 120 = 0xFF"
    "unmapped_link_local (Addr6 a z) \<longleftrightarrow> unat a div 2 ^ 118 = 0x3FA"
    "unmapped_private (Addr6 a z) \<longleftrightarrow> unat a div 2 ^ 121 = 0x7E"
    "unmapped_link_local_multicast (Addr6 a z) \<Longrightarrow> unat a div 2 ^ 120 = 0xFF"
    "IsInterfaceLocalMulticast (Addr6 a z) \<Longrightarrow> unat a div 2 ^ 120 = 0xFF"
proof -
  define m where "m = unat a div 2 ^ 112"
  have m: "m < 65536"
    using unat_less6 [of a] by (simp add: m_def div_less_iff_less_mult)
  have d: "unat a div 2 ^ 120 = m div 2 ^ 8" "unat a div 2 ^ 121 = m div 2 ^ 9"
    "unat a div 2 ^ 118 = m div 2 ^ 6"
    by (simp_all add: m_def flip: div_mult2_eq)
  have v: "unat (v6 0 a) = m div 2 ^ 8" "unat (v6u16 0 a) = m"
    by (simp_all only: unat_v6 unat_v6u16 d m_def)
  show "unicast_loopback (Addr6 a z) \<longleftrightarrow> unat a = 1"
    by (simp add: word_unat_eq_iff)
  show "unmapped_multicast (Addr6 a z) \<longleftrightarrow> unat a div 2 ^ 120 = 0xFF"
    unfolding d by (simp add: word_unat_eq_iff v)
  have f: "x AND 0xFE = 2 * (x div 2 mod 128)" "x AND 0xFFC0 = 64 * (x div 64 mod 1024)" for x :: nat
    using field_masks(2,3) [of x] by simp_all
  show "unmapped_link_local (Addr6 a z) \<longleftrightarrow> unat a div 2 ^ 118 = 0x3FA"
    unfolding d using m by (simp add: word_unat_eq_iff unsigned_and_eq v f)
  show "unmapped_private (Addr6 a z) \<longleftrightarrow> unat a div 2 ^ 121 = 0x7E"
  proof -
    have "m div 512 = m div 256 div 2" by (simp flip: div_mult2_eq)
    moreover have "m div 256 div 2 < 128" using m by (simp add: div_less_iff_less_mult)
    ultimately show ?thesis
      unfolding d by (simp add: word_unat_eq_iff unsigned_and_eq v f)
  qed
  have g: "m div 256 = 255" if "m AND 0xFF0F = c" "drop_bit 8 c = 255" for c
  proof -
    have "drop_bit 8 m AND drop_bit 8 0xFF0F = 255"
      using that by (simp only: flip: drop_bit_and)
    then have "take_bit 8 (drop_bit 8 m) = 255"
      by (simp add: take_bit_eq_mask mask_eq_exp_minus_1)
    then show ?thesis
      using m by (simp add: take_bit_eq_mod drop_bit_eq_div div_less_iff_less_mult)
  qed
  show "unat a div 2 ^ 120 = 0xFF" if "unmapped_link_local_multicast (Addr6 a z)"
    unfolding d using that g [of "0xFF02"] by (simp add: word_unat_eq_iff unsigned_and_eq v)
  show "unat a div 2 ^ 120 = 0xFF" if "IsInterfaceLocalMulticast (Addr6 a z)"
    unfolding d using that g [of "0xFF01"] by (simp add: word_unat_eq_iff unsigned_and_eq v)
qed

lemma is4in6_iff: "is4in6 a \<longleftrightarrow> unat a div 2 ^ 32 = 0xFFFF"
proof -
  have "unat (drop_bit 64 a) = unat a div 2 ^ 32 div 2 ^ 32"
    by (simp only: unat_drop_bit flip: div_mult2_eq) simp
  moreover have "unat (drop_bit 32 (take_bit 64 a)) = unat a mod 2 ^ 64 div 2 ^ 32"
    by (simp only: unat_drop_bit unsigned_take_bit_eq) (simp only: take_bit_eq_mod)
  moreover have "n mod (2 ^ 32 * 2 ^ 32) div 2 ^ 32 = n div 2 ^ 32 mod 2 ^ 32" for n :: nat
    by (simp only: mod_mult2_eq) simp
  ultimately show ?thesis
    by (auto simp: is4in6_def word_unat_eq_iff div_eq_0_iff simp flip: power_add)
qed

lemma unat_ucast4: "unat (ucast (a :: 128 word) :: 32 word) = unat a mod 2 ^ 32"
  by (simp add: unsigned_ucast_eq take_bit_eq_mod)

text \<open>The reference: the special-purpose blocks, with the mapped IPv4 addresses as themselves.\<close>

fun special :: "addr \<Rightarrow> bool" where
  "special NoAddr = True"
| "special (Addr4 a) = list_ex (within (unat a)) special4"
| "special (Addr6 a z) =
     (if unat a div 2 ^ 32 = 0xFFFF then list_ex (within (unat a mod 2 ^ 32)) special4
      else list_ex (within (unat a)) special6)"

fun zone :: "addr \<Rightarrow> string" where
  "zone (Addr6 a z) = z"
| "zone ip = []"

lemma classes [simp]:
  "IsValid (Addr4 a)" "IsValid (Addr6 b z)" "\<not> IsValid NoAddr"
  "IsLoopback (Addr4 a) = unicast_loopback (Addr4 a)"
  "IsMulticast (Addr4 a) = unmapped_multicast (Addr4 a)"
  "IsLinkLocalUnicast (Addr4 a) = unmapped_link_local (Addr4 a)"
  "IsLinkLocalMulticast (Addr4 a) = unmapped_link_local_multicast (Addr4 a)"
  "IsPrivate (Addr4 a) = unmapped_private (Addr4 a)"
  "IsUnspecified (Addr4 a) \<longleftrightarrow> a = 0"
  by (simp_all add: IsValid_def IsLoopback_def IsMulticast_def IsLinkLocalUnicast_def
      IsLinkLocalMulticast_def IsPrivate_def IsUnspecified_def)

lemma classes6:
  assumes "\<not> is4in6 a"
  shows "IsLoopback (Addr6 a z) = unicast_loopback (Addr6 a z)"
    "IsMulticast (Addr6 a z) = unmapped_multicast (Addr6 a z)"
    "IsLinkLocalUnicast (Addr6 a z) = unmapped_link_local (Addr6 a z)"
    "IsLinkLocalMulticast (Addr6 a z) = unmapped_link_local_multicast (Addr6 a z)"
    "IsPrivate (Addr6 a z) = unmapped_private (Addr6 a z)"
    "IsUnspecified (Addr6 a z) \<longleftrightarrow> a = 0 \<and> z = []"
  using assms by (simp_all add: IsLoopback_def IsMulticast_def IsLinkLocalUnicast_def
      IsLinkLocalMulticast_def IsPrivate_def IsUnspecified_def)

lemma prefixes4:
  "list_ex (\<lambda>p. prefix_contains p (Addr4 a)) nonPublicPrefixes \<longleftrightarrow>
     unat a div 4194304 = 401 \<or> unat a div 256 = 12582912 \<or> unat a div 256 = 12582914
     \<or> unat a div 131072 = 25353 \<or> unat a div 256 = 12989284 \<or> unat a div 256 = 13303921"
  by (simp add: nonPublicPrefixes_def addr_from4_def addr_from6_def field_xor)

lemma prefixes6:
  "list_ex (\<lambda>p. prefix_contains p (Addr6 a z)) nonPublicPrefixes \<longleftrightarrow> z = [] \<and>
     (unat a div 2 ^ 32 = 0x64FF9B0000000000000000 \<or> unat a div 2 ^ 80 = 0x64FF9B0001
      \<or> unat a div 2 ^ 96 = 0x20010000 \<or> unat a div 2 ^ 96 = 0x20010DB8
      \<or> unat a div 2 ^ 112 = 0x2002)"
  by (auto simp: nonPublicPrefixes_def addr_from4_def addr_from6_def field_xor)

lemma blockedIP_v4: "blockedIP (Addr4 a) \<longleftrightarrow> list_ex (within (unat a)) special4"
proof -
  have m: "a = - 1 \<longleftrightarrow> unat a = 2 ^ 32 - 1"
    by (simp add: word_unat_eq_iff unsigned_minus_1_eq_mask mask_eq_exp_minus_1)
  have z: "a = 0 \<longleftrightarrow> unat a = 0" by (simp add: unat_eq_zero)
  show ?thesis
    using class4 [of a] prefixes4 [of a]
    by (auto simp: blockedIP_def IsGlobalUnicast_def within_special4 m z)
qed

lemma blockedIP_v6:
  assumes "\<not> is4in6 a"
  shows "blockedIP (Addr6 a []) \<longleftrightarrow> list_ex (within (unat a)) special6"
proof -
  have z: "a = 0 \<longleftrightarrow> unat a = 0" by (simp add: unat_eq_zero)
  show ?thesis
    using assms class6 [of a "[]"] prefixes6 [of a "[]"]
    by (auto simp: blockedIP_def IsGlobalUnicast_def within_special6 classes6 z)
qed

lemma blockedIP_mapped:
  assumes "is4in6 a"
  shows "blockedIP (Addr6 a z) = blockedIP (Addr4 (ucast a))"
  using assms by (simp add: blockedIP_def Let_def)

lemma blockedIP_special: "zone ip = [] \<Longrightarrow> blockedIP ip = special ip"
proof (induction ip rule: special.induct)
  case 1
  then show ?case by (simp add: blockedIP_def)
next
  case (2 a)
  then show ?case by (simp add: blockedIP_v4)
next
  case (3 a z)
  show ?case
  proof (cases "is4in6 a")
    case True
    then have "unat a div 2 ^ 32 = 0xFFFF" by (simp only: is4in6_iff)
    then show ?thesis
      by (simp only: blockedIP_mapped [OF True] blockedIP_v4 unat_ucast4 special.simps simp_thms if_True)
  next
    case False
    then have "\<not> unat a div 2 ^ 32 = 0xFFFF" unfolding is4in6_iff .
    then show ?thesis
      using 3 blockedIP_v6 [OF False] by (simp only: special.simps if_False zone.simps)
  qed
qed

lemma dial_address_Some:
  "dial_address allow ips = Some ip \<longleftrightarrow>
     (\<exists>before after. ips = before @ ip # after \<and> (allow \<or> \<not> blockedIP ip)
        \<and> list_all (\<lambda>x. \<not> allow \<and> blockedIP x) before)"
proof (induction ips)
  case (Cons x xs)
  show ?case
  proof (cases "\<not> allow \<and> blockedIP x")
    case True
    then have "(\<exists>before after. x # xs = before @ ip # after \<and> (allow \<or> \<not> blockedIP ip)
        \<and> list_all (\<lambda>x. \<not> allow \<and> blockedIP x) before)
      \<longleftrightarrow> (\<exists>before after. xs = before @ ip # after \<and> (allow \<or> \<not> blockedIP ip)
        \<and> list_all (\<lambda>x. \<not> allow \<and> blockedIP x) before)" (is "?l \<longleftrightarrow> ?r")
    proof (intro iffI)
      assume ?l
      then obtain b f where e: "x # xs = b @ ip # f" "allow \<or> \<not> blockedIP ip"
        "list_all (\<lambda>x. \<not> allow \<and> blockedIP x) b" by blast
      then obtain b' where "b = x # b'" using True by (cases b) auto
      then show ?r using e by auto
    next
      assume ?r
      then obtain b f where "xs = b @ ip # f" "allow \<or> \<not> blockedIP ip"
        "list_all (\<lambda>x. \<not> allow \<and> blockedIP x) b" by blast
      then have "x # xs = (x # b) @ ip # f" "list_all (\<lambda>x. \<not> allow \<and> blockedIP x) (x # b)"
        using True by simp_all
      then show ?l using \<open>allow \<or> \<not> blockedIP ip\<close> by blast
    qed
    then show ?thesis using Cons True by simp
  next
    case False
    have "x # xs = before @ ip # after \<and> list_all (\<lambda>x. \<not> allow \<and> blockedIP x) before
        \<longleftrightarrow> before = [] \<and> x = ip \<and> xs = after" for before after
      using False by (cases before) auto
    then show ?thesis using False by auto
  qed
qed simp

lemma dial_address_None:
  "dial_address allow ips = None \<longleftrightarrow> list_all (\<lambda>x. \<not> allow \<and> blockedIP x) ips"
  by (induction ips) auto

end
