(* ===== verification/App_State.thy ===== *)
theory App_State
  imports App_Headers Net_Target
begin

text \<open>
  The state of the application (\<open>App\<close> and \<open>Config\<close> of \<open>internal/app/app.go\<close>), its environment,
  its start, and the check of a forwarding target.

  An \<open>app\<close> holds its configuration, the store, and what its channels and flags hold: the tokens
  in \<open>wake\<close>, the slots taken in \<open>ingestSem\<close>, \<open>accepting\<close> and whether its context is cancelled.
  The configuration's \<open>Store\<close>, \<open>Client\<close>, \<open>Logger\<close> and \<open>IDSource\<close> are the store of the state and
  the environment. A \<open>world\<close> answers what a handler asks its environment: the environment of its
  \<open>i\<close>-th store operation, the \<open>i\<close>-th clock reading and the \<open>i\<close>-th identifier, the parsers of
  \<open>net/url\<close>, \<open>net/netip\<close> and HTTP dates, the exchange with the target, and the polls of the
  context of a search.
\<close>

section \<open>Configuration\<close>

record config =
  c_Secret :: string
  c_ForwardURL :: string
  c_OperatorToken :: string
  c_ForwardAuthorization :: string
  c_SensitiveHeaders :: "string list"
  c_MaxBody :: int
  c_Attempts :: int
  c_Concurrency :: int
  c_QueueSize :: int
  c_MaxInFlight :: int
  c_BaseBackoff :: time
  c_MaxBackoff :: time
  c_LeaseDuration :: time
  c_PollInterval :: time
  c_SearchTimeout :: time
  c_AllowPrivateTargets :: bool
  c_SecureCookies :: bool

abbreviation millisecond :: time where
  "millisecond \<equiv> 1000000"

abbreviation second :: time where
  "second \<equiv> 1000000000"

definition config_defaults :: "config \<Rightarrow> config" where
  "config_defaults c =
     (let concurrency = default_to 4 (c_Concurrency c)
      in c\<lparr>c_MaxBody := default_to (2 ^ 20) (c_MaxBody c),
           c_Attempts := default_to 3 (c_Attempts c),
           c_Concurrency := concurrency,
           c_QueueSize := default_to (concurrency * 16) (c_QueueSize c),
           c_MaxInFlight := default_to 64 (c_MaxInFlight c),
           c_BaseBackoff := default_to (500 * millisecond) (c_BaseBackoff c),
           c_MaxBackoff := default_to (30 * second) (c_MaxBackoff c),
           c_LeaseDuration := default_to (120 * second) (c_LeaseDuration c),
           c_PollInterval := default_to (250 * millisecond) (c_PollInterval c),
           c_SearchTimeout := default_to (2 * second) (c_SearchTimeout c)\<rparr>)"

definition config_ok :: "config \<Rightarrow> bool" where
  "config_ok c \<longleftrightarrow>
     0 < c_MaxBody c \<and> 0 < c_Attempts c \<and> 0 < c_Concurrency c \<and> 0 < c_QueueSize c
     \<and> 0 < c_MaxInFlight c \<and> 0 < c_BaseBackoff c \<and> 0 < c_MaxBackoff c \<and> 0 < c_LeaseDuration c
     \<and> 0 < c_PollInterval c \<and> 0 < c_SearchTimeout c"

lemma config_ok_defaults [simp]: "config_ok (config_defaults c)"
  by (simp add: config_ok_def config_defaults_def default_to_def Let_def)

section \<open>State and environment\<close>

record app =
  a_config :: config
  a_store :: store
  a_wake :: int
  a_accepting :: bool
  a_ingest :: int
  a_cancelled :: bool
  a_sensitive :: "string fset"

text \<open>The parts of a \<open>url.URL\<close> the program reads; \<open>l_User\<close> says whether there is user information.\<close>

record url =
  l_Scheme :: string
  l_User :: bool
  l_Host :: string
  l_Hostname :: string
  l_Path :: string
  l_RawQuery :: string
  l_Fragment :: string

record outgoing =
  o_URL :: string
  o_Body :: string
  o_Headers :: header

record http_reply =
  p_Status :: int
  p_Headers :: header
  p_Body :: string

record world =
  x_env :: "nat \<Rightarrow> env"
  x_now :: "nat \<Rightarrow> time"
  x_id :: "nat \<Rightarrow> string option"
  x_url :: "string \<Rightarrow> string + url"
  x_addr :: "string \<Rightarrow> addr option"
  x_date :: "string \<Rightarrow> time option"
  x_do :: "outgoing \<Rightarrow> http_reply option \<times> string option"
  x_done :: "nat \<Rightarrow> bool"
  x_int64 :: int  \<comment> \<open>the machine's conversion of a \<open>float64\<close> out of the range of \<open>int64\<close>\<close>

section \<open>Targets\<close>

definition validateTarget :: "world \<Rightarrow> string \<Rightarrow> bool \<Rightarrow> string option" where
  "validateTarget x raw allowPrivate =
     (case x_url x raw of
       Inl e \<Rightarrow> Some ''invalid forwarding URL''
     | Inr u \<Rightarrow>
         if l_Scheme u \<noteq> ''http'' \<and> l_Scheme u \<noteq> ''https'' \<or> l_Hostname u = [] \<or> l_User u
           then Some ''invalid forwarding URL''
         else (case x_addr x (l_Hostname u) of
             None \<Rightarrow> None
           | Some ip \<Rightarrow> if \<not> allowPrivate \<and> blockedIP ip
               then Some ''blocked forwarding destination'' else None))"

definition ValidateForwardTarget :: "world \<Rightarrow> string \<Rightarrow> bool \<Rightarrow> string option" where
  "ValidateForwardTarget x raw allowPrivate = validateTarget x raw allowPrivate"

section \<open>Start\<close>

text \<open>A token for the workers, unless the channel is full.\<close>

definition wake_capacity :: "config \<Rightarrow> int" where
  "wake_capacity c = max 1 (c_QueueSize c)"

definition signalWork :: "app \<Rightarrow> app" where
  "signalWork a = (if a_wake a < wake_capacity (a_config a) then a\<lparr>a_wake := a_wake a + 1\<rparr> else a)"

text \<open>\<open>New\<close>; an error of the redaction or of the recovery of leases is logged.\<close>

definition New :: "codec \<Rightarrow> world \<Rightarrow> config \<Rightarrow> store \<Rightarrow> app" where
  "New cd x c0 s0 =
     (let c = config_defaults c0;
          sensitive = sensitiveHeaderPolicy (c_SensitiveHeaders c);
          (s1, redactErr) = RedactHeaders cd (x_env x 0) (Some (\<lambda>name. sensitiveHeader name sensitive)) s0;
          (s2, recoverErr) = RecoverLeases cd (x_env x 1) (x_now x 0) s1
      in signalWork \<lparr>a_config = c, a_store = s2, a_wake = 0, a_accepting = True, a_ingest = 0,
           a_cancelled = False, a_sensitive = sensitive\<rparr>)"

lemma signalWork_sel [simp]:
  "a_config (signalWork a) = a_config a" "a_store (signalWork a) = a_store a"
  "a_accepting (signalWork a) = a_accepting a" "a_ingest (signalWork a) = a_ingest a"
  "a_cancelled (signalWork a) = a_cancelled a" "a_sensitive (signalWork a) = a_sensitive a"
  by (simp_all add: signalWork_def)

lemma signalWork_wake:
  assumes "a_wake a \<le> wake_capacity (a_config a)"
  shows "a_wake (signalWork a) \<le> wake_capacity (a_config a)" "0 \<le> a_wake a \<Longrightarrow> 0 < a_wake (signalWork a)"
  using assms by (auto simp: signalWork_def wake_capacity_def)

end
