(* ===== verification/App_Http.thy ===== *)
theory App_Http
  imports App_State
begin

text \<open>
  The HTTP surface of the application (\<open>internal/app/app.go\<close>): the operator check and its
  sessions, the inbox, the API handlers, the routes and the security headers. A handler takes the
  headers set before it and returns the state it leaves and its response. What \<open>net/http\<close> has
  parsed of a request is a record: the segments of the cleaned path, the query parameters, the
  value of the \<open>relaybox_operator\<close> cookie. The body is what its reader delivers, and whether the
  reader then fails.
\<close>

section \<open>Requests and responses\<close>

record http_request =
  q_Method :: string
  q_Path :: string
  q_Segments :: "string list"
  q_Query :: "string \<Rightarrow> string"
  q_Headers :: header
  q_Cookie :: "string option"
  q_Host :: string
  q_RemoteAddr :: string
  q_TLS :: bool
  q_Body :: string
  q_BodyFails :: bool
  q_Flusher :: bool

record cookie =
  k_Value :: string
  k_Path :: string
  k_HttpOnly :: bool
  k_SameSiteStrict :: bool
  k_Secure :: bool
  k_MaxAge :: int

datatype reply_body =
    NoBody
  | Text string
  | DeliveryJson string bool
  | ConflictJson string string
  | ListJson "request_summary list" int int int bool
  | DetailJson request "attempt list"
  | StatusJson string
  | MetricsJson "(string, int) fmap"
  | EventStream "event list" nat "64 word"
  | StaticFile

record response =
  z_Status :: int
  z_Headers :: header
  z_Cookie :: "cookie option"
  z_Body :: reply_body

text \<open>\<open>http.Error\<close> ends the text with a newline; it also sets \<open>nosniff\<close>, which is set already.\<close>

definition http_error :: "header \<Rightarrow> string \<Rightarrow> int \<Rightarrow> response" where
  "http_error h msg code = \<lparr>z_Status = code,
     z_Headers = header_set ''Content-Type'' ''text/plain; charset=utf-8'' h,
     z_Cookie = None, z_Body = Text (msg @ [CHR 10])\<rparr>"

definition jsonOut :: "header \<Rightarrow> int \<Rightarrow> reply_body \<Rightarrow> response" where
  "jsonOut h status v = \<lparr>z_Status = status,
     z_Headers = header_set ''Content-Type'' ''application/json'' h, z_Cookie = None, z_Body = v\<rparr>"

lemma reply_sel [simp]:
  "z_Status (http_error h m c) = c" "z_Body (http_error h m c) = Text (m @ [CHR 10])"
  "z_Status (jsonOut h c v) = c" "z_Body (jsonOut h c v) = v"
  by (simp_all add: http_error_def jsonOut_def)

text \<open>\<open>errors.Is\<close>, which looks through wrapped errors.\<close>

fun errors_is :: "store_error \<Rightarrow> store_error \<Rightarrow> bool" where
  "errors_is (ErrWrap m e) target \<longleftrightarrow> ErrWrap m e = target \<or> errors_is e target"
| "errors_is e target \<longleftrightarrow> e = target"

section \<open>Operators and sessions\<close>

definition sessionToken :: "string \<Rightarrow> string" where
  "sessionToken operatorToken =
     RawURLEncoding (hmac_sha256 operatorToken ''relaybox/operator-session/v1'')"

definition sameOrigin :: "world \<Rightarrow> config \<Rightarrow> http_request \<Rightarrow> string \<Rightarrow> bool" where
  "sameOrigin x c q rawOrigin =
     (case x_url x rawOrigin of
       Inl e \<Rightarrow> False
     | Inr origin \<Rightarrow>
         if l_User origin \<or> l_Path origin \<noteq> [] \<or> l_RawQuery origin \<noteq> [] \<or> l_Fragment origin \<noteq> []
           then False
         else (let expectedScheme = (if q_TLS q \<or> c_SecureCookies c then ''https'' else ''http'')
               in EqualFold (l_Scheme origin) expectedScheme \<and> EqualFold (l_Host origin) (q_Host q)))"

text \<open>What a request presents as a credential, what it is compared with, and whether it is a cookie.\<close>

definition credential :: "config \<Rightarrow> http_request \<Rightarrow> string \<times> string \<times> bool" where
  "credential c q =
     (let authorization = header_get (q_Headers q) ''Authorization'';
          got = TrimPrefix authorization ''Bearer ''
      in if got = authorization then
           (case q_Cookie q of
             Some v \<Rightarrow> (v, sessionToken (c_OperatorToken c), True)
           | None \<Rightarrow> ([], c_OperatorToken c, False))
         else (got, c_OperatorToken c, False))"

text \<open>The handler wrapped by \<open>operator\<close>; \<open>ConstantTimeCompare\<close> on equal lengths is equality.\<close>

type_synonym handler = "header \<Rightarrow> http_request \<Rightarrow> app \<Rightarrow> app \<times> response"

definition operator :: "world \<Rightarrow> handler \<Rightarrow> handler" where
  "operator x nxt h0 q a =
     (let c = a_config a;
          h = header_set ''Cache-Control'' ''no-store'' h0;
          (got, expected, usedCookie) = credential c q
      in if c_OperatorToken c = [] \<or> length got \<noteq> length expected \<or> got \<noteq> expected then
           (a, http_error (header_set ''WWW-Authenticate'' ''Bearer realm=\"relaybox\"'' h)
                ''operator token required'' 401)
         else if q_Method q \<noteq> ''GET'' \<and> q_Method q \<noteq> ''HEAD'' then
           (let origin = header_get (q_Headers q) ''Origin''
            in if usedCookie \<and> origin = [] then
                 (a, http_error h ''origin required for cookie-authenticated request'' 403)
               else if origin \<noteq> [] \<and> \<not> sameOrigin x c q origin then
                 (a, http_error h ''cross-origin request denied'' 403)
               else nxt h q a)
         else nxt h q a)"

definition session :: handler where
  "session h q a = (a, \<lparr>z_Status = 204, z_Headers = h,
     z_Cookie = Some \<lparr>k_Value = sessionToken (c_OperatorToken (a_config a)), k_Path = ''/api/'',
       k_HttpOnly = True, k_SameSiteStrict = True,
       k_Secure = q_TLS q \<or> c_SecureCookies (a_config a), k_MaxAge = 8 * 60 * 60\<rparr>,
     z_Body = NoBody\<rparr>)"

section \<open>The inbox\<close>

definition verify :: "string \<Rightarrow> string \<Rightarrow> string \<Rightarrow> bool" where
  "verify secret sig body =
     (if \<not> HasPrefix sig ''sha256='' then False
      else (case hex_decode (TrimPrefix sig ''sha256='') of
          None \<Rightarrow> False
        | Some got \<Rightarrow> got = hmac_sha256 secret body))"

text \<open>The slot of \<open>ingestSem\<close>, taken before the body is read and given back at the end.\<close>

definition ingest_begin :: "header \<Rightarrow> app \<Rightarrow> app + response" where
  "ingest_begin h a =
     (if \<not> a_accepting a then Inr (http_error h ''shutting down'' 503)
      else if a_ingest a < c_MaxInFlight (a_config a) then Inl (a\<lparr>a_ingest := a_ingest a + 1\<rparr>)
      else Inr (http_error (header_set ''Retry-After'' ''1'' h) ''too many concurrent deliveries'' 429))"

definition ingest_release :: "app \<Rightarrow> app" where
  "ingest_release a = a\<lparr>a_ingest := a_ingest a - 1\<rparr>"

text \<open>\<open>io.ReadAll\<close> of a \<open>MaxBytesReader\<close>: one byte beyond the limit is already too large.\<close>

datatype body_read = Body string | TooLarge | BadRead

definition read_body :: "int \<Rightarrow> http_request \<Rightarrow> body_read" where
  "read_body limit q =
     (if int (length (q_Body q)) > limit then TooLarge
      else if q_BodyFails q then BadRead else Body (q_Body q))"

definition captured_request :: "world \<Rightarrow> app \<Rightarrow> http_request \<Rightarrow> string \<Rightarrow> string \<Rightarrow> bool \<Rightarrow> request" where
  "captured_request x a q i body verified = \<lparr>r_ID = i,
     r_DeliveryID = header_get (q_Headers q) ''X-GitHub-Delivery'', r_Method = q_Method q,
     r_Path = q_Path q, r_RemoteAddr = q_RemoteAddr q, r_BodySHA256 = sha256_hex body,
     r_ReceivedAt = x_now x 0, r_Headers = redactWithPolicy (q_Headers q) (a_sensitive a),
     r_Body = body, r_SignatureVerified = verified\<rparr>"

text \<open>The forwarding intent of a capture: none without a target, an error response, or a job.\<close>

definition ingest_job :: "world \<Rightarrow> header \<Rightarrow> app \<Rightarrow> string \<Rightarrow> response + job option" where
  "ingest_job x h a rid =
     (let c = a_config a in
      if c_ForwardURL c = [] then Inr None
      else (case validateTarget x (c_ForwardURL c) (c_AllowPrivateTargets c) of
          Some e \<Rightarrow> Inl (http_error h ''invalid forwarding target'' 500)
        | None \<Rightarrow>
            (case x_id x 1 of
              None \<Rightarrow> Inl (http_error h ''entropy unavailable'' 500)
            | Some jobID \<Rightarrow> Inr (Some (zero_job\<lparr>j_ID := jobID, j_RequestID := rid,
                j_URL := c_ForwardURL c, j_State := ''pending'', j_CreatedAt := x_now x 1\<rparr>)))))"

definition terminalJobState :: "string \<Rightarrow> bool" where
  "terminalJobState st \<longleftrightarrow>
     st = ''succeeded'' \<or> st = ''failed'' \<or> st = ''fatal'' \<or> st = ''dead-letter'' \<or> st = ''poison''"

definition ingest_accept ::
    "codec \<Rightarrow> world \<Rightarrow> header \<Rightarrow> request \<Rightarrow> job option \<Rightarrow> app \<Rightarrow> app \<times> response" where
  "ingest_accept cd x h req jo a =
     (let (s', i, result, persisted, err) = Accept cd (x_env x 0) req jo (a_store a);
          a' = a\<lparr>a_store := s'\<rparr>
      in case err of
           Some e \<Rightarrow> (a', if errors_is e ErrCapacity then http_error h ''retention capacity reached'' 507
             else http_error h ''storage failure'' 500)
         | None \<Rightarrow>
             (case result of
               Conflict \<Rightarrow> (a', jsonOut h 409 (ConflictJson i ''delivery ID reused with different body''))
             | Duplicate \<Rightarrow>
                 (case persisted of
                    None \<Rightarrow> a'
                  | Some j \<Rightarrow> if \<not> terminalJobState (j_State j) then signalWork a' else a',
                  jsonOut h 200 (DeliveryJson i True))
             | Captured \<Rightarrow>
                 (if persisted \<noteq> None then signalWork a' else a', jsonOut h 202 (DeliveryJson i False))))"

definition ingest_finish :: "codec \<Rightarrow> world \<Rightarrow> handler" where
  "ingest_finish cd x h q a =
     (case read_body (c_MaxBody (a_config a)) q of
       TooLarge \<Rightarrow> (a, http_error h ''body too large'' 413)
     | BadRead \<Rightarrow> (a, http_error h ''could not read request body'' 400)
     | Body body \<Rightarrow>
         (let secret = c_Secret (a_config a);
              signatureVerified = (secret \<noteq> []
                \<and> verify secret (header_get (q_Headers q) ''X-Hub-Signature-256'') body)
          in if secret \<noteq> [] \<and> \<not> signatureVerified then (a, http_error h ''invalid signature'' 401)
             else (case x_id x 0 of
                 None \<Rightarrow> (a, http_error h ''entropy unavailable'' 500)
               | Some i \<Rightarrow>
                   (case ingest_job x h a i of
                     Inl r \<Rightarrow> (a, r)
                   | Inr jo \<Rightarrow>
                       ingest_accept cd x h (captured_request x a q i body signatureVerified) jo a))))"

definition ingest :: "codec \<Rightarrow> world \<Rightarrow> handler" where
  "ingest cd x h q a =
     (case ingest_begin h a of
       Inr r \<Rightarrow> (a, r)
     | Inl a1 \<Rightarrow> (case ingest_finish cd x h q a1 of (a2, r) \<Rightarrow> (ingest_release a2, r)))"

section \<open>The API\<close>

definition parseBounded :: "string \<Rightarrow> int \<Rightarrow> int \<Rightarrow> int \<Rightarrow> int" where
  "parseBounded s def lo hi =
     (case ParseInt s of None \<Rightarrow> def | Some n \<Rightarrow> if n < lo then lo else if n > hi then hi else n)"

definition list_requests :: "world \<Rightarrow> handler" where
  "list_requests x h q a =
     (if length (q_Query q ''q'') > 256 then (a, http_error h ''search query too long'' 400)
      else (let limit = parseBounded (q_Query q ''limit'') 50 1 200;
                offset = parseBounded (q_Query q ''offset'') 0 0 1000000
            in case ListSummariesContext (x_env x 0) (x_done x) (q_Query q ''q'') offset limit (a_store a) of
                 Inl e \<Rightarrow> (a, http_error h ''search budget exceeded'' 503)
               | Inr (items, n, truncated) \<Rightarrow>
                   (a, jsonOut h 200 (ListJson items n offset limit truncated))))"

definition get_request :: "codec \<Rightarrow> world \<Rightarrow> string \<Rightarrow> handler" where
  "get_request cd x i h q a =
     (case Load cd (x_env x 0) i (a_store a) of
       (s', Inl e) \<Rightarrow> (a\<lparr>a_store := s'\<rparr>, http_error h ''storage failure'' 500)
     | (s', Inr None) \<Rightarrow> (a\<lparr>a_store := s'\<rparr>, http_error h ''404 page not found'' 404)
     | (s', Inr (Some (req, at))) \<Rightarrow>
         (a\<lparr>a_store := s'\<rparr>, jsonOut h 200 (DetailJson (sanitizeRequest (a_sensitive a) req)
            (map (sanitizeAttempt (a_sensitive a)) at))))"

text \<open>\<open>schedule\<close> returns an error of the target, of the identifier source or of the store.\<close>

definition schedule :: "codec \<Rightarrow> world \<Rightarrow> request \<Rightarrow> string \<Rightarrow> app \<Rightarrow> app \<times> store_error option" where
  "schedule cd x req target a =
     (case validateTarget x target (c_AllowPrivateTargets (a_config a)) of
       Some e \<Rightarrow> (a, Some (ErrText e))
     | None \<Rightarrow>
         (case x_id x 0 of
           None \<Rightarrow> (a, Some (ErrText ''entropy unavailable''))
         | Some i \<Rightarrow>
             (let j = zero_job\<lparr>j_ID := i, j_RequestID := r_ID req, j_URL := target,
                    j_State := ''pending'', j_CreatedAt := x_now x 0\<rparr>
              in case Enqueue cd (x_env x 1) j (a_store a) of
                   (s', Some e) \<Rightarrow> (a\<lparr>a_store := s'\<rparr>, Some e)
                 | (s', None) \<Rightarrow> (signalWork (a\<lparr>a_store := s'\<rparr>), None))))"

definition replay :: "codec \<Rightarrow> world \<Rightarrow> string \<Rightarrow> handler" where
  "replay cd x i h q a =
     (case Load cd (x_env x 0) i (a_store a) of
       (s', Inl e) \<Rightarrow> (a\<lparr>a_store := s'\<rparr>, http_error h ''storage failure'' 500)
     | (s', Inr None) \<Rightarrow> (a\<lparr>a_store := s'\<rparr>, http_error h ''404 page not found'' 404)
     | (s', Inr (Some (req, at))) \<Rightarrow>
         if c_ForwardURL (a_config a) = []
           then (a\<lparr>a_store := s'\<rparr>, http_error h ''configured forward URL required'' 400)
         else (case schedule cd x req (c_ForwardURL (a_config a)) (a\<lparr>a_store := s'\<rparr>) of
             (a', Some e) \<Rightarrow>
               (a', if errors_is e ErrCapacity then http_error h ''replay retention capacity reached'' 507
                    else http_error h ''scheduling failed'' 500)
           | (a', None) \<Rightarrow> (a', jsonOut h 202 (StatusJson ''scheduled''))))"

definition metrics :: "world \<Rightarrow> handler" where
  "metrics x h q a = (a, jsonOut h 200 (MetricsJson (JobCounts (x_env x 0) (a_store a))))"

definition healthz :: handler where
  "healthz h q a =
     (if Health (a_store a) \<noteq> None then (a, http_error h ''unhealthy'' 503)
      else (a, \<lparr>z_Status = 200, z_Headers = h, z_Cookie = None, z_Body = Text (''ok'' @ [CHR 10])\<rparr>))"

definition readyz :: handler where
  "readyz h q a =
     (if \<not> a_accepting a \<or> Health (a_store a) \<noteq> None then (a, http_error h ''not ready'' 503)
      else (a, \<lparr>z_Status = 200, z_Headers = h, z_Cookie = None, z_Body = Text (''ready'' @ [CHR 10])\<rparr>))"

section \<open>The event stream\<close>

text \<open>
  The start of a stream: its cursor, the backlog and the channel. What is written to the client
  is the backlog as it is, then of the events received those with a number above the last one
  sent (\<open>stream_received\<close>), each redacted.
\<close>

definition event_cursor :: "http_request \<Rightarrow> app \<Rightarrow> 64 word option" where
  "event_cursor q a =
     (let hdr = header_get (q_Headers q) ''Last-Event-ID'';
          raw = (if hdr = [] then q_Query q ''cursor'' else hdr)
      in if raw = [] then Some (Sequence (a_store a)) else ParseUint raw)"

definition events :: handler where
  "events h q a =
     (if \<not> q_Flusher q then (a, http_error h ''stream unsupported'' 500)
      else (case event_cursor q a of
          None \<Rightarrow> (a, http_error h ''invalid event cursor'' 400)
        | Some seq \<Rightarrow>
            (case SubscribeFrom seq (a_store a) of
              (s', Inl e) \<Rightarrow> (a\<lparr>a_store := s'\<rparr>,
                if errors_is e ErrEventBacklog then http_error h ''event cursor is too old'' 409
                else http_error h ''event storage failure'' 500)
            | (s', Inr (old, ch)) \<Rightarrow> (a\<lparr>a_store := s'\<rparr>,
                \<lparr>z_Status = 200,
                 z_Headers = header_set ''X-Accel-Buffering'' ''no''
                   (header_set ''Cache-Control'' ''no-cache''
                     (header_set ''Content-Type'' ''text/event-stream'' h)),
                 z_Cookie = None,
                 z_Body = EventStream (map (sanitizeEvent (a_sensitive a)) old) ch
                   (if old = [] then seq else e_Seq (last old))\<rparr>))))"

fun stream_received :: "string fset \<Rightarrow> 64 word \<Rightarrow> event list \<Rightarrow> event list" where
  "stream_received sensitive seq [] = []"
| "stream_received sensitive seq (e # es) =
     (if e_Seq e \<le> seq then stream_received sensitive seq es
      else sanitizeEvent sensitive e # stream_received sensitive (e_Seq e) es)"

section \<open>Routes\<close>

datatype endpoint =
    Inbox
  | ListRequests
  | GetRequest string
  | ReplayRequest string
  | Events
  | Metrics
  | Session
  | Healthz
  | Readyz
  | Static
  | NotAllowed

text \<open>
  The patterns of \<open>routes\<close> as \<open>http.ServeMux\<close> matches them: a pattern for \<open>GET\<close> also serves
  \<open>HEAD\<close>, the most specific pattern wins, a wildcard matches one segment, and as the pattern
  \<open>GET /\<close> matches every path, a request no pattern serves has a method that is not allowed.
\<close>

definition is_get :: "string \<Rightarrow> bool" where
  "is_get m \<longleftrightarrow> m = ''GET'' \<or> m = ''HEAD''"

definition routes :: "string \<Rightarrow> string list \<Rightarrow> endpoint" where
  "routes m segs =
     (if m = ''POST'' then
        (case segs of
          [] \<Rightarrow> NotAllowed
        | s # rest \<Rightarrow>
            if s = ''inbox'' then Inbox
            else if segs = [''api'', ''session''] then Session
            else (case rest of
                [r, i, p] \<Rightarrow>
                  if s = ''api'' \<and> r = ''requests'' \<and> p = ''replay'' \<and> i \<noteq> [] then ReplayRequest i
                  else NotAllowed
              | _ \<Rightarrow> NotAllowed))
      else if is_get m then
        (if segs = [''api'', ''requests''] then ListRequests
         else if segs = [''api'', ''events''] then Events
         else if segs = [''api'', ''metrics''] then Metrics
         else if segs = [''healthz''] then Healthz
         else if segs = [''readyz''] then Readyz
         else (case segs of
             [s, r, i] \<Rightarrow>
               if s = ''api'' \<and> r = ''requests'' \<and> i \<noteq> [] then GetRequest i else Static
           | _ \<Rightarrow> Static))
      else NotAllowed)"

fun dispatch :: "codec \<Rightarrow> world \<Rightarrow> endpoint \<Rightarrow> handler" where
  "dispatch cd x Inbox = ingest cd x"
| "dispatch cd x ListRequests = operator x (list_requests x)"
| "dispatch cd x (GetRequest i) = operator x (get_request cd x i)"
| "dispatch cd x (ReplayRequest i) = operator x (replay cd x i)"
| "dispatch cd x Events = operator x events"
| "dispatch cd x Metrics = operator x (metrics x)"
| "dispatch cd x Session = operator x session"
| "dispatch cd x Healthz = healthz"
| "dispatch cd x Readyz = readyz"
| "dispatch cd x Static =
     (\<lambda>h q a. (a, \<lparr>z_Status = 200, z_Headers = h, z_Cookie = None, z_Body = StaticFile\<rparr>))"
| "dispatch cd x NotAllowed = (\<lambda>h q a. (a, http_error h ''Method Not Allowed'' 405))"

definition content_security_policy :: string where
  "content_security_policy =
     ''default-src 'none'; base-uri 'none'; connect-src 'self'; form-action 'self'; ''
       @ ''frame-ancestors 'none'; script-src 'self'; style-src 'self'' @ [CHR 0x27]"

definition security_headers :: "bool \<Rightarrow> header" where
  "security_headers tls =
     fold (\<lambda>(k, v). header_set k v)
       ([(''X-Content-Type-Options'', ''nosniff''),
         (''Content-Security-Policy'', content_security_policy),
         (''Cross-Origin-Opener-Policy'', ''same-origin''),
         (''Permissions-Policy'', ''camera=(), geolocation=(), microphone=()''),
         (''Referrer-Policy'', ''no-referrer''),
         (''X-Frame-Options'', ''DENY'')]
        @ (if tls then [(''Strict-Transport-Security'', ''max-age=31536000'')] else [])) fmempty"

definition serve :: "codec \<Rightarrow> world \<Rightarrow> http_request \<Rightarrow> app \<Rightarrow> app \<times> response" where
  "serve cd x q a =
     dispatch cd x (routes (q_Method q) (q_Segments q)) (security_headers (q_TLS q)) q a"

end
