(* ===== verification/App_Forward.thy ===== *)
theory App_Forward
  imports App_State "HOL-Library.Log_Nat"
begin

text \<open>
  Forwarding (\<open>worker\<close>, \<open>forward\<close>, \<open>retryStatus\<close>, \<open>backoff\<close> and \<open>parseRetry\<close> of
  \<open>internal/app/app.go\<close>). \<open>forward\<close> touches the store at its start and at its end, with the
  exchange with the target between them, during which other goroutines run: \<open>forward_prepare\<close>,
  \<open>forward_exchange\<close> and \<open>forward_record\<close> are these three parts, and \<open>forward\<close> runs them in one
  go. A \<open>time.Duration\<close> is an \<open>int\<close> of nanoseconds, within the range of \<open>int64\<close>.
\<close>

section \<open>Retries\<close>

definition retryStatus :: "int \<Rightarrow> bool" where
  "retryStatus s \<longleftrightarrow> s = 0 \<or> s = 408 \<or> s = 425 \<or> s = 429 \<or> s \<ge> 500 \<and> s \<le> 599"

definition max_duration :: int where
  "max_duration = 2 ^ 63 - 1"

definition maxRetrySeconds :: int where
  "maxRetrySeconds = max_duration div second"

text \<open>\<open>t.Sub(now)\<close> saturates at the ends of the range of a duration.\<close>

definition time_sub :: "time \<Rightarrow> time \<Rightarrow> int" where
  "time_sub t u = max (- (2 ^ 63)) (min max_duration (t - u))"

definition parseRetry :: "(string \<Rightarrow> time option) \<Rightarrow> string \<Rightarrow> time \<Rightarrow> int option" where
  "parseRetry date v now =
     (if v = [] then None
      else (case ParseInt (TrimSpace v) of
          Some seconds \<Rightarrow>
            if seconds \<ge> 0 then Some (min seconds maxRetrySeconds * second)
            else map_option (\<lambda>t. max (time_sub t now) 0) (date v)
        | None \<Rightarrow> map_option (\<lambda>t. max (time_sub t now) 0) (date v)))"

text \<open>
  IEEE 754 binary64 on positive numbers: the nearest multiple of \<open>2 ^ (e - 52)\<close>, ties to even,
  where \<open>2 ^ e\<close> is the largest power of two that is not greater. The numbers of \<open>backoff\<close> are
  far above the subnormal range, and a result too large for \<open>float64\<close> is too large for \<open>int64\<close>.
\<close>

definition exponent :: "rat \<Rightarrow> int" where
  "exponent r = (if 1 \<le> r then bitlen \<lfloor>r\<rfloor> - 1 else - bitlen (\<lceil>1 / r\<rceil> - 1))"

definition nearest_even :: "rat \<Rightarrow> int" where
  "nearest_even r =
     (let f = \<lfloor>r\<rfloor>; d = r - of_int f
      in if d < 1 / 2 \<or> d = 1 / 2 \<and> even f then f else f + 1)"

definition float64 :: "rat \<Rightarrow> rat" where
  "float64 r = (if r = 0 then 0
     else (let u = 2 powi (exponent r - 52) in of_int (nearest_even (r / u)) * u))"

definition jitter :: "string \<Rightarrow> int \<Rightarrow> nat" where
  "jitter jobID n =
     (let sum = sha256 (jobID @ Itoa n) in of_char (sum ! 0) * 2 ^ 8 + of_char (sum ! 1))"

definition backoff_float :: "time \<Rightarrow> string \<Rightarrow> int \<Rightarrow> rat" where
  "backoff_float base0 jobID n =
     (let base = float64 (float64 (of_int base0) * 2 ^ nat (n - 1));
          fraction = float64 (of_nat (jitter jobID n) / 65535)
      in float64 (base * float64 (3 / 4 + float64 (1 / 2 * fraction))))"

definition backoff :: "world \<Rightarrow> config \<Rightarrow> string \<Rightarrow> int \<Rightarrow> int" where
  "backoff x c jobID n =
     (let r = backoff_float (c_BaseBackoff c) jobID n in if r < 2 ^ 63 then \<lfloor>r\<rfloor> else x_int64 x)"

section \<open>One attempt\<close>

datatype forward_plan =
    Abandon
  | Poison string
  | Send string int request

definition forward_prepare ::
    "codec \<Rightarrow> world \<Rightarrow> job \<Rightarrow> store \<Rightarrow> store \<times> forward_plan" where
  "forward_prepare cd x j s =
     (case Load cd (x_env x 0) (j_RequestID j) s of
       (s1, Inl e) \<Rightarrow> (s1, Abandon)
     | (s1, Inr None) \<Rightarrow> (s1, Poison ''request missing'')
     | (s1, Inr (Some (req, as))) \<Rightarrow>
         (let n = AttemptsForJob (x_env x 1) (j_ID j) s1 + 1
          in case x_id x 0 of
               None \<Rightarrow> (s1, Poison ''attempt ID unavailable'')
             | Some attID \<Rightarrow> (s1, Send attID n req)))"

text \<open>The request sent to the target, when its URL parses.\<close>

definition outgoing_of :: "order \<Rightarrow> config \<Rightarrow> string fset \<Rightarrow> job \<Rightarrow> request \<Rightarrow> outgoing" where
  "outgoing_of ord c sensitive j req =
     (let h = forwardHeaders ord (r_Headers req) sensitive;
          h1 = (if c_ForwardAuthorization c \<noteq> []
            then header_set ''Authorization'' (c_ForwardAuthorization c) h else h)
      in \<lparr>o_URL = j_URL j, o_Body = r_Body req,
          o_Headers = header_set ''X-Relaybox-Job-ID'' (j_ID j)
            (header_set ''X-Relaybox-Request-ID'' (r_ID req) h1)\<rparr>)"

record exchange =
  h_Status :: int
  h_Headers :: header
  h_Body :: string
  h_Error :: "string option"
  h_Retry :: "int option"

text \<open>The captured response body is cut at 64 KiB.\<close>

definition forward_exchange ::
    "world \<Rightarrow> config \<Rightarrow> string fset \<Rightarrow> job \<Rightarrow> request \<Rightarrow> exchange" where
  "forward_exchange x c sensitive j req =
     (case x_url x (j_URL j) of
       Inl e \<Rightarrow> \<lparr>h_Status = 0, h_Headers = fmempty, h_Body = [], h_Error = Some e, h_Retry = None\<rparr>
     | Inr u \<Rightarrow>
         (let (resp, err) = x_do x (outgoing_of (w_order (x_env x 2)) c sensitive j req)
          in case resp of
               None \<Rightarrow> \<lparr>h_Status = 0, h_Headers = fmempty, h_Body = [], h_Error = err, h_Retry = None\<rparr>
             | Some p \<Rightarrow> \<lparr>h_Status = p_Status p, h_Headers = redactWithPolicy (p_Headers p) sensitive,
                 h_Body = take (64 * 2 ^ 10) (p_Body p), h_Error = err,
                 h_Retry = parseRetry (x_date x) (header_get (p_Headers p) ''Retry-After'') (x_now x 1)\<rparr>))"

text \<open>The state an attempt leaves its job in, its message, and when the job is due again.\<close>

definition attempt_state ::
    "world \<Rightarrow> config \<Rightarrow> string \<Rightarrow> int \<Rightarrow> exchange \<Rightarrow> time \<Rightarrow> string \<times> string \<times> time" where
  "attempt_state x c jobID n h finished =
     (if h_Error h = None \<and> h_Status h \<ge> 200 \<and> h_Status h < 300 then (''succeeded'', [], zero_time)
      else if h_Error h = None \<and> \<not> retryStatus (h_Status h)
        then (''fatal'', ''non-retryable status '' @ Itoa (h_Status h), zero_time)
      else if n \<ge> c_Attempts c then (''dead-letter'', ''attempts exhausted'', zero_time)
      else (''retrying'', [],
        finished + min (case h_Retry h of Some r \<Rightarrow> r | None \<Rightarrow> backoff x c jobID n) (c_MaxBackoff c)))"

definition attempt_of ::
    "world \<Rightarrow> job \<Rightarrow> request \<Rightarrow> string \<Rightarrow> int \<Rightarrow> exchange \<Rightarrow> attempt" where
  "attempt_of x j req attID n h = \<lparr>a_ID = attID, a_JobID = j_ID j, a_RequestID = r_ID req,
     a_URL = j_URL j, a_Error = (case h_Error h of None \<Rightarrow> [] | Some e \<Rightarrow> e), a_Number = n,
     a_Status = h_Status h, a_StartedAt = x_now x 0, a_FinishedAt = x_now x 2,
     a_ResponseHeaders = h_Headers h, a_ResponseBody = h_Body h\<rparr>"

definition forward_record ::
    "codec \<Rightarrow> world \<Rightarrow> string \<Rightarrow> job \<Rightarrow> request \<Rightarrow> string \<Rightarrow> int \<Rightarrow> exchange \<Rightarrow> app \<Rightarrow> app" where
  "forward_record cd x owner j req attID n h a =
     (let (st, message, availableAt) = attempt_state x (a_config a) (j_ID j) n h (x_now x 2);
          (s', err) = RecordAttempt cd (x_env x 3) (j_ID j) owner (attempt_of x j req attID n h)
            st message availableAt (a_store a);
          a' = a\<lparr>a_store := s'\<rparr>
      in case err of
           Some e \<Rightarrow> a'
         | None \<Rightarrow> if st = ''retrying'' then signalWork a' else a')"

definition forward_poison ::
    "codec \<Rightarrow> world \<Rightarrow> string \<Rightarrow> job \<Rightarrow> string \<Rightarrow> app \<Rightarrow> app" where
  "forward_poison cd x owner j message a =
     a\<lparr>a_store := fst (FinishWithoutAttempt cd (x_env x 3) (j_ID j) owner ''poison'' message (a_store a))\<rparr>"

definition forward :: "codec \<Rightarrow> world \<Rightarrow> string \<Rightarrow> job \<Rightarrow> app \<Rightarrow> app" where
  "forward cd x owner j a =
     (let (s1, plan) = forward_prepare cd x j (a_store a); a1 = a\<lparr>a_store := s1\<rparr>
      in case plan of
           Abandon \<Rightarrow> a1
         | Poison message \<Rightarrow> forward_poison cd x owner j message a1
         | Send attID n req \<Rightarrow>
             forward_record cd x owner j req attID n
               (forward_exchange x (a_config a) (a_sensitive a) j req) a1)"

section \<open>The worker\<close>

text \<open>
  What a worker does once woken: claim and forward jobs until none is eligible, an error, or the
  end of its context. The loop stops when no job is due; \<open>fuel\<close> bounds the rounds looked at, and
  \<open>None\<close> says they were not enough.
\<close>

fun worker_drain :: "codec \<Rightarrow> (nat \<Rightarrow> world) \<Rightarrow> string \<Rightarrow> nat \<Rightarrow> app \<Rightarrow> app option" where
  "worker_drain cd xs owner 0 a = None"
| "worker_drain cd xs owner (Suc fuel) a =
     (let x = xs fuel
      in case ClaimNextJob cd (x_env x 4) owner (x_now x 3) (c_LeaseDuration (a_config a)) (a_store a) of
           (s1, Inl e) \<Rightarrow> Some (a\<lparr>a_store := s1\<rparr>)
         | (s1, Inr None) \<Rightarrow> Some (a\<lparr>a_store := s1\<rparr>)
         | (s1, Inr (Some j)) \<Rightarrow>
             (let a2 = forward cd x owner j (signalWork (a\<lparr>a_store := s1\<rparr>))
              in if a_cancelled a2 then Some a2 else worker_drain cd xs owner fuel a2))"

end
