(* ===== verification/Store_Append_Inv.thy ===== *)
theory Store_Append_Inv
  imports Store_Ops
begin

text \<open>
  What compaction and an append do to the retained state. \<open>compactLocked_cases\<close> and
  \<open>appendLocked_cases\<close> list the possible outcomes of the two; the other theories reason about
  an operation by one of these cases and never unfold the definitions. An append keeps the
  invariants when its event passes validation and is of the shape the operations give it.
\<close>

section \<open>Outcomes of a compaction\<close>

lemma hydrateSnapshotEventLocked_same:
  assumes "hydrateSnapshotEventLocked cd w s e = Inr h"
  shows "map_option r_ID (e_Request h) = map_option r_ID (e_Request e)"
    "map_option a_ID (e_Attempt h) = map_option a_ID (e_Attempt e)"
    "e_Job h = e_Job e" "e_Kind h = e_Kind e" "e_At h = e_At e"
    "e_EvictedRequestIDs h = e_EvictedRequestIDs e" "e_EvictedJobIDs h = e_EvictedJobIDs e"
  using assms
  by (auto simp: hydrateSnapshotEventLocked_def hydrate_request_def hydrate_attempt_def Let_def
      split: option.splits sum.splits if_splits)

definition request_ids :: "event list \<Rightarrow> string fset" where
  "request_ids es = fset_of_list (List.map_filter (\<lambda>e. map_option r_ID (e_Request e)) es)"

definition attempt_ids :: "event list \<Rightarrow> string fset" where
  "attempt_ids es = fset_of_list (List.map_filter (\<lambda>e. map_option a_ID (e_Attempt e)) es)"

lemma ids_simps [simp]:
  "request_ids [] = {||}" "attempt_ids [] = {||}"
  "request_ids (e # es)
    = (case e_Request e of None \<Rightarrow> request_ids es | Some r \<Rightarrow> finsert (r_ID r) (request_ids es))"
  "attempt_ids (e # es)
    = (case e_Attempt e of None \<Rightarrow> attempt_ids es | Some a \<Rightarrow> finsert (a_ID a) (attempt_ids es))"
  by (auto simp: request_ids_def attempt_ids_def map_filter_simps split: option.split)

lemma ids_iff:
  "i |\<in>| request_ids es \<longleftrightarrow> (\<exists>e \<in> set es. \<exists>r. e_Request e = Some r \<and> r_ID r = i)"
  "i |\<in>| attempt_ids es \<longleftrightarrow> (\<exists>e \<in> set es. \<exists>a. e_Attempt e = Some a \<and> a_ID a = i)"
  by (induction es) (auto split: option.split)

lemma write_snapshot_doms:
  assumes "write_snapshot cd w s start i p es = Inr p'"
  shows "fmdom (p_requestRecord p') = request_ids es |\<union>| fmdom (p_requestRecord p)"
    "fmdom (p_attemptRecord p') = attempt_ids es |\<union>| fmdom (p_attemptRecord p)"
  using assms
proof (induction cd w s start i p es rule: write_snapshot.induct)
  case (1 cd w s start i p)
  { case 1 then show ?case by simp }
  { case 2 then show ?case by simp }
next
  case (2 cd w s start i p e es)
  {
    case 1
    then obtain h where h: "hydrateSnapshotEventLocked cd w s e = Inr h"
      by (auto split: sum.splits)
    note same = hydrateSnapshotEventLocked_same [OF h]
    show ?case
      using 1 same(1) "2.IH"(1) [OF h refl]
      by (auto simp: h Let_def split: option.splits)
  }
  {
    case 2
    then obtain h where h: "hydrateSnapshotEventLocked cd w s e = Inr h"
      by (auto split: sum.splits)
    note same = hydrateSnapshotEventLocked_same [OF h]
    show ?case
      using 2 same(2) "2.IH"(2) [OF h refl]
      by (auto simp: h Let_def split: option.splits)
  }
qed

text \<open>Under the invariant a snapshot lists every retained request and every retained attempt.\<close>

lemma snapshot_request_sel [simp]:
  "e_Request (snapshot_request s i) = Some (map_get zero_request (s_requests s) i)"
  "e_Attempt (snapshot_request s i) = None" "e_Job (snapshot_request s i) = None"
  "e_Kind (snapshot_request s i) = ''request.received''"
  by (simp_all add: snapshot_request_def Let_def)

lemma snapshot_job_sel [simp]:
  "e_Request (snapshot_job s i) = None" "e_Attempt (snapshot_job s i) = None"
  "e_Job (snapshot_job s i) = Some (map_get zero_job (s_jobs s) i)"
  by (simp_all add: snapshot_job_def Let_def)

lemma snapshot_attempt_sel [simp]:
  "e_Request (snapshot_attempt a) = None" "e_Attempt (snapshot_attempt a) = Some a"
  "e_Job (snapshot_attempt a) = None"
  by (simp_all add: snapshot_attempt_def)

lemma snapshot_ids:
  assumes "store_inv s" "range_order (w_order w)"
  shows "request_ids (snapshotRecordsLocked w s) = fmdom (s_requests s)"
    "attempt_ids (snapshotRecordsLocked w s) = s_attemptIDs s"
proof -
  have ids: "r_ID (map_get zero_request (s_requests s) i) = i" if "i |\<in>| fmdom (s_requests s)" for i
    using that assms(1) requests_invD(1) [of s i] by (auto simp: store_inv_def fmlookup_dom_iff)
  have mem: "e \<in> set (snapshotRecordsLocked w s) \<longleftrightarrow>
      (\<exists>i. i |\<in>| fmdom (s_requests s) \<and> e \<in> set (snapshot_of_request w s i))" for e
    using assms(2) by (auto simp: snapshotRecordsLocked_def)
  have owner: "rid |\<in>| fmdom (s_requests s)" if "a \<in> set (attempts_of s rid)" for rid a
  proof -
    note here = that
    have "attempts_inv s" "jobs_inv s" using assms(1) by (simp_all add: store_inv_def)
    then obtain j where j: "fmlookup (s_jobs s) (a_JobID a) = Some j" "j_RequestID j = rid"
      using attempts_invD(4) [OF _ here] by auto
    then show ?thesis
      using jobs_invD(3) [OF \<open>jobs_inv s\<close> j(1)] by (auto simp: fmlookup_dom_iff)
  qed
  show "request_ids (snapshotRecordsLocked w s) = fmdom (s_requests s)"
  proof (rule fset_eqI)
    fix i
    show "i |\<in>| request_ids (snapshotRecordsLocked w s) \<longleftrightarrow> i |\<in>| fmdom (s_requests s)"
      unfolding ids_iff mem Bex_def
      using ids by (auto simp: snapshot_of_request_def)
  qed
  show "attempt_ids (snapshotRecordsLocked w s) = s_attemptIDs s"
  proof (rule fset_eqI)
    fix x
    have "x |\<in>| attempt_ids (snapshotRecordsLocked w s)
        \<longleftrightarrow> (\<exists>i. i |\<in>| fmdom (s_requests s)
              \<and> (\<exists>e \<in> set (snapshot_of_request w s i). \<exists>a. e_Attempt e = Some a \<and> a_ID a = x))"
      unfolding ids_iff mem Bex_def by blast
    also have "\<dots> \<longleftrightarrow> (\<exists>i. i |\<in>| fmdom (s_requests s) \<and> x \<in> a_ID ` set (attempts_of s i))"
      by (simp add: snapshot_of_request_def bex_Un image_iff) metis
    also have "\<dots> \<longleftrightarrow> (\<exists>i. x \<in> a_ID ` set (attempts_of s i))"
      using owner by blast
    also have "\<dots> \<longleftrightarrow> x |\<in>| s_attemptIDs s"
      using assms(1) by (simp add: store_inv_def attempts_inv_def)
    finally show "x |\<in>| attempt_ids (snapshotRecordsLocked w s) \<longleftrightarrow> x |\<in>| s_attemptIDs s" .
  qed
qed

text \<open>
  A compaction either fails and leaves all but the file and the descriptor alone, or installs
  the snapshot: a new log, new references, a later sequence number and a counter of 0.
\<close>

definition file_moved :: "store \<Rightarrow> store \<Rightarrow> bool" where
  "file_moved s t \<longleftrightarrow> (\<exists>r h. t = s\<lparr>s_replaced := r, s_handle := h\<rparr>)"

definition snapshot_installed :: "codec \<Rightarrow> env \<Rightarrow> store \<Rightarrow> snapshot_file \<Rightarrow> store \<Rightarrow> bool" where
  "snapshot_installed cd w s p t \<longleftrightarrow>
     write_snapshot cd w s (snapshot_start s (snapshotRecordsLocked w s)) 0
       \<lparr>p_bytes = [], p_requestRecord = fmempty, p_attemptRecord = fmempty\<rparr>
       (snapshotRecordsLocked w s) = Inr p
     \<and> of_nat (length (snapshotRecordsLocked w s)) \<le> (- 1 :: 64 word) - s_seq s
     \<and> t = s\<lparr>s_file := p_bytes p, s_replaced := None, s_handle := True,
           s_seq := s_seq s + of_nat (length (snapshotRecordsLocked w s)), s_eventCount := 0,
           s_requestRecord := p_requestRecord p, s_attemptRecord := p_attemptRecord p\<rparr>"

lemma install_snapshot_cases:
  assumes "install_snapshot w records p s = (t, x)"
  obtains "x \<noteq> None" "file_moved s t"
  | "t = s\<lparr>s_file := p_bytes p, s_replaced := None, s_handle := True,
       s_seq := s_seq s + of_nat (length records), s_eventCount := 0,
       s_requestRecord := p_requestRecord p, s_attemptRecord := p_attemptRecord p\<rparr>"
proof -
  have seq: "(if records \<noteq> [] then snapshot_start s records + of_nat (length records) - 1 else s_seq s)
      = s_seq s + of_nat (length records)"
    by (simp add: snapshot_start_def)
  have m: "file_moved s (s\<lparr>s_handle := h\<rparr>)" "file_moved s s"
    "file_moved s (s\<lparr>s_replaced := r, s_handle := h\<rparr>)" "file_moved s (s\<lparr>s_replaced := r\<rparr>)" for r h
    unfolding file_moved_def
    by (rule exI [of _ "s_replaced s"], rule exI [of _ h], simp)
      (rule exI [of _ "s_replaced s"], rule exI [of _ "s_handle s"], simp, blast,
       rule exI [of _ r], rule exI [of _ "s_handle s"], simp)
  have fe: "w_fails w RenameTemp \<noteq> None \<Longrightarrow> first_error w [RenameTemp] \<noteq> None"
    by (auto simp: first_error_def sys_error_def)
  show ?thesis
  proof (cases "x = None \<or> \<not> file_moved s t")
    case True
    then show ?thesis
      using assms that(2) m fe
      unfolding install_snapshot_def Let_def seq
      by (auto simp: sys_error_def simp del: first_error_def split: if_splits option.splits)
  next
    case False
    then show ?thesis using that(1) by blast
  qed
qed

lemma compactLocked_cases:
  assumes "compactLocked cd w s = (t, x)"
  obtains (failed) "x \<noteq> None" "file_moved s t"
  | (installed) p where "snapshot_installed cd w s p t"
proof -
  let ?rs = "snapshotRecordsLocked w s"
  have same: "file_moved s s"
    unfolding file_moved_def by (rule exI [of _ "s_replaced s"], rule exI [of _ "s_handle s"], simp)
  show ?thesis
  proof (cases "x \<noteq> None \<and> t = s")
    case True
    then show ?thesis using failed same by simp
  next
    case False
    then obtain p where
      room: "\<not> of_nat (length ?rs) > (- 1 :: 64 word) - s_seq s" and
      p: "write_snapshot cd w s (snapshot_start s ?rs) 0
        \<lparr>p_bytes = [], p_requestRecord = fmempty, p_attemptRecord = fmempty\<rparr> ?rs = Inr p" and
      i: "install_snapshot w ?rs p s = (t, x)"
      using assms by (auto simp: compactLocked_def Let_def split: if_splits option.splits sum.splits)
    from i show ?thesis
    proof (cases rule: install_snapshot_cases)
      case 1
      then show ?thesis by (rule failed)
    next
      case 2
      then show ?thesis
        using installed [of p] p room by (simp add: snapshot_installed_def not_less)
    qed
  qed
qed

text \<open>What a compaction leaves alone, whatever its outcome.\<close>

definition same_but_log :: "store \<Rightarrow> store \<Rightarrow> bool" where
  "same_but_log s t \<longleftrightarrow>
     s_opts t = s_opts s \<and> s_requests t = s_requests s \<and> s_attempts t = s_attempts s
     \<and> s_attemptIDs t = s_attemptIDs s \<and> s_jobs t = s_jobs s
     \<and> s_jobsByRequest t = s_jobsByRequest s \<and> s_delivery t = s_delivery s \<and> s_body t = s_body s
     \<and> s_requestBytes t = s_requestBytes s \<and> s_search t = s_search s \<and> s_chans t = s_chans s
     \<and> s_subs t = s_subs s \<and> s_ring t = s_ring s \<and> s_ringBytes t = s_ringBytes s
     \<and> s_health t = s_health s \<and> s_closed t = s_closed s"

lemma compactLocked_same:
  assumes "compactLocked cd w s = (t, x)"
  shows "same_but_log s t"
  using assms
  by (cases rule: compactLocked_cases)
    (auto simp: file_moved_def snapshot_installed_def same_but_log_def)

lemma compactLocked_inv [keep_inv]:
  assumes "compactLocked cd w s = (t, x)" "store_inv s" "range_order (w_order w)"
  shows "store_inv t"
  using assms(1)
proof (cases rule: compactLocked_cases)
  case failed
  then have "retained_of t = retained_of s" by (auto simp: file_moved_def retained_of_def)
  then show ?thesis using assms(2) store_inv_retained by blast
next
  case (installed p)
  let ?rs = "snapshotRecordsLocked w s"
  have t: "t = s\<lparr>s_file := p_bytes p, s_replaced := None, s_handle := True,
      s_seq := s_seq s + of_nat (length ?rs), s_eventCount := 0,
      s_requestRecord := p_requestRecord p, s_attemptRecord := p_attemptRecord p\<rparr>"
    and p: "write_snapshot cd w s (snapshot_start s ?rs) 0
      \<lparr>p_bytes = [], p_requestRecord = fmempty, p_attemptRecord = fmempty\<rparr> ?rs = Inr p"
    using installed by (auto simp: snapshot_installed_def)
  have "fmdom (p_requestRecord p) = fmdom (s_requests s)"
    "fmdom (p_attemptRecord p) = s_attemptIDs s"
    using write_snapshot_doms [OF p] snapshot_ids [OF assms(2,3)] by simp_all
  then show ?thesis
    using assms(2) by (simp add: t store_inv_def inv_defs)
qed

section \<open>Outcomes of an append\<close>

text \<open>
  An event is admitted when the store is open and healthy and validation accepts it; \<open>b\<close> is its
  encoding. \<open>logged\<close> is the store once the record is synced and applied.
\<close>

definition admitted :: "codec \<Rightarrow> env \<Rightarrow> event \<Rightarrow> store \<Rightarrow> string \<Rightarrow> bool" where
  "admitted cd w e s b \<longleftrightarrow>
     \<not> s_closed s \<and> s_health s = None \<and> s_handle s
     \<and> validateRecoveredEvent (stamped w s e) = None
     \<and> validateStateLocked s (stamped w s e) = None
     \<and> Marshal cd (stamped w s e) = Some b \<and> length b < maxEventBytes"

definition logged :: "codec \<Rightarrow> env \<Rightarrow> event \<Rightarrow> string \<Rightarrow> store \<Rightarrow> store" where
  "logged cd w e b s =
     (let t = apply_event cd (stamped w s e)
            \<lparr>ref_offset = length (s_file s), ref_length = length b + 1, ref_seq = s_seq s + 1\<rparr>
            (s\<lparr>s_seq := s_seq s + 1, s_file := s_file s @ b @ [newline]\<rparr>)
      in t\<lparr>s_eventCount := s_eventCount s + 1\<rparr>)"

text \<open>
  A refused append changes nothing, or poisons the store; then the file may have grown by the
  beginning of the record.
\<close>

definition refused :: "codec \<Rightarrow> env \<Rightarrow> event \<Rightarrow> store \<Rightarrow> store \<Rightarrow> bool" where
  "refused cd w e s t \<longleftrightarrow>
     t = s
     \<or> (\<exists>h. s_health s = None \<and> t = s\<lparr>s_health := Some h\<rparr>)
     \<or> (\<exists>b n h. admitted cd w e s b
          \<and> t = s\<lparr>s_seq := s_seq s + 1, s_file := s_file s @ take n (b @ [newline]),
                s_health := Some h\<rparr>)"

lemma validateStateLocked_cong:
  assumes "s_requests s = s_requests t" "s_jobs s = s_jobs t" "s_attemptIDs s = s_attemptIDs t"
  shows "validateStateLocked s e = validateStateLocked t e"
  unfolding validateStateLocked_def assms by (rule refl)

lemma validateStateLocked_seq [simp]:
  "validateStateLocked (s\<lparr>s_seq := q\<rparr>) e = validateStateLocked s e"
  by (rule validateStateLocked_cong) simp_all

lemma write_event_cases:
  assumes "write_event cd w e b s = (t, x)"
  obtains (failed) n h where "x = Inl h" "t = s\<lparr>s_file := s_file s @ take n b, s_health := Some h\<rparr>"
  | (written) "commit_event cd w e \<lparr>ref_offset = length (s_file s), ref_length = length b,
        ref_seq = e_Seq e\<rparr> (append_bytes b s) = (t, x)"
proof (cases "\<exists>n h. x = Inl h \<and> t = s\<lparr>s_file := s_file s @ take n b, s_health := Some h\<rparr>")
  case True
  then show ?thesis using failed by blast
next
  case False
  obtain n m where wr: "w_write w (length b) = (n, m)" by fastforce
  let ?s = "\<lambda>k. s\<lparr>s_file := s_file s @ take k b\<rparr>"
  have no: "(poisoned h (?s k), Inl h) \<noteq> (t, x)" for h k
    using False by (auto simp: poisoned_def)
  have "m = None" "n = length b" "first_error w [BeforeSync, SyncFile] = None"
    using assms no [of _ n] unfolding write_event_def wr Let_def append_bytes_def
    by (auto split: option.splits if_splits)
  then show ?thesis
    using assms written by (simp add: write_event_def wr append_bytes_def)
qed

lemma commit_event_cases:
  assumes "commit_event cd w e ref s = (t, x)"
    "u = (apply_event cd e ref s)\<lparr>s_eventCount := s_eventCount s + 1\<rparr>"
  obtains (stored) "x = Inr e" "t = publish e u" "s_eventCount u \<le> MaxEvents (s_opts u)"
  | (compacted) v where "x = Inr e" "compactLocked cd w u = (v, None)" "t = publish e v"
      "s_eventCount u > MaxEvents (s_opts u)"
  | (failed) v h where "x = Inl h" "compactLocked cd w u = (v, Some h)" "t = poisoned h v"
  using assms
  by (auto simp: commit_event_def Let_def split: if_splits prod.splits option.splits)

lemma appendLocked_cases:
  assumes "appendLocked cd w e s = (t, x)"
  obtains (refused) h where "x = Inl h" "refused cd w e s t"
  | (stored) b where "admitted cd w e s b" "x = Inr (stamped w s e)"
      "t = publish (stamped w s e) (logged cd w e b s)"
      "s_eventCount s < MaxEvents (s_opts s)"
  | (compacted) b v where "admitted cd w e s b" "x = Inr (stamped w s e)"
      "compactLocked cd w (logged cd w e b s) = (v, None)"
      "t = publish (stamped w s e) v"
  | (failed) b v h where "admitted cd w e s b" "x = Inl h"
      "compactLocked cd w (logged cd w e b s) = (v, Some h)" "t = poisoned h v"
proof (cases "(\<exists>h. x = Inl h) \<and> refused cd w e s t")
  case True
  then show ?thesis using refused by blast
next
  case False
  let ?e = "stamped w s e" and ?s = "s\<lparr>s_seq := s_seq s + 1\<rparr>"
  have restored: "?s\<lparr>s_seq := s_seq ?s - 1\<rparr> = s" by simp
  have "refused cd w e s s" "s_health s = None \<Longrightarrow> refused cd w e s (poisoned h s)" for h
    by (auto simp: refused_def poisoned_def)
  with False assms obtain b where
    m: "Marshal cd ?e = Some b" and
    adm: "admitted cd w e s b" and
    wr: "write_event cd w ?e (b @ [newline]) ?s = (t, x)"
    unfolding appendLocked_def Let_def restored validateStateLocked_seq
    by (auto simp: admitted_def split: if_splits option.splits)
  from wr show ?thesis
  proof (cases rule: write_event_cases)
    case (failed n h)
    then have "refused cd w e s t" using adm by (auto simp: refused_def)
    then show ?thesis using False failed by blast
  next
    case written
    have len: "length (b @ [newline]) = length b + 1" and sq: "e_Seq ?e = s_seq s + 1"
      by (simp_all add: stamped_def)
    have u: "logged cd w e b s = (apply_event cd ?e \<lparr>ref_offset = length (s_file ?s),
          ref_length = length (b @ [newline]), ref_seq = e_Seq ?e\<rparr>
          (append_bytes (b @ [newline]) ?s))\<lparr>s_eventCount := s_eventCount (append_bytes (b @ [newline]) ?s) + 1\<rparr>"
      unfolding len sq by (simp add: logged_def append_bytes_def)
    have c: "s_eventCount (logged cd w e b s) = s_eventCount s + 1"
      "s_opts (logged cd w e b s) = s_opts s"
      by (simp_all add: logged_def Let_def)
    from written u show ?thesis
    proof (cases rule: commit_event_cases)
      case stored
      then show ?thesis using adm c by (intro that(2)) auto
    next
      case (compacted v)
      then show ?thesis using adm that(3) by blast
    next
      case (failed v h)
      then show ?thesis using adm that(4) by blast
    qed
  qed
qed

section \<open>Validated events\<close>

text \<open>
  What validation leaves open: a lone attempt may name a job of another request, and an event
  may evict the request of its own job. The events the operations append do neither.
\<close>

definition self_contained :: "event \<Rightarrow> bool" where
  "self_contained e \<longleftrightarrow> e_Kind e \<noteq> ''attempt.finished''
     \<and> (case e_Job e of None \<Rightarrow> True
        | Some j \<Rightarrow> e_Request e \<noteq> None \<or> j_RequestID j \<notin> set (e_EvictedRequestIDs e))"

lemma stamped_sel [simp]:
  "e_Seq (stamped w s e) = s_seq s + 1" "e_Kind (stamped w s e) = e_Kind e"
  "e_Request (stamped w s e) = e_Request e" "e_Job (stamped w s e) = e_Job e"
  "e_Attempt (stamped w s e) = e_Attempt e" "\<not> e_Snapshot (stamped w s e)"
  "e_EvictedRequestIDs (stamped w s e) = e_EvictedRequestIDs e"
  "e_EvictedJobIDs (stamped w s e) = e_EvictedJobIDs e"
  by (simp_all add: stamped_def)

lemma self_contained_stamped [simp]: "self_contained (stamped w s e) = self_contained e"
  unfolding self_contained_def stamped_sel ..

lemma validateStateLockedD:
  assumes "validateStateLocked s e = None"
  shows "e_Request e = Some r \<Longrightarrow> fmlookup (s_requests s) (r_ID r) = None"
    "e_Job e = Some j \<Longrightarrow> fmlookup (s_jobs s) (j_ID j) = Some j0 \<Longrightarrow> j_RequestID j0 = j_RequestID j"
    "e_Job e = Some j \<Longrightarrow> fmlookup (s_jobs s) (j_ID j) = None \<Longrightarrow>
      fmlookup (s_requests s) (j_RequestID j) \<noteq> None
      \<or> (\<exists>r. e_Request e = Some r \<and> r_ID r = j_RequestID j)"
    "e_Attempt e = Some a \<Longrightarrow> a_ID a |\<notin>| s_attemptIDs s"
  using assms
  by (auto simp: validateStateLocked_def Let_def split: option.splits if_splits)

lemma validateRecoveredEventD:
  assumes "validateRecoveredEvent e = None" "e_Kind e \<noteq> ''attempt.finished''"
  shows "e_Request e = Some r \<Longrightarrow> r_ID r \<noteq> []"
    "e_Job e = Some j \<Longrightarrow> j_ID j \<noteq> [] \<and> job_state_ok (j_State j)"
    "e_Job e = Some j \<Longrightarrow> e_Request e = Some r \<Longrightarrow> r_ID r = j_RequestID j"
    "e_Attempt e = Some a \<Longrightarrow> validateAttempt a = None
      \<and> (\<exists>j. e_Job e = Some j \<and> a_JobID a = j_ID j \<and> a_RequestID a = j_RequestID j)"
proof -
  have st: "job_state_ok (TrimPrefix k ''forward.'')" if "k \<in> set job_kinds" for k
    using job_kind_forward [OF that] that by (simp add: job_state_ok_def)
  show "e_Request e = Some r \<Longrightarrow> r_ID r \<noteq> []"
    "e_Job e = Some j \<Longrightarrow> j_ID j \<noteq> [] \<and> job_state_ok (j_State j)"
    "e_Job e = Some j \<Longrightarrow> e_Request e = Some r \<Longrightarrow> r_ID r = j_RequestID j"
    "e_Attempt e = Some a \<Longrightarrow> validateAttempt a = None
      \<and> (\<exists>j. e_Job e = Some j \<and> a_JobID a = j_ID j \<and> a_RequestID a = j_RequestID j)"
    using assms st [of "e_Kind e"]
    by (auto simp: validateRecoveredEvent_def split: option.splits if_splits)
qed

lemma validated_fits:
  assumes "store_inv s" "validateRecoveredEvent e = None" "validateStateLocked s e = None"
    "self_contained e"
  shows "event_fits s e"
proof -
  have k: "e_Kind e \<noteq> ''attempt.finished''"
    and ev: "e_Job e = Some j \<Longrightarrow> e_Request e \<noteq> None \<or> j_RequestID j \<notin> set (e_EvictedRequestIDs e)" for j
    using assms(4) by (auto simp: self_contained_def split: option.splits)
  note v = validateRecoveredEventD [OF assms(2) k] and vs = validateStateLockedD [OF assms(3)]
  have req: "fmlookup (s_requests s) (j_RequestID j) \<noteq> None
      \<or> (\<exists>r. e_Request e = Some r \<and> r_ID r = j_RequestID j)" if j: "e_Job e = Some j" for j
  proof (cases "fmlookup (s_jobs s) (j_ID j)")
    case None
    then show ?thesis using vs(3) [OF j] by simp
  next
    case (Some j0)
    then show ?thesis
      using vs(2) [OF j Some] jobs_invD(3) [of s "j_ID j" j0] assms(1) by (simp add: store_inv_def)
  qed
  have job: "fmlookup (s_requests s) (j_RequestID j) \<noteq> None
      \<and> j_RequestID j \<notin> set (e_EvictedRequestIDs e)
      \<or> (\<exists>r. e_Request e = Some r \<and> r_ID r = j_RequestID j)" if j: "e_Job e = Some j" for j
    using req [OF j] ev [OF j] v(3) [OF j] by auto
  have old: "\<forall>j0. fmlookup (s_jobs s) (j_ID j) = Some j0 \<longrightarrow> j_RequestID j0 = j_RequestID j"
    if j: "e_Job e = Some j" for j
    using vs(2) [OF j] by blast
  have att: "validateAttempt a = None \<and> a_ID a |\<notin>| s_attemptIDs s
      \<and> (\<exists>j. e_Job e = Some j \<and> a_JobID a = j_ID j \<and> a_RequestID a = j_RequestID j)"
    if a: "e_Attempt e = Some a" for a
    using v(4) [OF a] vs(4) [OF a] by simp
  show ?thesis
    unfolding event_fits_def
  proof (intro conjI)
    show "case e_Request e of None \<Rightarrow> True
        | Some r \<Rightarrow> r_ID r \<noteq> [] \<and> fmlookup (s_requests s) (r_ID r) = None"
      using v(1) vs(1) by (cases "e_Request e") simp_all
  next
    show "case e_Job e of None \<Rightarrow> True | Some j \<Rightarrow>
        j_ID j \<noteq> [] \<and> job_state_ok (j_State j)
        \<and> (fmlookup (s_requests s) (j_RequestID j) \<noteq> None
             \<and> j_RequestID j \<notin> set (e_EvictedRequestIDs e)
           \<or> (\<exists>r. e_Request e = Some r \<and> r_ID r = j_RequestID j))
        \<and> (\<forall>j0. fmlookup (s_jobs s) (j_ID j) = Some j0 \<longrightarrow> j_RequestID j0 = j_RequestID j)"
    proof (cases "e_Job e")
      case (Some j)
      show ?thesis
        unfolding Some option.case using v(2) [OF Some] job [OF Some] old [OF Some] by blast
    qed simp
  next
    show "case e_Attempt e of None \<Rightarrow> True | Some a \<Rightarrow>
        validateAttempt a = None \<and> a_ID a |\<notin>| s_attemptIDs s
        \<and> (case e_Job e of
             Some j \<Rightarrow> a_JobID a = j_ID j \<and> a_RequestID a = j_RequestID j
           | None \<Rightarrow> (\<exists>j. fmlookup (s_jobs s) (a_JobID a) = Some j \<and> j_RequestID j = a_RequestID a)
               \<and> a_RequestID a \<notin> set (e_EvictedRequestIDs e)
               \<and> a_JobID a \<notin> set (e_EvictedJobIDs e))"
    proof (cases "e_Attempt e")
      case (Some a)
      then obtain j where "e_Job e = Some j" using att by blast
      then show ?thesis unfolding Some option.case using att [OF Some] by auto
    qed simp
  qed
qed

section \<open>An append keeps the invariants\<close>

lemma publish_same [simp]:
  "retained_of (publish e s) = retained_of s" "s_opts (publish e s) = s_opts s"
  "s_ring (publish e s) = s_ring s" "s_ringBytes (publish e s) = s_ringBytes s"
  "s_file (publish e s) = s_file s" "s_handle (publish e s) = s_handle s"
  "s_health (publish e s) = s_health s" "s_closed (publish e s) = s_closed s"
  "s_seq (publish e s) = s_seq s" "s_replaced (publish e s) = s_replaced s"
  "s_eventCount (publish e s) = s_eventCount s"
  by (simp_all add: publish_def retained_of_def)

lemma refused_same:
  assumes "refused cd w e s t"
  shows "retained_of t = retained_of s" "s_opts t = s_opts s" "s_ring t = s_ring s"
    "s_ringBytes t = s_ringBytes s" "s_chans t = s_chans s" "s_subs t = s_subs s"
    "s_closed t = s_closed s" "s_handle t = s_handle s" "s_replaced t = s_replaced s"
    "s_eventCount t = s_eventCount s"
  using assms by (auto simp: refused_def retained_of_def)

lemma logged_inv:
  assumes "store_inv s" "admitted cd w e s b" "self_contained e"
  shows "store_inv (logged cd w e b s)"
proof -
  let ?s = "s\<lparr>s_seq := s_seq s + 1, s_file := s_file s @ b @ [newline]\<rparr>"
  let ?ref = "\<lparr>ref_offset = length (s_file s), ref_length = length b + 1, ref_seq = s_seq s + 1\<rparr>"
  have r: "retained_of ?s = retained_of s" by (simp add: retained_of_def)
  have "event_fits s (stamped w s e)"
    using assms by (intro validated_fits) (auto simp: admitted_def)
  then have "store_inv (apply_event cd (stamped w s e) ?ref ?s)"
    using assms(1) store_inv_retained [OF r] event_fits_retained [OF r]
    by (intro apply_event_inv) simp_all
  then show ?thesis
    using store_inv_retained [of "logged cd w e b s" "apply_event cd (stamped w s e) ?ref ?s"]
    by (simp add: logged_def Let_def retained_of_def)
qed

lemma appendLocked_inv [keep_inv]:
  assumes "appendLocked cd w e s = (t, x)" "store_inv s" "self_contained e"
    "range_order (w_order w)"
  shows "store_inv t"
  using assms(1)
proof (cases rule: appendLocked_cases)
  case (refused h)
  then show ?thesis using store_inv_retained refused_same(1) assms(2) by blast
next
  case (stored b)
  then show ?thesis
    using logged_inv [OF assms(2) stored(1) assms(3)] store_inv_retained publish_same(1) by metis
next
  case (compacted b v)
  then have "store_inv v" using compactLocked_inv logged_inv assms by blast
  then show ?thesis using compacted(4) store_inv_retained publish_same(1) by metis
next
  case (failed b v h)
  then have "store_inv v" using compactLocked_inv logged_inv assms by blast
  moreover have "retained_of (poisoned h v) = retained_of v"
    by (simp add: poisoned_def retained_of_def)
  ultimately show ?thesis using failed(4) store_inv_retained by blast
qed

end
