(* ===== verification/Store_Keys.thy ===== *)
theory Store_Keys
  imports Store_Append_Inv
begin

text \<open>
  Idempotency keys: \<open>dedup_inv\<close>, that the key of every retained request leads to it, is kept by
  every event whose request has a key that is not in use. With \<open>keys_inv\<close> it says that the two
  key maps are exactly the keys of the retained requests.
\<close>

section \<open>Removal forgets the key of the removed request only\<close>

lemma removeJob_keys [simp]:
  "s_requests (removeJob i s) = s_requests s" "s_delivery (removeJob i s) = s_delivery s"
  "s_body (removeJob i s) = s_body s"
  by (simp_all add: removeJob_def Let_def split: option.split)

lemma fold_removeJob_keys [simp]:
  "s_requests (fold removeJob xs s) = s_requests s"
  "s_delivery (fold removeJob xs s) = s_delivery s" "s_body (fold removeJob xs s) = s_body s"
  by (induction xs arbitrary: s) simp_all

lemma removeRequest_keys:
  assumes "store_inv s"
  shows "fmlookup (s_delivery (removeRequest i s)) d
      = (if fmlookup (s_delivery s) d = Some i then None else fmlookup (s_delivery s) d)"
    and "fmlookup (s_body (removeRequest i s)) h
      = (if fmlookup (s_body s) h = Some i then None else fmlookup (s_body s) h)"
proof -
  have k: "\<And>d i. fmlookup (s_delivery s) d = Some i \<Longrightarrow>
        d \<noteq> [] \<and> (\<exists>r. fmlookup (s_requests s) i = Some r \<and> r_DeliveryID r = d)"
      "\<And>h i. fmlookup (s_body s) h = Some i \<Longrightarrow>
        \<exists>r. fmlookup (s_requests s) i = Some r \<and> r_DeliveryID r = [] \<and> r_BodySHA256 r = h"
    using assms by (auto simp: store_inv_def keys_inv_def)
  have keys: "keys_inv s" using assms by (simp add: store_inv_def)
  have "fmlookup (s_delivery (removeRequest i s)) d
      = (if fmlookup (s_delivery s) d = Some i then None else fmlookup (s_delivery s) d)
    \<and> fmlookup (s_body (removeRequest i s)) h
      = (if fmlookup (s_body s) h = Some i then None else fmlookup (s_body s) h)"
  proof (cases "fmlookup (s_requests s) i")
    case None
    then show ?thesis using k(1) [of d i] k(2) [of h i] by (auto simp: removeRequest_None)
  next
    case (Some r)
    have "i \<noteq> []" using assms requests_invD(2) [OF _ Some] by (simp add: store_inv_def)
    note f = forget_key_keys [OF keys Some this]
    have "fmlookup (s_delivery (forget_key i r s)) d
        = (if fmlookup (s_delivery s) d = Some i then None else fmlookup (s_delivery s) d)"
      using f(1) [of d] by (auto simp: forget_key_def map_get_def split: if_splits option.splits)
    moreover have "fmlookup (s_body (forget_key i r s)) h
        = (if fmlookup (s_body s) h = Some i then None else fmlookup (s_body s) h)"
      using f(2) [of h] by (auto simp: forget_key_def map_get_def split: if_splits option.splits)
    ultimately show ?thesis
      unfolding removeRequest_eq [OF assms Some refl] by simp
  qed
  then show "fmlookup (s_delivery (removeRequest i s)) d
      = (if fmlookup (s_delivery s) d = Some i then None else fmlookup (s_delivery s) d)"
    "fmlookup (s_body (removeRequest i s)) h
      = (if fmlookup (s_body s) h = Some i then None else fmlookup (s_body s) h)"
    by simp_all
qed

lemma removeRequest_dedup [keep_inv]:
  assumes "store_inv s" "dedup_inv s"
  shows "dedup_inv (removeRequest i s)"
  using assms(2) by (auto simp: dedup_inv_def removeRequest_keys [OF assms(1)])

lemma apply_evictions_dedup [keep_inv]:
  assumes "store_inv s" "dedup_inv s"
  shows "dedup_inv (apply_evictions e s)"
proof -
  have r: "store_inv t \<Longrightarrow> dedup_inv t \<Longrightarrow> dedup_inv (fold removeRequest xs t)" for xs t
    by (induction xs arbitrary: t) (simp_all add: removeRequest_inv removeRequest_dedup)
  have "dedup_inv (fold removeJob (e_EvictedJobIDs e) s)"
    using assms(2) by (simp add: dedup_inv_def)
  then show ?thesis
    unfolding apply_evictions_def by (intro r fold_removeJob_inv assms(1))
qed

section \<open>A fresh key\<close>

definition key_free :: "store \<Rightarrow> request \<Rightarrow> bool" where
  "key_free s r \<longleftrightarrow>
     (if r_DeliveryID r \<noteq> [] then fmlookup (s_delivery s) (r_DeliveryID r) = None
      else fmlookup (s_body s) (r_BodySHA256 r) = None)"

lemma key_free_duplicateLocked: "duplicateLocked s r = None \<longleftrightarrow> key_free s r"
  by (simp add: duplicateLocked_def key_free_def split: option.split)

lemma apply_evictions_key_free:
  assumes "store_inv s" "key_free s r"
  shows "key_free (apply_evictions e s) r"
proof -
  have f: "store_inv t \<Longrightarrow> key_free t r \<Longrightarrow> key_free (fold removeRequest xs t) r" for xs t
  proof (induction xs arbitrary: t)
    case (Cons x xs)
    have "key_free (removeRequest x t) r"
      using Cons.prems by (auto simp: key_free_def removeRequest_keys)
    then show ?case using Cons.IH Cons.prems(1) removeRequest_inv by simp
  qed simp
  have "key_free (fold removeJob (e_EvictedJobIDs e) s) r"
    using assms(2) by (simp add: key_free_def)
  then show ?thesis
    unfolding apply_evictions_def by (intro f fold_removeJob_inv assms(1))
qed

lemma apply_request_dedup [keep_inv]:
  assumes "dedup_inv s" "key_free s r" "fmlookup (s_requests s) (r_ID r) = None"
  shows "dedup_inv (apply_request r ref s)"
proof -
  have old: "fmlookup (s_requests s) i = Some q \<Longrightarrow> (if r_DeliveryID q \<noteq> []
      then fmlookup (s_delivery s) (r_DeliveryID q) = Some i
      else fmlookup (s_body s) (r_BodySHA256 q) = Some i)" for i q
    using assms(1) by (simp add: dedup_inv_def)
  show ?thesis
    unfolding dedup_inv_def
  proof (intro allI impI)
    fix i q
    assume "fmlookup (s_requests (apply_request r ref s)) i = Some q"
    then show "if r_DeliveryID q \<noteq> []
        then fmlookup (s_delivery (apply_request r ref s)) (r_DeliveryID q) = Some i
        else fmlookup (s_body (apply_request r ref s)) (r_BodySHA256 q) = Some i"
      using old [of i q] assms(2) by (auto simp: apply_request_def key_free_def split: if_splits)
  qed
qed

lemma apply_attempt_job_dedup [simp]:
  "dedup_inv (apply_attempt a ref s) = dedup_inv s" "dedup_inv (apply_job j s) = dedup_inv s"
  by (simp_all add: dedup_inv_def apply_attempt_def apply_job_def)

definition key_fresh :: "store \<Rightarrow> event \<Rightarrow> bool" where
  "key_fresh s e = pred_option (key_free s) (e_Request e)"

lemma apply_event_dedup [keep_inv]:
  assumes "store_inv s" "dedup_inv s" "event_fits s e" "key_fresh s e"
  shows "dedup_inv (apply_event cd e ref s)"
proof -
  define s1 where "s1 = (if e_Seq e > s_seq s then s\<lparr>s_seq := e_Seq e\<rparr> else s)"
  have r: "retained_of s1 = retained_of s" by (simp add: s1_def)
  have same: "s_delivery s1 = s_delivery s" "s_body s1 = s_body s" "s_requests s1 = s_requests s"
    by (simp_all add: s1_def)
  have i: "store_inv s1" "dedup_inv s1"
    using assms store_inv_retained [OF r] dedup_inv_retained [OF r] by simp_all
  let ?t = "apply_evictions e s1"
  have t: "dedup_inv ?t" by (rule apply_evictions_dedup [OF i])
  have "dedup_inv (apply_payload e ref ?t)"
  proof (cases "e_Request e")
    case None
    then show ?thesis
      using t by (simp add: apply_payload_def Let_def split: option.split)
  next
    case (Some q)
    have kf: "key_free s1 q"
      using assms(4) Some by (simp add: key_fresh_def key_free_def same)
    then have "key_free ?t q" by (rule apply_evictions_key_free [OF i(1)])
    moreover have "fmlookup (s_requests ?t) (r_ID q) = None"
      using assms(3) Some by (simp add: event_fits_def same)
    ultimately have "dedup_inv (apply_request q ref ?t)" by (intro apply_request_dedup t)
    then show ?thesis
      by (simp add: apply_payload_def Let_def Some split: option.split)
  qed
  then show ?thesis
    using dedup_inv_retained [OF retained_of_appendRing]
    by (simp add: apply_event_def Let_def flip: s1_def)
qed

section \<open>An append with a fresh key\<close>

lemma compactLocked_dedup [keep_inv]:
  assumes "compactLocked cd w s = (t, x)" "dedup_inv s"
  shows "dedup_inv t"
  using compactLocked_same [OF assms(1)] assms(2) by (simp add: same_but_log_def dedup_inv_def)

lemma logged_dedup:
  assumes "store_inv s" "dedup_inv s" "admitted cd w e s b" "self_contained e" "key_fresh s e"
  shows "dedup_inv (logged cd w e b s)"
proof -
  let ?s = "s\<lparr>s_seq := s_seq s + 1, s_file := s_file s @ b @ [newline]\<rparr>"
  let ?ref = "\<lparr>ref_offset = length (s_file s), ref_length = length b + 1, ref_seq = s_seq s + 1\<rparr>"
  have r: "retained_of ?s = retained_of s" by (simp add: retained_of_def)
  have "event_fits s (stamped w s e)"
    using assms by (intro validated_fits) (auto simp: admitted_def)
  moreover have "key_fresh ?s (stamped w s e)"
    using assms(5) by (simp add: key_fresh_def key_free_def option.pred_set)
  ultimately have "dedup_inv (apply_event cd (stamped w s e) ?ref ?s)"
    using assms(1,2) store_inv_retained [OF r] dedup_inv_retained [OF r] event_fits_retained [OF r]
    by (intro apply_event_dedup) simp_all
  then show ?thesis by (simp add: logged_def Let_def dedup_inv_def)
qed

lemma appendLocked_dedup [keep_inv]:
  assumes "appendLocked cd w e s = (t, x)" "store_inv s" "dedup_inv s" "self_contained e"
    "key_fresh s e"
  shows "dedup_inv t"
  using assms(1)
proof (cases rule: appendLocked_cases)
  case (refused h)
  then show ?thesis using dedup_inv_retained refused_same(1) assms(3) by blast
next
  case (stored b)
  then show ?thesis
    using logged_dedup [OF assms(2,3) stored(1) assms(4,5)] dedup_inv_retained publish_same(1) by metis
next
  case (compacted b v)
  then have "dedup_inv v" using compactLocked_dedup logged_dedup assms by blast
  then show ?thesis using compacted(4) dedup_inv_retained publish_same(1) by metis
next
  case (failed b v h)
  then have "dedup_inv v" using compactLocked_dedup logged_dedup assms by blast
  then show ?thesis using failed(4) by (simp add: poisoned_def dedup_inv_def)
qed

section \<open>An append keeps the ring and the options\<close>

lemma compactLocked_ring_inv [keep_inv]:
  assumes "compactLocked cd w s = (t, x)" "ring_inv cd s"
  shows "ring_inv cd t"
  using compactLocked_same [OF assms(1)] assms(2) by (auto simp: same_but_log_def ring_inv_def)

lemma apply_event_ring_inv [keep_inv]:
  assumes "ring_inv cd s" "options_ok (s_opts s)"
  shows "ring_inv cd (apply_event cd e ref s)"
proof -
  define s1 where "s1 = (if e_Seq e > s_seq s then s\<lparr>s_seq := e_Seq e\<rparr> else s)"
  have "same_frame s1 (apply_payload e ref (apply_evictions e s1))"
    using apply_evictions_frame apply_payload_frame same_frame_trans by blast
  then have "s_ring (apply_payload e ref (apply_evictions e s1)) = s_ring s"
    "s_ringBytes (apply_payload e ref (apply_evictions e s1)) = s_ringBytes s"
    "s_opts (apply_payload e ref (apply_evictions e s1)) = s_opts s"
    by (simp_all add: same_frame_def s1_def)
  then have "ring_inv cd (apply_payload e ref (apply_evictions e s1))
      \<and> options_ok (s_opts (apply_payload e ref (apply_evictions e s1)))"
    using assms ring_inv_cong by metis
  then show ?thesis
    unfolding apply_event_def Let_def s1_def [symmetric] by (intro appendRing_ring_inv) simp_all
qed

lemma ring_inv_eventCount [simp]: "ring_inv cd (s\<lparr>s_eventCount := n\<rparr>) = ring_inv cd s"
  by (rule ring_inv_cong) simp_all

lemma logged_ring_inv:
  assumes "ring_inv cd s" "options_ok (s_opts s)"
  shows "ring_inv cd (logged cd w e b s)"
proof -
  let ?s = "s\<lparr>s_seq := s_seq s + 1, s_file := s_file s @ b @ [newline]\<rparr>"
  have "ring_inv cd ?s" using assms(1) ring_inv_cong [of ?s s] by simp
  then have "ring_inv cd (apply_event cd (stamped w s e) ref ?s)" for ref
    using assms(2) by (intro apply_event_ring_inv) simp_all
  then show ?thesis by (simp add: logged_def Let_def)
qed

lemma logged_sel [simp]:
  "s_opts (logged cd w e b s) = s_opts s" "s_chans (logged cd w e b s) = s_chans s"
  "s_subs (logged cd w e b s) = s_subs s" "s_health (logged cd w e b s) = s_health s"
  "s_closed (logged cd w e b s) = s_closed s"
  "s_file (logged cd w e b s) = s_file s @ b @ [newline]"
  "s_replaced (logged cd w e b s) = s_replaced s" "s_handle (logged cd w e b s) = s_handle s"
  "s_eventCount (logged cd w e b s) = s_eventCount s + 1"
  by (simp_all add: logged_def Let_def)

lemma appendLocked_ring_inv [keep_inv]:
  assumes "appendLocked cd w e s = (t, x)" "ring_inv cd s" "options_ok (s_opts s)"
  shows "ring_inv cd t" "s_opts t = s_opts s"
proof -
  have "ring_inv cd t \<and> s_opts t = s_opts s"
    using assms(1)
  proof (cases rule: appendLocked_cases)
    case (refused h)
    then show ?thesis using refused_same [OF refused(2)] assms(2) by (auto simp: ring_inv_def)
  next
    case (stored b)
    then show ?thesis
      using logged_ring_inv [OF assms(2,3), of w e b] by (auto simp: ring_inv_def)
  next
    case (compacted b v)
    then show ?thesis
      using logged_ring_inv [OF assms(2,3), of w e b] compactLocked_same [OF compacted(3)]
      by (auto simp: ring_inv_def same_but_log_def)
  next
    case (failed b v h)
    then show ?thesis
      using logged_ring_inv [OF assms(2,3), of w e b] compactLocked_same [OF failed(3)]
      by (auto simp: ring_inv_def same_but_log_def poisoned_def)
  qed
  then show "ring_inv cd t" "s_opts t = s_opts s" by simp_all
qed

end
