(* ===== verification/Transition.thy ===== *)
theory Transition
  imports Relay_Prelude
begin

text \<open>
  Labelled transition systems: what is reachable from a start, and the interface under which a
  predicate is an invariant. The store and the forwarding life cycle interpret it.
\<close>

inductive reach :: "('s \<Rightarrow> bool) \<Rightarrow> ('s \<Rightarrow> 'l \<Rightarrow> 's \<Rightarrow> bool) \<Rightarrow> 's \<Rightarrow> bool"
  for init :: "'s \<Rightarrow> bool" and step :: "'s \<Rightarrow> 'l \<Rightarrow> 's \<Rightarrow> bool" where
  reach_init: "init s \<Longrightarrow> reach init step s"
| reach_step: "reach init step s \<Longrightarrow> step s l t \<Longrightarrow> reach init step t"

text \<open>A run is a sequence of labels; \<open>path\<close> says that it leads from one state to another.\<close>

inductive path :: "('s \<Rightarrow> 'l \<Rightarrow> 's \<Rightarrow> bool) \<Rightarrow> 's \<Rightarrow> 'l list \<Rightarrow> 's \<Rightarrow> bool"
  for step :: "'s \<Rightarrow> 'l \<Rightarrow> 's \<Rightarrow> bool" where
  path_nil: "path step s [] s"
| path_snoc: "path step s ls t \<Longrightarrow> step t l u \<Longrightarrow> path step s (ls @ [l]) u"

locale invariant_of =
  fixes init :: "'s \<Rightarrow> bool"
    and step :: "'s \<Rightarrow> 'l \<Rightarrow> 's \<Rightarrow> bool"
    and inv :: "'s \<Rightarrow> bool"
  assumes initially: "init s \<Longrightarrow> inv s"
    and kept: "inv s \<Longrightarrow> step s l t \<Longrightarrow> inv t"
begin

lemma reachable: "reach init step s \<Longrightarrow> inv s"
  by (induction rule: reach.induct) (auto intro: initially kept)

lemma along: "path step s ls t \<Longrightarrow> inv s \<Longrightarrow> inv t"
  by (induction rule: path.induct) (auto intro: kept)

end

text \<open>
  A relation between states that one step establishes, and that composes, relates the ends of
  every run on which the invariant holds.
\<close>

locale monotone_along = invariant_of init step inv
  for init :: "'s \<Rightarrow> bool" and step :: "'s \<Rightarrow> 'l \<Rightarrow> 's \<Rightarrow> bool" and inv :: "'s \<Rightarrow> bool" +
  fixes before :: "'s \<Rightarrow> 's \<Rightarrow> bool"
  assumes before_refl: "before s s"
    and before_trans: "before s t \<Longrightarrow> before t u \<Longrightarrow> before s u"
    and before_step: "inv s \<Longrightarrow> step s l t \<Longrightarrow> before s t"
begin

lemma before_path: "path step s ls t \<Longrightarrow> inv s \<Longrightarrow> before s t"
proof (induction rule: path.induct)
  case (path_nil s)
  show ?case by (rule before_refl)
next
  case (path_snoc s ls t l u)
  then show ?case using before_trans before_step along by blast
qed

end

end
