(* ===== verification/Store_System.thy ===== *)
theory Store_System
  imports Store_Keys Transition
begin

text \<open>
  The store as a transition system: a step is one call of one operation in some environment.
  Well-formedness \<open>wf_store\<close> joins the invariants of the retained state, of the idempotency keys
  and of the ring; every operation keeps it, whatever fails.
\<close>

section \<open>Well-formedness and the append\<close>

definition wf_store :: "codec \<Rightarrow> store \<Rightarrow> bool" where
  "wf_store cd s \<longleftrightarrow> store_inv s \<and> dedup_inv s \<and> ring_inv cd s \<and> options_ok (s_opts s)"

lemma wf_storeD:
  assumes "wf_store cd s"
  shows "store_inv s" "dedup_inv s" "ring_inv cd s" "options_ok (s_opts s)"
    "requests_inv s" "jobs_inv s" "attempts_inv s" "keys_inv s"
  using assms by (simp_all add: wf_store_def store_inv_def)

lemma wf_store_new: "wf_store cd (new_store oo f)"
  by (auto simp: wf_store_def ring_inv_def options_ok_def withDefaults_def default_to_def Let_def
      maxCatchUpEvents_def maxCatchUpBytes_def)

lemma appendLocked_wf:
  assumes "appendLocked cd w e s = (t, x)" "wf_store cd s" "self_contained e" "key_fresh s e"
    "range_order (w_order w)"
  shows "wf_store cd t"
  using assms appendLocked_inv [OF assms(1)] appendLocked_dedup [OF assms(1)]
    appendLocked_ring_inv [OF assms(1)]
  by (simp add: wf_store_def)

lemma compactLocked_wf:
  assumes "compactLocked cd w s = (t, x)" "wf_store cd s" "range_order (w_order w)"
  shows "wf_store cd t"
  using assms compactLocked_inv [OF assms(1)] compactLocked_dedup [OF assms(1)]
    compactLocked_ring_inv [OF assms(1)] compactLocked_same [OF assms(1)]
  by (simp add: wf_store_def same_but_log_def)

text \<open>Nothing in well-formedness depends on the log, the health or the subscribers.\<close>

lemma wf_store_cong:
  assumes "retained_of t = retained_of s" "s_opts t = s_opts s" "s_ring t = s_ring s"
    "s_ringBytes t = s_ringBytes s"
  shows "wf_store cd t = wf_store cd s"
  using assms store_inv_retained [OF assms(1)] dedup_inv_retained [OF assms(1)]
  by (simp add: wf_store_def ring_inv_def)

lemma wf_store_frame [simp]:
  "wf_store cd (poison x s) = wf_store cd s" "wf_store cd (poisoned x s) = wf_store cd s"
  "wf_store cd (cancel_subscription c s) = wf_store cd s"
  by (rule wf_store_cong; simp add: poison_def poisoned_def cancel_subscription_def retained_of_def)+

lemma key_fresh_job_event [simp]:
  "key_fresh s (job_event st j)" "key_fresh s ((job_event st j)\<lparr>e_EvictedJobIDs := xs\<rparr>)"
  "key_fresh s ((job_event st j)\<lparr>e_Attempt := a\<rparr>)"
  by (simp_all add: key_fresh_def job_event_def)

lemma self_contained_job_event [simp]:
  "self_contained (job_event st j)" "self_contained ((job_event st j)\<lparr>e_EvictedJobIDs := xs\<rparr>)"
  "self_contained ((job_event st j)\<lparr>e_Attempt := a\<rparr>)"
  by (simp_all add: self_contained_def job_event_def forward_kind_simps)

lemma capture_event_ok [simp]:
  "self_contained (capture_event r jo xs)" "key_fresh s (capture_event r jo xs) = key_free s r"
  by (simp_all add: self_contained_def capture_event_def key_fresh_def split: option.split)

section \<open>Every operation keeps the store well-formed\<close>

lemma Accept_wf [keep_inv]:
  assumes "Accept cd w r jo s = (t, out)" "wf_store cd s" "range_order (w_order w)"
  shows "wf_store cd t"
proof (cases "duplicateLocked s r")
  case None
  then have "key_free s r" by (simp add: key_free_duplicateLocked)
  then have "wf_store cd u" if "appendLocked cd w (capture_event r jo xs) s = (u, x)" for u x xs
    using appendLocked_wf [OF that assms(2)] assms(3) by simp
  then show ?thesis
    using assms None by (auto simp: Accept_def accept_new_def split: if_splits option.splits sum.splits prod.splits)
next
  case (Some a)
  have "wf_store cd u" if "appendLocked cd w (job_event st j) s = (u, x)" for u x st j
    using appendLocked_wf [OF that assms(2)] assms(3) by simp
  then show ?thesis
    using assms Some
    by (auto simp: Accept_def accept_duplicate_def Let_def split: if_splits option.splits sum.splits prod.splits)
qed

lemma error_only_wf:
  assumes "error_only (appendLocked cd w e s) = (t, x)" "wf_store cd s" "self_contained e"
    "key_fresh s e" "range_order (w_order w)"
  shows "wf_store cd t"
  using assms appendLocked_wf [of cd w e s]
  by (cases "appendLocked cd w e s") (auto simp: error_only_def split: sum.splits)

lemma Enqueue_wf [keep_inv]:
  assumes "Enqueue cd w j s = (t, x)" "wf_store cd s" "range_order (w_order w)"
  shows "wf_store cd t"
  using assms error_only_wf [of cd w "(job_event ''pending'' j)\<lparr>e_EvictedJobIDs := _\<rparr>" s]
  by (auto simp: Enqueue_def split: if_splits sum.splits)

lemma ClaimNextJob_wf [keep_inv]:
  assumes "ClaimNextJob cd w owner now lease s = (t, x)" "wf_store cd s" "range_order (w_order w)"
  shows "wf_store cd t"
  using assms appendLocked_wf [of cd w "job_event ''leased'' _" s]
  by (auto simp: ClaimNextJob_def Let_def split: list.splits sum.splits prod.splits)

lemma recover_jobs_wf:
  "recover_jobs cd w now js s = (t, x) \<Longrightarrow> wf_store cd s \<Longrightarrow> range_order (w_order w) \<Longrightarrow> wf_store cd t"
proof (induction cd w now js s rule: recover_jobs.induct)
  case (2 cd w now j js s)
  show ?case
  proof (cases "appendLocked cd w (job_event ''pending'' (recovered_job now j)) s")
    case (Pair u y)
    then have "wf_store cd u" using "2.prems" appendLocked_wf by (metis key_fresh_job_event(1) self_contained_job_event(1))
    then show ?thesis using Pair 2 by (auto split: sum.splits)
  qed
qed simp

lemma RecoverLeases_wf [keep_inv]:
  "RecoverLeases cd w now s = (t, x) \<Longrightarrow> wf_store cd s \<Longrightarrow> range_order (w_order w) \<Longrightarrow> wf_store cd t"
  unfolding RecoverLeases_def by (rule recover_jobs_wf)

lemma RecordAttempt_wf [keep_inv]:
  assumes "RecordAttempt cd w i owner a st msg av s = (t, x)" "wf_store cd s" "range_order (w_order w)"
  shows "wf_store cd t"
  using assms error_only_wf [of cd w "(job_event st _)\<lparr>e_Attempt := Some a\<rparr>" s]
  by (auto simp: RecordAttempt_def Let_def split: if_splits option.splits)

lemma FinishWithoutAttempt_wf [keep_inv]:
  assumes "FinishWithoutAttempt cd w i owner st msg s = (t, x)" "wf_store cd s" "range_order (w_order w)"
  shows "wf_store cd t"
  using assms error_only_wf [of cd w "job_event st _" s]
  by (auto simp: FinishWithoutAttempt_def split: if_splits option.splits)

lemma Load_wf [keep_inv]:
  "Load cd w i s = (t, x) \<Longrightarrow> wf_store cd s \<Longrightarrow> wf_store cd t"
  by (auto simp: Load_def split: option.splits sum.splits)

lemma SubscribeFrom_wf [keep_inv]:
  assumes "SubscribeFrom cursor s = (t, x)" "wf_store cd s"
  shows "wf_store cd t"
proof -
  have "retained_of t = retained_of s \<and> s_opts t = s_opts s \<and> s_ring t = s_ring s
      \<and> s_ringBytes t = s_ringBytes s"
    using assms(1) by (auto simp: SubscribeFrom_def Let_def retained_of_def split: list.splits if_splits)
  then show ?thesis using assms(2) wf_store_cong by blast
qed

lemma Close_wf [keep_inv]:
  assumes "Close w s = (t, x)" "wf_store cd s"
  shows "wf_store cd t"
proof -
  have "retained_of t = retained_of s \<and> s_opts t = s_opts s \<and> s_ring t = s_ring s
      \<and> s_ringBytes t = s_ringBytes s"
    using assms(1) by (auto simp: Close_def retained_of_def split: if_splits)
  then show ?thesis using assms(2) wf_store_cong by blast
qed

section \<open>Redaction\<close>

lemma redact_sel [simp]:
  "r_ID (redact_request p r) = r_ID r" "r_Body (redact_request p r) = r_Body r"
  "r_DeliveryID (redact_request p r) = r_DeliveryID r"
  "r_BodySHA256 (redact_request p r) = r_BodySHA256 r"
  "r_ReceivedAt (redact_request p r) = r_ReceivedAt r"
  "a_ID (redact_attempt p a) = a_ID a" "a_JobID (redact_attempt p a) = a_JobID a"
  "a_RequestID (redact_attempt p a) = a_RequestID a" "a_Number (redact_attempt p a) = a_Number a"
  "a_ResponseBody (redact_attempt p a) = a_ResponseBody a"
  "validateAttempt (redact_attempt p a) = validateAttempt a"
  by (simp_all add: redact_request_def redact_attempt_def validateAttempt_def)

lemma redact_state_attempts_of [simp]:
  "attempts_of (redact_state p s) rid = map (redact_attempt p) (attempts_of s rid)"
  by (simp add: redact_state_def map_get_def split: option.split)

lemma redact_state_sel [simp]:
  "fmlookup (s_requests (redact_state p s)) i = map_option (redact_request p) (fmlookup (s_requests s) i)"
  "fmdom (s_requests (redact_state p s)) = fmdom (s_requests s)"
  "fmlookup (s_attempts (redact_state p s)) i
    = map_option (map (redact_attempt p)) (fmlookup (s_attempts s) i)"
  "s_attemptIDs (redact_state p s) = s_attemptIDs s" "s_jobs (redact_state p s) = s_jobs s"
  "s_jobsByRequest (redact_state p s) = s_jobsByRequest s"
  "s_delivery (redact_state p s) = s_delivery s" "s_body (redact_state p s) = s_body s"
  "s_requestRecord (redact_state p s) = s_requestRecord s"
  "s_attemptRecord (redact_state p s) = s_attemptRecord s"
  "s_requestBytes (redact_state p s) = s_requestBytes s"
  "s_search (redact_state p s) = s_search s" "s_opts (redact_state p s) = s_opts s"
  "s_ring (redact_state p s) = map (redact_event p) (s_ring s)"
  "s_file (redact_state p s) = s_file s" "s_handle (redact_state p s) = s_handle s"
  "s_health (redact_state p s) = s_health s" "s_closed (redact_state p s) = s_closed s"
  "s_seq (redact_state p s) = s_seq s"
  by (simp_all add: redact_state_def)

lemma redact_state_store_inv [keep_inv]:
  assumes "store_inv s"
  shows "store_inv (redact_state p s)" "dedup_inv s \<Longrightarrow> dedup_inv (redact_state p s)"
proof -
  have "requests_inv (redact_state p s)"
    using assms by (auto simp: store_inv_def requests_inv_def)
  moreover have "jobs_inv (redact_state p s)"
    using assms by (simp add: store_inv_def jobs_inv_def)
  moreover have "attempts_inv (redact_state p s)"
    unfolding attempts_inv_def redact_state_attempts_of
  proof (intro conjI allI impI)
    fix rid a
    assume "a \<in> set (map (redact_attempt p) (attempts_of s rid))"
    then obtain b where b: "b \<in> set (attempts_of s rid)" "a = redact_attempt p b" by auto
    have "attempts_inv s" using assms by (simp add: store_inv_def)
    note D = attempts_invD [OF this b(1)]
    show "a_RequestID a = rid" "a_ResponseBody a = []" "validateAttempt a = None"
      "\<exists>j. fmlookup (s_jobs (redact_state p s)) (a_JobID a) = Some j \<and> j_RequestID j = rid"
      using D by (simp_all add: b(2))
  qed (use assms in \<open>simp_all add: store_inv_def attempts_inv_def image_image comp_def\<close>)
  moreover have "keys_inv (redact_state p s)"
    using assms unfolding store_inv_def keys_inv_def by fastforce
  ultimately show "store_inv (redact_state p s)" by (simp add: store_inv_def)
  show "dedup_inv s \<Longrightarrow> dedup_inv (redact_state p s)"
    unfolding dedup_inv_def by fastforce
qed

lemma redact_header_same: "\<not> headerValuesNeedRedaction h p \<Longrightarrow> redact_header p h = h"
proof (rule fmap_ext)
  fix x
  assume "\<not> headerValuesNeedRedaction h p"
  then show "fmlookup (redact_header p h) x = fmlookup h x"
    by (cases "fmlookup h x") (auto simp: headerValuesNeedRedaction_def redact_header_def fmpred_iff)
qed

lemma redact_request_same:
  "\<not> headerValuesNeedRedaction (r_Headers r) p \<Longrightarrow> redact_request p r = r"
  by (simp add: redact_request_def redact_header_same)

lemma redact_attempt_same:
  "\<not> headerValuesNeedRedaction (a_ResponseHeaders a) p \<Longrightarrow> redact_attempt p a = a"
  by (simp add: redact_attempt_def redact_header_same)

lemma redact_event_same:
  "\<not> event_needs_redaction p (event_headers e) \<Longrightarrow> redact_event p e = e"
  by (cases "e_Request e"; cases "e_Attempt e")
    (simp_all add: redact_event_def event_needs_redaction_def event_headers_def
      redact_request_same redact_attempt_same)

text \<open>Redaction changes a store only if something retained needs it.\<close>

lemma redact_state_same:
  assumes "\<not> state_needs_redaction p s"
  shows "redact_state p s = s"
proof -
  have q: "fmlookup (s_requests s) i = Some r \<Longrightarrow> redact_request p r = r" for i r
    using assms redact_request_same by (auto simp: state_needs_redaction_def fmpred_iff)
  have "fmmap (redact_request p) (s_requests s) = s_requests s"
  proof (rule fmap_ext)
    show "fmlookup (fmmap (redact_request p) (s_requests s)) i = fmlookup (s_requests s) i" for i
      using q [of i] by (cases "fmlookup (s_requests s) i") simp_all
  qed
  moreover have "fmmap (map (redact_attempt p)) (s_attempts s) = s_attempts s"
  proof (rule fmap_ext)
    fix i
    show "fmlookup (fmmap (map (redact_attempt p)) (s_attempts s)) i = fmlookup (s_attempts s) i"
    proof (cases "fmlookup (s_attempts s) i")
      case (Some as)
      then have "list_all (\<lambda>a. \<not> headerValuesNeedRedaction (a_ResponseHeaders a) p) as"
        using assms by (auto simp: state_needs_redaction_def fmpred_iff)
      then have "map (redact_attempt p) as = as"
        by (induction as) (simp_all add: redact_attempt_same)
      then show ?thesis using Some by simp
    qed simp
  qed
  moreover have "map (redact_event p) (s_ring s) = s_ring s"
    using assms by (auto simp: state_needs_redaction_def list_ex_iff redact_event_same intro!: map_idI)
  ultimately show ?thesis by (simp add: redact_state_def)
qed

lemma recountRingLocked_sel [simp]:
  "retained_of (recountRingLocked cd s) = retained_of s"
  "s_opts (recountRingLocked cd s) = s_opts s" "s_file (recountRingLocked cd s) = s_file s"
  "s_handle (recountRingLocked cd s) = s_handle s" "s_seq (recountRingLocked cd s) = s_seq s"
  "s_health (recountRingLocked cd s) = s_health s" "s_closed (recountRingLocked cd s) = s_closed s"
  by (simp_all add: recountRingLocked_def Let_def split_def retained_of_def)

lemma recountRingLocked_ring_inv:
  assumes "options_ok (s_opts s)"
  shows "ring_inv cd (recountRingLocked cd s)"
proof -
  obtain ring n where t: "trim_ring cd (s_opts s) (s_ring s) (ring_size cd (s_ring s)) = (ring, n)"
    by fastforce
  show ?thesis
    using trim_ring_spec [OF t refl] trim_ring_length [OF t] assms
    by (simp add: recountRingLocked_def t ring_inv_def options_ok_def)
qed

lemma redacted_wf:
  assumes "wf_store cd s"
  shows "wf_store cd (recountRingLocked cd (redact_state p s))"
proof -
  have "options_ok (s_opts (redact_state p s))" using assms by (simp add: wf_store_def)
  then have "ring_inv cd (recountRingLocked cd (redact_state p s))"
    by (rule recountRingLocked_ring_inv)
  moreover have "store_inv (redact_state p s)" "dedup_inv (redact_state p s)"
    using assms redact_state_store_inv by (auto simp: wf_store_def)
  ultimately show ?thesis
    using assms store_inv_retained [OF recountRingLocked_sel(1)] dedup_inv_retained [OF recountRingLocked_sel(1)]
    by (simp add: wf_store_def)
qed

lemma RedactHeaders_wf [keep_inv]:
  assumes "RedactHeaders cd w policy s = (t, x)" "wf_store cd s" "range_order (w_order w)"
  shows "wf_store cd t"
proof (cases policy)
  case None
  then show ?thesis using assms by (simp add: RedactHeaders_def)
next
  case (Some p)
  let ?u = "if state_needs_redaction p s then recountRingLocked cd (redact_state p s) else redact_state p s"
  have u: "wf_store cd ?u"
    using assms(2) redacted_wf redact_state_same by (auto simp: redacted_wf)
  have c: "wf_store cd v" if "compactLocked cd w ?u = (v, y)" for v y
    by (rule compactLocked_wf [OF that u assms(3)])
  show ?thesis
    using assms(1,2) u c unfolding RedactHeaders_def Some Let_def option.case
    by (auto simp del: redact_state_sel split: if_splits option.splits sum.splits bool.splits prod.splits)
qed

end
