(* ===== verification/Store_View.thy ===== *)
theory Store_View
  imports Store_System
begin

text \<open>
  The view of the store its clients have: the retained captures, jobs, attempts and keys,
  without the places of their records in the log. An append changes the view as \<open>applied\<close> says
  or not at all, and a compaction never changes it.
\<close>

section \<open>The view\<close>

record view =
  v_opts :: options
  v_requests :: "(string, request) fmap"
  v_attempts :: "(string, attempt list) fmap"
  v_attemptIDs :: "string fset"
  v_jobs :: "(string, job) fmap"
  v_jobsByRequest :: "(string, string fset) fmap"
  v_delivery :: "(string, string) fmap"
  v_body :: "(string, string) fmap"
  v_requestBytes :: "(string, int) fmap"
  v_search :: "(string, string) fmap"

definition view_of :: "store \<Rightarrow> view" where
  "view_of s = \<lparr>v_opts = s_opts s, v_requests = s_requests s, v_attempts = s_attempts s,
     v_attemptIDs = s_attemptIDs s, v_jobs = s_jobs s, v_jobsByRequest = s_jobsByRequest s,
     v_delivery = s_delivery s, v_body = s_body s, v_requestBytes = s_requestBytes s,
     v_search = s_search s\<rparr>"

lemma view_of_eq:
  "view_of s = view_of t \<longleftrightarrow>
     s_opts s = s_opts t \<and> s_requests s = s_requests t \<and> s_attempts s = s_attempts t
     \<and> s_attemptIDs s = s_attemptIDs t \<and> s_jobs s = s_jobs t
     \<and> s_jobsByRequest s = s_jobsByRequest t \<and> s_delivery s = s_delivery t
     \<and> s_body s = s_body t \<and> s_requestBytes s = s_requestBytes t \<and> s_search s = s_search t"
  by (simp add: view_of_def)

lemma view_of_retained:
  "retained_of s = retained_of t \<Longrightarrow> s_opts s = s_opts t \<Longrightarrow> view_of s = view_of t"
  by (simp add: view_of_eq retained_of_def)

text \<open>What an event does to the view.\<close>

definition applied :: "event \<Rightarrow> store \<Rightarrow> store" where
  "applied e s = apply_payload e zero_ref (apply_evictions e s)"

lemma removeJob_view_cong:
  assumes "view_of s = view_of t"
  shows "view_of (removeJob i s) = view_of (removeJob i t)"
proof -
  have "s_jobs s = s_jobs t" "s_jobsByRequest s = s_jobsByRequest t" "s_attempts s = s_attempts t"
    "s_attemptIDs s = s_attemptIDs t"
    using assms by (simp_all add: view_of_eq)
  then show ?thesis
    using assms
    by (cases "fmlookup (s_jobs t) i"; cases "fmlookup (s_jobsByRequest t) (j_RequestID (the (fmlookup (s_jobs t) i)))")
      (simp_all add: removeJob_def view_of_eq Let_def)
qed

lemma fold_view_cong:
  assumes "\<And>x s t. view_of s = view_of t \<Longrightarrow> view_of (f x s) = view_of (f x t)"
    "view_of s = view_of t"
  shows "view_of (fold f xs s) = view_of (fold f xs t)"
  using assms(2)
proof (induction xs arbitrary: s t)
  case (Cons x xs)
  show ?case using Cons.IH [OF assms(1) [OF Cons.prems]] by simp
qed simp

lemma removeRequest_view_cong:
  assumes "view_of s = view_of t"
  shows "view_of (removeRequest i s) = view_of (removeRequest i t)"
proof (cases "fmlookup (s_requests t) i")
  case None
  then show ?thesis using assms by (simp add: removeRequest_def view_of_eq)
next
  case (Some r)
  have s: "fmlookup (s_requests s) i = Some r" using assms Some by (simp add: view_of_eq)
  have f: "view_of (forget_key i r s) = view_of (forget_key i r t)"
    and j: "jobs_of s i = jobs_of t i"
    using assms by (simp_all add: forget_key_def view_of_eq)
  have v: "view_of (fold removeJob xs (forget_key i r s)) = view_of (fold removeJob xs (forget_key i r t))" for xs
    by (rule fold_view_cong [OF removeJob_view_cong f])
  then show ?thesis
    by (simp add: removeRequest_def s Some Let_def j view_of_eq flip: forget_key_def)
qed

lemma applied_view_cong:
  assumes "view_of s = view_of t"
  shows "view_of (apply_payload e ref (apply_evictions e s)) = view_of (applied e t)"
proof -
  have "view_of (apply_evictions e s) = view_of (apply_evictions e t)"
    unfolding apply_evictions_def
    by (intro fold_view_cong removeRequest_view_cong removeJob_view_cong assms)
  then show ?thesis
    by (cases "e_Request e"; cases "e_Attempt e"; cases "e_Job e")
      (simp_all add: applied_def apply_payload_def apply_request_def apply_attempt_def
        apply_job_def view_of_eq Let_def)
qed

lemma applied_stamped [simp]: "applied (stamped w s0 e) s = applied e s"
  by (simp add: applied_def apply_payload_def apply_evictions_def)

lemma logged_view: "view_of (logged cd w e b s) = view_of (applied e s)"
proof -
  let ?e = "stamped w s e"
  have "view_of (apply_event cd ?e ref t) = view_of (applied ?e s)"
    if "view_of t = view_of s" for t ref
  proof -
    define u where "u = (if e_Seq ?e > s_seq t then t\<lparr>s_seq := e_Seq ?e\<rparr> else t)"
    have "view_of u = view_of s" using that by (simp add: u_def view_of_eq)
    then have "view_of (apply_payload ?e ref (apply_evictions ?e u)) = view_of (applied ?e s)"
      by (rule applied_view_cong)
    moreover have "view_of (appendRing cd ?e v) = view_of v" for v by (simp add: view_of_eq)
    ultimately show ?thesis unfolding apply_event_def Let_def u_def [symmetric] by simp
  qed
  from this [of "s\<lparr>s_seq := s_seq s + 1, s_file := s_file s @ b @ [newline]\<rparr>"]
  show ?thesis by (simp add: logged_def Let_def view_of_eq)
qed

lemma compactLocked_view:
  "compactLocked cd w s = (t, x) \<Longrightarrow> view_of t = view_of s"
  using compactLocked_same [of cd w s t x] by (simp add: same_but_log_def view_of_eq)

text \<open>
  The outcomes of an append on the view. An error may still leave the event in the log: that is
  the case when the write succeeded and the compaction after it failed, and then the store is
  poisoned.
\<close>

lemma appendLocked_view:
  assumes "appendLocked cd w e s = (t, x)"
  obtains (same) "view_of t = view_of s" "\<exists>h. x = Inl h"
  | (took) b where "admitted cd w e s b" "view_of t = view_of (applied e s)"
      "x = Inr (stamped w s e) \<or> s_health t \<noteq> None \<and> (\<exists>h. x = Inl h)"
  using assms
proof (cases rule: appendLocked_cases)
  case (refused h)
  have "view_of t = view_of s" using refused_same [OF refused(2)] view_of_retained by blast
  then show ?thesis using that(1) refused(1) by blast
next
  case (stored b)
  have "view_of t = view_of (logged cd w e b s)"
    using stored(3) by (intro view_of_retained) simp_all
  then show ?thesis using took stored(1,2) logged_view by metis
next
  case (compacted b v)
  have "view_of t = view_of v" using compacted(4) by (intro view_of_retained) simp_all
  also have "\<dots> = view_of (applied e s)"
    using compactLocked_view [OF compacted(3)] logged_view by metis
  finally show ?thesis using took compacted(1,2) by blast
next
  case (failed b v h)
  have "view_of t = view_of v" using failed(4) by (simp add: poisoned_def view_of_eq)
  also have "\<dots> = view_of (applied e s)"
    using compactLocked_view [OF failed(3)] logged_view by metis
  finally show ?thesis using took failed by (simp add: poisoned_def)
qed

section \<open>Looking up after an event\<close>

lemma applied_requests:
  "fmlookup (s_requests (applied e s)) k =
     (case e_Request e of
       Some r \<Rightarrow> if k = r_ID r then Some (r\<lparr>r_Body := []\<rparr>)
         else if k \<in> set (e_EvictedRequestIDs e) then None else fmlookup (s_requests s) k
     | None \<Rightarrow> if k \<in> set (e_EvictedRequestIDs e) then None else fmlookup (s_requests s) k)"
  by (simp add: applied_def apply_payload_def apply_request_def apply_attempt_def apply_job_def
      Let_def split: option.split)

lemma applied_jobs:
  assumes "store_inv s"
  shows "fmlookup (s_jobs (applied e s)) k =
     (let kept = (case fmlookup (s_jobs s) k of None \<Rightarrow> None
        | Some j \<Rightarrow> if k \<in> set (e_EvictedJobIDs e) \<or> j_RequestID j \<in> set (e_EvictedRequestIDs e)
            then None else Some j)
      in case e_Job e of Some j \<Rightarrow> if k = j_ID j then Some j else kept | None \<Rightarrow> kept)"
proof -
  let ?s = "apply_evictions e s"
  have "fmlookup (s_jobs (apply_payload e zero_ref ?s)) k
      = (case e_Job e of Some j \<Rightarrow> if k = j_ID j then Some j else fmlookup (s_jobs ?s) k
         | None \<Rightarrow> fmlookup (s_jobs ?s) k)"
    by (cases "e_Request e"; cases "e_Attempt e"; cases "e_Job e")
      (simp_all add: apply_payload_def apply_request_def apply_attempt_def apply_job_def Let_def)
  then show ?thesis unfolding applied_def apply_evictions_jobs [OF assms] Let_def .
qed

lemma applied_jobs_of:
  assumes "store_inv s"
  shows "jobs_of (applied e s) rid =
    (let kept = (if rid \<in> set (e_EvictedRequestIDs e) then {||}
                 else jobs_of s rid - fset_of_list (e_EvictedJobIDs e))
     in case e_Job e of
          Some j \<Rightarrow> if j_RequestID j = rid then finsert (j_ID j) kept else kept
        | None \<Rightarrow> kept)"
proof -
  let ?s = "apply_evictions e s"
  have "jobs_of (apply_payload e zero_ref ?s) rid
      = (case e_Job e of Some j \<Rightarrow> if j_RequestID j = rid then finsert (j_ID j) (jobs_of ?s rid)
            else jobs_of ?s rid
         | None \<Rightarrow> jobs_of ?s rid)"
    by (cases "e_Request e"; cases "e_Attempt e"; cases "e_Job e")
      (simp_all add: apply_payload_def apply_request_def apply_attempt_def apply_job_def map_get_upd Let_def)
  then show ?thesis unfolding applied_def apply_evictions_jobs_of [OF assms] Let_def .
qed

lemma applied_attempts_of:
  assumes "store_inv s"
  shows "attempts_of (applied e s) rid =
    (let kept = (if rid \<in> set (e_EvictedRequestIDs e) then []
                 else filter (\<lambda>a. a_JobID a \<notin> set (e_EvictedJobIDs e)) (attempts_of s rid))
     in case e_Attempt e of
          Some a \<Rightarrow> if a_RequestID a = rid then kept @ [a\<lparr>a_ResponseBody := []\<rparr>] else kept
        | None \<Rightarrow> kept)"
proof -
  let ?s = "apply_evictions e s"
  have "attempts_of (apply_payload e zero_ref ?s) rid
      = (case e_Attempt e of
           Some a \<Rightarrow> if a_RequestID a = rid then attempts_of ?s rid @ [a\<lparr>a_ResponseBody := []\<rparr>]
             else attempts_of ?s rid
         | None \<Rightarrow> attempts_of ?s rid)"
    by (cases "e_Request e"; cases "e_Attempt e"; cases "e_Job e")
      (simp_all add: apply_payload_def apply_request_def apply_attempt_def apply_job_def map_get_upd Let_def)
  then show ?thesis unfolding applied_def apply_evictions_attempts_of [OF assms] Let_def .
qed

lemma applied_opts [simp]: "s_opts (applied e s) = s_opts s"
  using apply_evictions_frame [of s e] apply_payload_frame [of "apply_evictions e s" e zero_ref]
  by (simp add: applied_def same_frame_def)

end
