(* ===== verification/Store_Calls.thy ===== *)
theory Store_Calls
  imports Store_View
begin

text \<open>
  The calls of the store's operations as steps, and what a call may do to the view. \<open>emits\<close>
  lists the events the operations append, each with the conditions under which they do: it is
  the abstract specification of the operations, and \<open>store_step_changes\<close> says that every call
  of every operation implements it, whatever system call fails.
\<close>

section \<open>Calls\<close>

datatype call =
    AcceptCall request "job option"
  | EnqueueCall job
  | ClaimCall string time time
  | RecoverCall time
  | RecordCall string string attempt string string time
  | FinishCall string string string string
  | LoadCall string
  | RedactCall "(string \<Rightarrow> bool) option"
  | SubscribeCall "64 word"
  | CancelCall nat
  | CloseCall

inductive store_step :: "codec \<Rightarrow> store \<Rightarrow> call \<Rightarrow> store \<Rightarrow> bool" for cd where
  step_accept: "range_order (w_order w) \<Longrightarrow> Accept cd w r jo s = (t, out) \<Longrightarrow>
    store_step cd s (AcceptCall r jo) t"
| step_enqueue: "range_order (w_order w) \<Longrightarrow> Enqueue cd w j s = (t, err) \<Longrightarrow>
    store_step cd s (EnqueueCall j) t"
| step_claim: "range_order (w_order w) \<Longrightarrow> ClaimNextJob cd w owner now lease s = (t, claimed) \<Longrightarrow>
    store_step cd s (ClaimCall owner now lease) t"
| step_recover: "range_order (w_order w) \<Longrightarrow> RecoverLeases cd w now s = (t, err) \<Longrightarrow>
    store_step cd s (RecoverCall now) t"
| step_record: "range_order (w_order w) \<Longrightarrow> RecordAttempt cd w i owner a st msg av s = (t, err) \<Longrightarrow>
    store_step cd s (RecordCall i owner a st msg av) t"
| step_finish: "range_order (w_order w) \<Longrightarrow> FinishWithoutAttempt cd w i owner st msg s = (t, err) \<Longrightarrow>
    store_step cd s (FinishCall i owner st msg) t"
| step_load: "Load cd w i s = (t, loaded) \<Longrightarrow> store_step cd s (LoadCall i) t"
| step_redact: "range_order (w_order w) \<Longrightarrow> RedactHeaders cd w p s = (t, err) \<Longrightarrow>
    store_step cd s (RedactCall p) t"
| step_subscribe: "SubscribeFrom cursor s = (t, sub) \<Longrightarrow> store_step cd s (SubscribeCall cursor) t"
| step_cancel: "store_step cd s (CancelCall c) (cancel_subscription c s)"
| step_close: "Close w s = (t, err) \<Longrightarrow> store_step cd s CloseCall t"

inductive_cases store_stepE: "store_step cd s c t"

lemma store_step_wf:
  assumes "store_step cd s c t" "wf_store cd s"
  shows "wf_store cd t"
  using assms by (cases rule: store_step.cases) (auto intro: keep_inv)

section \<open>The events of the operations\<close>

definition validated :: "store \<Rightarrow> event \<Rightarrow> bool" where
  "validated s e \<longleftrightarrow> (\<exists>w. validateRecoveredEvent (stamped w s e) = None
     \<and> validateStateLocked s (stamped w s e) = None)"

inductive emits :: "store \<Rightarrow> event \<Rightarrow> bool" where
  emit_capture: "duplicateLocked s r = None \<Longrightarrow> fmlookup (s_requests s) (r_ID r) = None \<Longrightarrow>
    (\<And>j. jo = Some j \<Longrightarrow> j_RequestID j = r_ID r \<and> j_State j = ''pending''
       \<and> fmlookup (s_jobs s) (j_ID j) = None) \<Longrightarrow>
    range_order (w_order w) \<Longrightarrow> captureEvictionsLocked w s 1 = Inr evictions \<Longrightarrow>
    emits s (capture_event r jo evictions)"
| emit_repair: "fmlookup (s_requests s) rid \<noteq> None \<Longrightarrow> jobs_of s rid = {||} \<Longrightarrow>
    fmlookup (s_jobs s) (j_ID j) = None \<Longrightarrow> j_State j = ''pending'' \<Longrightarrow>
    emits s (job_event ''pending'' (j\<lparr>j_RequestID := rid\<rparr>))"
| emit_enqueue: "fmlookup (s_requests s) (j_RequestID j) \<noteq> None \<Longrightarrow> j_State j = ''pending'' \<Longrightarrow>
    fmlookup (s_jobs s) (j_ID j) = None \<Longrightarrow> range_order (w_order w) \<Longrightarrow>
    enqueue_eviction w s (j_RequestID j) = Inr evicted \<Longrightarrow>
    emits s ((job_event ''pending'' j)\<lparr>e_EvictedJobIDs := evicted\<rparr>)"
| emit_lease: "fmlookup (s_jobs s) (j_ID j) = Some j \<Longrightarrow> eligible now j \<Longrightarrow>
    emits s (job_event ''leased'' (lease_job owner now lease j))"
| emit_recover: "fmlookup (s_jobs s) (j_ID j) = Some j \<Longrightarrow>
    j_State j = ''leased'' \<or> j_State j = ''running'' \<Longrightarrow>
    emits s (job_event ''pending'' (recovered_job now j))"
| emit_attempt: "leased_by s i owner = Some j \<Longrightarrow>
    a_Number a \<le> MaxAttemptsPerJob (s_opts s) \<Longrightarrow>
    a_Number a = next_number i (attempts_of s (j_RequestID j)) \<Longrightarrow>
    a_ID a |\<notin>| s_attemptIDs s \<Longrightarrow> st \<in> set result_states \<Longrightarrow>
    emits s ((job_event st (finished_job j st msg now av))\<lparr>e_Attempt := Some a\<rparr>)"
| emit_finish: "leased_by s i owner = Some j \<Longrightarrow>
    emits s (job_event ''poison''
      (j\<lparr>j_State := ''poison'', j_Error := msg, j_UpdatedAt := now, j_FinishedAt := now,
         j_LeaseOwner := [], j_LeaseExpiresAt := zero_time\<rparr>))"

text \<open>A change of the view: none, an event, or the redaction of headers.\<close>

inductive change :: "store \<Rightarrow> store \<Rightarrow> bool" where
  change_none: "view_of t = view_of s \<Longrightarrow> change s t"
| change_event: "emits s e \<Longrightarrow> validated s e \<Longrightarrow> view_of t = view_of (applied e s) \<Longrightarrow> change s t"
| change_redact: "view_of t = view_of (redact_state p s) \<Longrightarrow> change s t"

definition wf_change :: "codec \<Rightarrow> store \<Rightarrow> store \<Rightarrow> bool" where
  "wf_change cd s t \<longleftrightarrow> wf_store cd s \<and> wf_store cd t \<and> change s t"

lemma appendLocked_change:
  assumes "appendLocked cd w e s = (t, x)" "emits s e"
  shows "change s t"
  using assms(1)
proof (cases rule: appendLocked_view)
  case same
  then show ?thesis by (intro change_none)
next
  case (took b)
  have "validated s e"
    using took(1) unfolding validated_def admitted_def by blast
  then show ?thesis using assms(2) took(2) by (intro change_event)
qed

lemma change_trivial: "view_of t = view_of s \<Longrightarrow> wf_store cd s \<Longrightarrow> wf_store cd t \<Longrightarrow>
    (wf_change cd)\<^sup>*\<^sup>* s t"
  by (intro r_into_rtranclp) (simp add: wf_change_def change_none)

section \<open>Every call implements its events\<close>

lemma fold_prefer_None:
  "fold (\<lambda>i d. prefer_job d (f i)) xs (Some d0) \<noteq> None"
  by (induction xs arbitrary: d0) (auto simp: prefer_job_def)

lemma prefer_job_None: "prefer_job None j = Some j"
  by (simp add: prefer_job_def)

text \<open>A key in use belongs to a retained request that has it.\<close>

lemma duplicateLocked_SomeD:
  assumes "duplicateLocked s r = Some (i, res)" "keys_inv s"
  obtains q where "fmlookup (s_requests s) i = Some q" "r_DeliveryID q = r_DeliveryID r"
    "res = (if r_BodySHA256 q = r_BodySHA256 r then Duplicate else Conflict)"
    "r_DeliveryID r = [] \<Longrightarrow> r_BodySHA256 q = r_BodySHA256 r"
proof (cases "r_DeliveryID r = []")
  case True
  then have "fmlookup (s_body s) (r_BodySHA256 r) = Some i" "res = Duplicate"
    using assms(1) by (auto simp: duplicateLocked_def split: option.splits)
  then show ?thesis using assms(2) that True unfolding keys_inv_def by metis
next
  case False
  then have d: "fmlookup (s_delivery s) (r_DeliveryID r) = Some i"
    and res: "res = (if r_BodySHA256 (map_get zero_request (s_requests s) i) = r_BodySHA256 r
        then Duplicate else Conflict)"
    using assms(1) by (auto simp: duplicateLocked_def split: option.splits if_splits)
  obtain q where "fmlookup (s_requests s) i = Some q" "r_DeliveryID q = r_DeliveryID r"
    using d assms(2) unfolding keys_inv_def by metis
  then show ?thesis using that res False by (simp add: map_get_def)
qed

lemma discoverable_None:
  assumes "discoverableJobLocked w s rid = None" "range_order (w_order w)"
  shows "jobs_of s rid = {||}"
proof -
  have "range_fset (w_order w) (jobs_of s rid) = []"
  proof (cases "range_fset (w_order w) (jobs_of s rid)")
    case (Cons a as)
    then have "discoverableJobLocked w s rid
        = fold (\<lambda>i d. prefer_job d (map_get zero_job (s_jobs s) i)) as
            (Some (map_get zero_job (s_jobs s) a))"
      by (simp add: discoverableJobLocked_def prefer_job_None)
    then show ?thesis using assms(1) fold_prefer_None by metis
  qed
  then have "set (range_fset (w_order w) (jobs_of s rid)) = {}" by simp
  then have "fset (jobs_of s rid) = {}" using assms(2) by simp
  then show ?thesis by (metis bot_fset.rep_eq fset_inject)
qed

lemma Accept_change:
  assumes "Accept cd w r jo s = (t, out)" "wf_store cd s" "range_order (w_order w)"
  shows "change s t"
proof (cases "(case jo of None \<Rightarrow> False
    | Some j \<Rightarrow> j_ID j = [] \<or> j_RequestID j \<noteq> r_ID r \<or> j_State j \<noteq> ''pending'')")
  case True
  then show ?thesis using assms(1) by (auto simp: Accept_def intro: change_none)
next
  case ok: False
  show ?thesis
  proof (cases "duplicateLocked s r")
    case None
    then have a: "accept_new cd w r jo s = (t, out)" using assms(1) ok by (simp add: Accept_def)
    have e: "emits s (capture_event r jo xs)"
      if "captureEvictionsLocked w s 1 = Inr xs" "fmlookup (s_requests s) (r_ID r) = None"
        "\<not> (case jo of None \<Rightarrow> False | Some j \<Rightarrow> fmlookup (s_jobs s) (j_ID j) \<noteq> None)" for xs
      using that ok None assms(3) by (intro emit_capture) auto
    show ?thesis
      using a e appendLocked_change
      by (auto simp: accept_new_def intro: change_none split: if_splits sum.splits prod.splits)
  next
    case (Some p)
    obtain i res where p: "p = (i, res)" by fastforce
    have a: "accept_duplicate cd w i res jo s = (t, out)"
      using assms(1) ok Some p by (simp add: Accept_def)
    have rq: "fmlookup (s_requests s) i \<noteq> None"
      using duplicateLocked_SomeD [OF _ wf_storeD(8) [OF assms(2)]] Some p by (metis option.distinct(1))
    have "emits s (job_event ''pending'' (j\<lparr>j_RequestID := i\<rparr>))"
      if "jo = Some j" "discoverableJobLocked w s i = None" "fmlookup (s_jobs s) (j_ID j) = None" for j
      using that ok discoverable_None [OF that(2) assms(3)] rq by (intro emit_repair) auto
    then show ?thesis
      using a appendLocked_change
      by (auto simp: accept_duplicate_def Let_def intro: change_none
          split: if_splits sum.splits prod.splits option.splits)
  qed
qed

lemma error_only_change:
  assumes "error_only (appendLocked cd w e s) = (t, err)" "emits s e"
  shows "change s t"
  using assms appendLocked_change [of cd w e s]
  by (cases "appendLocked cd w e s") (auto simp: error_only_def split: sum.splits)

lemma Enqueue_change:
  assumes "Enqueue cd w j s = (t, err)" "range_order (w_order w)"
  shows "change s t"
proof -
  have "emits s ((job_event ''pending'' j)\<lparr>e_EvictedJobIDs := xs\<rparr>)"
    if "enqueue_eviction w s (j_RequestID j) = Inr xs" "fmlookup (s_requests s) (j_RequestID j) \<noteq> None"
      "j_State j = ''pending''" "fmlookup (s_jobs s) (j_ID j) = None" for xs
    using that assms(2) by (intro emit_enqueue)
  then show ?thesis
    using assms(1) error_only_change
    by (auto simp: Enqueue_def intro: change_none split: if_splits sum.splits)
qed

lemma all_jobs_iff:
  assumes "range_order (w_order w)" "jobs_inv s"
  shows "j \<in> set (all_jobs w s) \<longleftrightarrow> fmlookup (s_jobs s) (j_ID j) = Some j"
proof
  assume "j \<in> set (all_jobs w s)"
  then obtain k where "k \<in> set (range_keys (w_order w) (s_jobs s))" and
    j: "j = map_get zero_job (s_jobs s) k"
    unfolding all_jobs_def set_map by blast
  then have "k |\<in>| fmdom (s_jobs s)" using assms(1) by simp
  then have k: "fmlookup (s_jobs s) k = Some j" by (auto simp: fmlookup_dom_iff j)
  then show "fmlookup (s_jobs s) (j_ID j) = Some j" using jobs_invD(1) [OF assms(2) k] by simp
next
  assume l: "fmlookup (s_jobs s) (j_ID j) = Some j"
  then have "j_ID j \<in> set (range_keys (w_order w) (s_jobs s))"
    using assms(1) by (simp add: fmlookup_dom_iff)
  moreover have "map_get zero_job (s_jobs s) (j_ID j) = j" using l by (simp add: map_get_def)
  ultimately show "j \<in> set (all_jobs w s)"
    unfolding all_jobs_def set_map by (metis imageI)
qed

lemma ClaimNextJob_change:
  assumes "ClaimNextJob cd w owner now lease s = (t, out)" "wf_store cd s" "range_order (w_order w)"
  shows "change s t"
proof (cases "sort_slice claim_order (filter (eligible now) (all_jobs w s))")
  case Nil
  then show ?thesis using assms(1) by (auto simp: ClaimNextJob_def intro: change_none)
next
  case (Cons c cs)
  then have "c \<in> set (sort_slice claim_order (filter (eligible now) (all_jobs w s)))" by simp
  then have "eligible now c" "fmlookup (s_jobs s) (j_ID c) = Some c"
    using all_jobs_iff [OF assms(3) wf_storeD(6) [OF assms(2)]] by auto
  then have "emits s (job_event ''leased'' (lease_job owner now lease c))" by (intro emit_lease)
  then show ?thesis
    using assms(1) Cons appendLocked_change
    by (auto simp: ClaimNextJob_def Let_def split: prod.splits sum.splits)
qed

lemma recover_jobs_changes:
  "recover_jobs cd w now js s = (t, err) \<Longrightarrow> wf_store cd s \<Longrightarrow> range_order (w_order w) \<Longrightarrow>
    distinct (map j_ID js) \<Longrightarrow>
    (\<And>j. j \<in> set js \<Longrightarrow> fmlookup (s_jobs s) (j_ID j) = Some j
      \<and> (j_State j = ''leased'' \<or> j_State j = ''running'')) \<Longrightarrow> (wf_change cd)\<^sup>*\<^sup>* s t"
proof (induction cd w now js s rule: recover_jobs.induct)
  case (1 cd w now s)
  then show ?case by simp
next
  case (2 cd w now j js s)
  let ?e = "job_event ''pending'' (recovered_job now j)"
  obtain u x where u: "appendLocked cd w ?e s = (u, x)" by fastforce
  have em: "emits s ?e" using "2.prems"(5) by (intro emit_recover) auto
  have wu: "wf_store cd u" using appendLocked_wf [OF u "2.prems"(2)] "2.prems"(3) by simp
  have c: "wf_change cd s u"
    using appendLocked_change [OF u em] wu "2.prems"(2) by (simp add: wf_change_def)
  show ?case
  proof (cases x)
    case (Inl h)
    then show ?thesis using u "2.prems"(1) c by (auto intro: r_into_rtranclp)
  next
    case (Inr e)
    have keep: "fmlookup (s_jobs u) (j_ID k) = Some k" if k: "k \<in> set js" for k
    proof -
      have "j_ID j \<notin> j_ID ` set js" using "2.prems"(4) by simp
      then have "j_ID k \<noteq> j_ID j" using k by (metis imageI)
      moreover have "view_of u = view_of (applied ?e s)"
        using u by (cases rule: appendLocked_view) (auto simp: Inr)
      then have "s_jobs u = s_jobs (applied ?e s)" by (simp add: view_of_eq)
      moreover have "store_inv s" by (rule wf_storeD(1) [OF "2.prems"(2)])
      ultimately show ?thesis
        using "2.prems"(5) [of k] k
        by (simp add: applied_jobs job_event_def recovered_job_def split: option.split)
    qed
    have "(wf_change cd)\<^sup>*\<^sup>* u t"
      using u Inr "2.prems" wu keep by (intro "2.IH" [OF u [symmetric] Inr]) auto
    then show ?thesis using c by (rule converse_rtranclp_into_rtranclp [rotated])
  qed
qed

lemma distinct_all_jobs:
  assumes "range_order (w_order w)" "jobs_inv s"
  shows "distinct (map j_ID (all_jobs w s))"
proof -
  have "map j_ID (all_jobs w s) = range_keys (w_order w) (s_jobs s)"
    unfolding all_jobs_def using assms
    by (auto simp: map_idI fmlookup_dom_iff jobs_invD(1) intro!: map_idI)
  then show ?thesis using assms(1) by simp
qed

lemma distinct_map_filter: "distinct (map f xs) \<Longrightarrow> distinct (map f (filter P xs))"
  by (induction xs) auto

lemma distinct_map_sort_slice: "distinct (map f xs) \<Longrightarrow> distinct (map f (sort_slice lt xs))"
  by (metis mset_map mset_sort_slice mset_eq_imp_distinct_iff)

lemma RecoverLeases_changes:
  assumes "RecoverLeases cd w now s = (t, err)" "wf_store cd s" "range_order (w_order w)"
  shows "(wf_change cd)\<^sup>*\<^sup>* s t"
proof (rule recover_jobs_changes)
  show "recover_jobs cd w now (stale_jobs w s) s = (t, err)"
    using assms(1) by (simp add: RecoverLeases_def)
  have j: "jobs_inv s" by (rule wf_storeD(6) [OF assms(2)])
  show "distinct (map j_ID (stale_jobs w s))"
    unfolding stale_jobs_def
    by (intro distinct_map_sort_slice distinct_map_filter distinct_all_jobs [OF assms(3) j])
  show "fmlookup (s_jobs s) (j_ID k) = Some k \<and> (j_State k = ''leased'' \<or> j_State k = ''running'')"
    if "k \<in> set (stale_jobs w s)" for k
    using that all_jobs_iff [OF assms(3) j, of k] by (simp add: stale_jobs_def)
qed (use assms in simp_all)

lemma RecordAttempt_change:
  assumes "RecordAttempt cd w i owner a st msg av s = (t, err)"
  shows "change s t"
proof (cases "leased_by s i owner")
  case None
  then show ?thesis using assms by (auto simp: RecordAttempt_def intro: change_none)
next
  case (Some j)
  let ?e = "\<lambda>now. (job_event st (finished_job j st msg now av))\<lparr>e_Attempt := Some a\<rparr>"
  have "emits s (?e now)"
    if "\<not> a_Number a > MaxAttemptsPerJob (s_opts s)"
      "\<not> a_Number a \<noteq> next_number i (attempts_of s (j_RequestID j))"
      "a_ID a |\<notin>| s_attemptIDs s" "st \<in> set result_states" for now
    using that by (intro emit_attempt [OF Some]) auto
  then show ?thesis
    using assms error_only_change
    by (auto simp: RecordAttempt_def Some Let_def intro: change_none split: if_splits)
qed

lemma FinishWithoutAttempt_change:
  assumes "FinishWithoutAttempt cd w i owner st msg s = (t, err)"
  shows "change s t"
proof (cases "leased_by s i owner")
  case None
  then show ?thesis using assms by (auto simp: FinishWithoutAttempt_def intro: change_none)
next
  case (Some j)
  show ?thesis
    using assms error_only_change emit_finish [OF Some]
    by (auto simp: FinishWithoutAttempt_def Some intro: change_none split: if_splits)
qed

lemma view_of_recountRingLocked [simp]: "view_of (recountRingLocked cd s) = view_of s"
  by (intro view_of_retained) simp_all

lemma RedactHeaders_change:
  assumes "RedactHeaders cd w policy s = (t, err)"
  shows "change s t"
proof (cases policy)
  case None
  then show ?thesis using assms by (auto simp: RedactHeaders_def intro: change_none)
next
  case (Some p)
  let ?u = "if state_needs_redaction p s then recountRingLocked cd (redact_state p s) else redact_state p s"
  have u: "view_of ?u = view_of (redact_state p s)" by simp
  have c: "view_of v = view_of (redact_state p s)" if "compactLocked cd w ?u = (v, y)" for v y
    using compactLocked_view [OF that] u by simp
  have "view_of (poison x v) = view_of v" "view_of (poisoned x v) = view_of v" for x v
    by (simp_all add: poison_def poisoned_def view_of_eq)
  then have "view_of t = view_of s \<or> view_of t = view_of (redact_state p s)"
    using assms u c unfolding RedactHeaders_def Some Let_def option.case
    by (auto simp del: redact_state_sel split: if_splits option.splits sum.splits bool.splits prod.splits)
  then show ?thesis by (auto intro: change_none change_redact)
qed

lemma store_step_change:
  assumes "store_step cd s c t" "wf_store cd s" "\<And>now. c \<noteq> RecoverCall now"
  shows "change s t"
  using assms(1)
proof (cases rule: store_step.cases)
  case (step_accept w r jo out)
  then show ?thesis using Accept_change assms(2) by blast
next
  case (step_enqueue w j err)
  then show ?thesis using Enqueue_change by blast
next
  case (step_claim w owner now lease claimed)
  then show ?thesis using ClaimNextJob_change assms(2) by blast
next
  case (step_recover w now err)
  then show ?thesis using assms(3) by blast
next
  case (step_record w i owner a st msg av err)
  then show ?thesis using RecordAttempt_change by blast
next
  case (step_finish w i owner st msg err)
  then show ?thesis using FinishWithoutAttempt_change by blast
next
  case (step_load w i loaded)
  have "view_of (poison x s) = view_of s" for x by (simp add: poison_def view_of_eq)
  then show ?thesis
    using step_load by (intro change_none) (auto simp: Load_def split: option.splits sum.splits)
next
  case (step_redact w p err)
  then show ?thesis using RedactHeaders_change by blast
next
  case (step_subscribe cursor sub)
  then show ?thesis
    by (intro change_none) (auto simp: SubscribeFrom_def Let_def view_of_eq split: list.splits if_splits)
next
  case (step_cancel k)
  then show ?thesis by (intro change_none) (simp add: cancel_subscription_def view_of_eq)
next
  case (step_close w err)
  then show ?thesis by (intro change_none) (auto simp: Close_def view_of_eq split: if_splits)
qed

lemma store_step_changes:
  assumes "store_step cd s c t" "wf_store cd s"
  shows "(wf_change cd)\<^sup>*\<^sup>* s t"
proof (cases "\<exists>now. c = RecoverCall now")
  case True
  then show ?thesis using assms RecoverLeases_changes by (auto elim: store_step.cases)
next
  case False
  then have "change s t" using store_step_change assms by blast
  then have "wf_change cd s t" using assms store_step_wf by (simp add: wf_change_def)
  then show ?thesis by (rule r_into_rtranclp)
qed

section \<open>Invariants of the view\<close>

text \<open>
  The interface under which a predicate of the view is an invariant of the store: it holds of
  the empty store and every change keeps it.
\<close>

locale view_property =
  fixes cd :: codec
    and P :: "store \<Rightarrow> bool"
  assumes empty: "P (new_store oo f)"
    and kept: "wf_change cd s t \<Longrightarrow> P s \<Longrightarrow> P t"
begin

lemma kept_star: "(wf_change cd)\<^sup>*\<^sup>* s t \<Longrightarrow> P s \<Longrightarrow> P t"
  by (induction rule: rtranclp_induct) (auto intro: kept)

lemma step: "store_step cd s c t \<Longrightarrow> wf_store cd s \<Longrightarrow> P s \<Longrightarrow> P t"
  using store_step_changes kept_star by blast

lemma invariant: "invariant_of (\<lambda>s. \<exists>oo f. s = new_store oo f) (store_step cd)
    (\<lambda>s. wf_store cd s \<and> P s)"
  by unfold_locales (auto simp: wf_store_new empty intro: store_step_wf step)

end

section \<open>Reachable stores\<close>

definition opened :: "codec \<Rightarrow> store \<Rightarrow> bool" where
  "opened cd s \<longleftrightarrow> (\<exists>w oo. OpenWithOptions cd w oo [] = Inr s)"

lemma recover_loop_Nil:
  "recover_loop cd fin [] g seen s
    = (case fin of AtEOF \<Rightarrow> Inr (g, s) | ReadError m \<Rightarrow> Inl (ErrWrap ''read store'' (ErrSystem m)))"
  using readRecord_torn [of "[]"] readRecord_error [of "[]"]
  by (auto simp: recover_loop.simps [of _ _ "[]"] split: stream_end.split)

lemma opened_new: "opened cd s \<Longrightarrow> \<exists>oo. s = new_store oo []"
  by (auto simp: opened_def OpenWithOptions_def recover_def recover_loop_Nil
      split: option.splits if_splits sum.splits)

interpretation store_wf: invariant_of "\<lambda>s. \<exists>oo f. s = new_store oo f" "store_step cd" "wf_store cd" for cd
  by unfold_locales (auto simp: wf_store_new intro: store_step_wf)

abbreviation reachable :: "codec \<Rightarrow> store \<Rightarrow> bool" where
  "reachable cd \<equiv> reach (opened cd) (store_step cd)"

lemma reachable_new: "reachable cd s \<Longrightarrow> reach (\<lambda>s. \<exists>oo f. s = new_store oo f) (store_step cd) s"
proof (induction rule: reach.induct)
  case (reach_init s)
  then show ?case using opened_new by (intro reach.reach_init) blast
next
  case (reach_step s c t)
  from reach_step.IH reach_step.hyps(2) show ?case by (rule reach.reach_step)
qed

lemma reachable_wf: "reachable cd s \<Longrightarrow> wf_store cd s"
  using reachable_new store_wf.reachable by blast

end
