(* ===== verification/Store_Redaction.thy ===== *)
theory Store_Redaction
  imports Store_Calls
begin

text \<open>
  A policy of header redaction as an invariant of the store: if the requests and attempts given
  to the operations are redacted, then so is every header the store holds and every event it
  hands to a subscriber. \<open>kept_by_appends\<close> is the interface for a predicate that is kept because
  each event an operation appends has some property; its lemmas go through the operations once.
\<close>

section \<open>Predicates kept by appends\<close>

locale kept_by_appends =
  fixes cd :: codec
    and P :: "store \<Rightarrow> bool"
    and Q :: "event \<Rightarrow> bool"
  assumes append: "appendLocked cd w e s = (t, x) \<Longrightarrow> wf_store cd s \<Longrightarrow> P s \<Longrightarrow> Q e \<Longrightarrow> P t"
    and job_events: "Q (job_event st j)" "Q ((job_event st j)\<lparr>e_EvictedJobIDs := xs\<rparr>)"
    and loading: "P (poison h s) = P s"
begin

lemma only_error:
  assumes "error_only (appendLocked cd w e s) = (t, x)" "wf_store cd s" "P s" "Q e"
  shows "P t"
proof (cases "appendLocked cd w e s")
  case (Pair u y)
  then have "P u" using append assms(2-) by blast
  then show ?thesis using assms(1) Pair by (cases y) (simp_all add: error_only_def)
qed

lemma Accept_kept:
  assumes "Accept cd w r jo s = (t, out)" "wf_store cd s" "P s" "\<And>xs. Q (capture_event r jo xs)"
  shows "P t"
proof -
  have "P u" if "appendLocked cd w (capture_event r jo xs) s = (u, x)" for u x xs
    using append [OF that] assms by blast
  moreover have "P u" if "appendLocked cd w (job_event st j) s = (u, x)" for u x st j
    using append [OF that] assms job_events by blast
  ultimately show ?thesis
    using assms(1,3)
    by (auto simp: Accept_def accept_new_def accept_duplicate_def Let_def
        split: if_splits option.splits sum.splits prod.splits)
qed

lemma Enqueue_kept:
  assumes "Enqueue cd w j s = (t, err)" "wf_store cd s" "P s"
  shows "P t"
  using assms only_error job_events by (auto simp: Enqueue_def split: if_splits sum.splits)

lemma ClaimNextJob_kept:
  assumes "ClaimNextJob cd w owner now lease s = (t, x)" "wf_store cd s" "P s"
  shows "P t"
proof -
  have "P u" if "appendLocked cd w (job_event st j) s = (u, y)" for u y st j
    using append [OF that] assms job_events by blast
  then show ?thesis
    using assms(1,3) by (auto simp: ClaimNextJob_def Let_def split: list.splits sum.splits prod.splits)
qed

lemma recover_jobs_kept:
  "recover_jobs cd w now js s = (t, x) \<Longrightarrow> wf_store cd s \<Longrightarrow> range_order (w_order w) \<Longrightarrow> P s \<Longrightarrow> P t"
proof (induction js arbitrary: s)
  case (Cons j js)
  show ?case
  proof (cases "appendLocked cd w (job_event ''pending'' (recovered_job now j)) s")
    case (Pair u y)
    then have "wf_store cd u" "P u"
      using Cons.prems append job_events(1) appendLocked_wf [OF Pair] by auto
    then show ?thesis using Pair Cons by (cases y) auto
  qed
qed simp

lemma RecordAttempt_kept:
  assumes "RecordAttempt cd w i owner a st msg av s = (t, x)" "wf_store cd s" "P s"
    "\<And>j. Q ((job_event st j)\<lparr>e_Attempt := Some a\<rparr>)"
  shows "P t"
  using assms only_error by (auto simp: RecordAttempt_def Let_def split: if_splits option.splits)

lemma FinishWithoutAttempt_kept:
  assumes "FinishWithoutAttempt cd w i owner st msg s = (t, x)" "wf_store cd s" "P s"
  shows "P t"
  using assms only_error job_events
  by (auto simp: FinishWithoutAttempt_def split: if_splits option.splits)

lemma Load_kept: "Load cd w i s = (t, x) \<Longrightarrow> P s \<Longrightarrow> P t"
  by (auto simp: Load_def loading split: option.splits sum.splits)

end

section \<open>Redacted stores\<close>

definition headers_redacted :: "(string \<Rightarrow> bool) \<Rightarrow> header \<Rightarrow> bool" where
  "headers_redacted p h \<longleftrightarrow> \<not> headerValuesNeedRedaction h p"

definition event_redacted :: "(string \<Rightarrow> bool) \<Rightarrow> event \<Rightarrow> bool" where
  "event_redacted p e \<longleftrightarrow> \<not> event_needs_redaction p (event_headers e)"

definition store_redacted :: "(string \<Rightarrow> bool) \<Rightarrow> store \<Rightarrow> bool" where
  "store_redacted p s \<longleftrightarrow>
     (\<forall>i r. fmlookup (s_requests s) i = Some r \<longrightarrow> headers_redacted p (r_Headers r))
     \<and> (\<forall>i a. a \<in> set (attempts_of s i) \<longrightarrow> headers_redacted p (a_ResponseHeaders a))
     \<and> (\<forall>e \<in> set (s_ring s). event_redacted p e)
     \<and> (\<forall>c ch. fmlookup (s_chans s) c = Some ch \<longrightarrow> (\<forall>e \<in> set (ch_buffer ch). event_redacted p e))"

lemma headers_redacted_iff:
  "headers_redacted p h \<longleftrightarrow> (\<forall>k v. fmlookup h k = Some v \<longrightarrow> p k \<longrightarrow> v = [REDACTED])"
  by (auto simp: headers_redacted_def headerValuesNeedRedaction_def fmpred_iff)

lemma event_redacted_iff:
  "event_redacted p e \<longleftrightarrow>
     (\<forall>r. e_Request e = Some r \<longrightarrow> headers_redacted p (r_Headers r))
     \<and> (\<forall>a. e_Attempt e = Some a \<longrightarrow> headers_redacted p (a_ResponseHeaders a))"
  by (cases "e_Request e"; cases "e_Attempt e")
    (simp_all add: event_redacted_def event_needs_redaction_def event_headers_def headers_redacted_def)

lemma event_redacted_stamped [simp]: "event_redacted p (stamped w s e) = event_redacted p e"
  by (simp add: event_redacted_iff stamped_def)

lemma event_redacted_ops [simp]:
  "event_redacted p (job_event st j)" "event_redacted p ((job_event st j)\<lparr>e_EvictedJobIDs := xs\<rparr>)"
  "event_redacted p ((job_event st j)\<lparr>e_Attempt := Some a\<rparr>) = headers_redacted p (a_ResponseHeaders a)"
  "event_redacted p (capture_event r jo xs) = headers_redacted p (r_Headers r)"
  by (simp_all add: event_redacted_iff job_event_def capture_event_def)

lemma trim_ring_subset: "trim_ring cd oo es n = (ring, m) \<Longrightarrow> set ring \<subseteq> set es"
  by (induction cd oo es n arbitrary: ring m rule: trim_ring.induct) (auto split: if_splits)

lemma appendRing_subset: "set (s_ring (appendRing cd e s)) \<subseteq> insert e (set (s_ring s))"
proof -
  obtain ring m where
    t: "trim_ring cd (s_opts s) (s_ring s @ [e]) (s_ringBytes s + event_bytes cd e) = (ring, m)"
    by fastforce
  then show ?thesis using trim_ring_subset [OF t] by (auto simp: appendRing_def)
qed

lemma apply_evictions_ring [simp]: "s_ring (apply_evictions e s) = s_ring s"
  using apply_evictions_frame [of s e] by (simp add: same_frame_def)

lemma logged_ring: "set (s_ring (logged cd w e b s)) \<subseteq> insert (stamped w s e) (set (s_ring s))"
proof -
  have ap: "set (s_ring (apply_event cd e' ref u)) \<subseteq> insert e' (set (s_ring u))" for e' ref u
  proof -
    define v where "v = apply_payload e' ref (apply_evictions e' (if e_Seq e' > s_seq u then u\<lparr>s_seq := e_Seq e'\<rparr> else u))"
    have "s_ring v = s_ring u"
      unfolding v_def using apply_payload_frame by (auto simp: same_frame_def)
    then show ?thesis
      using appendRing_subset [of cd e' v] by (simp add: apply_event_def Let_def flip: v_def)
  qed
  define u where "u = s\<lparr>s_seq := s_seq s + 1, s_file := s_file s @ b @ [newline]\<rparr>"
  have "s_ring u = s_ring s" by (simp add: u_def)
  then show ?thesis
    using ap [of "stamped w s e" _ u] by (simp add: logged_def Let_def flip: u_def)
qed

lemma publish_buffers:
  assumes "fmlookup (s_chans (publish e s)) c = Some ch" "x \<in> set (ch_buffer ch)"
  shows "x = e \<or> (\<exists>ch0. fmlookup (s_chans s) c = Some ch0 \<and> x \<in> set (ch_buffer ch0))"
  using assms by (auto simp: publish_def split: if_splits)

lemma logged_redacted:
  assumes "store_redacted p s" "event_redacted p e" "store_inv s"
  shows "store_redacted p (logged cd w e b s)"
proof -
  let ?t = "logged cd w e b s"
  have v: "s_requests ?t = s_requests (applied e s)" "s_attempts ?t = s_attempts (applied e s)"
    using logged_view [of cd w e b s] by (simp_all add: view_of_eq)
  have "headers_redacted p (r_Headers r)" if "fmlookup (s_requests ?t) i = Some r" for i r
    using that assms(1,2) unfolding v applied_requests
    by (auto simp: store_redacted_def event_redacted_iff split: option.splits if_splits)
  moreover have "headers_redacted p (a_ResponseHeaders a)" if "a \<in> set (attempts_of ?t i)" for i a
    using that assms(1,2) unfolding v applied_attempts_of [OF assms(3)]
    by (auto simp: store_redacted_def event_redacted_iff Let_def split: option.splits if_splits)
  moreover have "event_redacted p x" if "x \<in> set (s_ring ?t)" for x
    using that logged_ring [of cd w e b s] assms(1,2) by (auto simp: store_redacted_def)
  ultimately show ?thesis using assms(1) by (simp add: store_redacted_def)
qed

lemma store_redacted_cong:
  assumes "s_requests t = s_requests s" "s_attempts t = s_attempts s" "s_ring t = s_ring s"
    "s_chans t = s_chans s"
  shows "store_redacted p t = store_redacted p s"
  unfolding store_redacted_def assms ..

lemma publish_redacted:
  assumes "store_redacted p s" "event_redacted p e"
  shows "store_redacted p (publish e s)"
proof -
  have "s_requests (publish e s) = s_requests s" "s_attempts (publish e s) = s_attempts s"
    "s_ring (publish e s) = s_ring s" by (simp_all add: publish_def)
  then show ?thesis
    using assms publish_buffers [of e s] unfolding store_redacted_def by metis
qed

lemma appendLocked_redacted:
  assumes "appendLocked cd w e s = (t, x)" "wf_store cd s" "store_redacted p s" "event_redacted p e"
  shows "store_redacted p t"
proof -
  have c: "store_redacted p v" if "compactLocked cd w u = (v, y)" "store_redacted p u" for u v y
    using compactLocked_same [OF that(1)] that(2) store_redacted_cong [of v u]
    by (simp add: same_but_log_def)
  have l: "store_redacted p (logged cd w e b s)" for b
    using assms(2-) by (intro logged_redacted) (simp_all add: wf_storeD)
  show ?thesis
    using assms(1)
  proof (cases rule: appendLocked_cases)
    case (refused h)
    then show ?thesis
      using refused_same [OF refused(2)] assms(3) store_redacted_cong [of t s]
      by (simp add: retained_of_def)
  next
    case (stored b)
    then show ?thesis using l assms(4) by (simp add: publish_redacted)
  next
    case (compacted b v)
    then show ?thesis using c [OF compacted(3) l] assms(4) by (simp add: publish_redacted)
  next
    case (failed b v h)
    then show ?thesis
      using c [OF failed(3) l] store_redacted_cong [of t v] by (simp add: poisoned_def)
  qed
qed

interpretation redaction: kept_by_appends cd "store_redacted p" "event_redacted p" for cd p
proof
  show "store_redacted p t" if "appendLocked cd w e s = (t, x)" "wf_store cd s" "store_redacted p s"
    "event_redacted p e" for w e s t x
    by (rule appendLocked_redacted [OF that])
  show "store_redacted p (poison h s) = store_redacted p s" for h s
    by (rule store_redacted_cong) (simp_all add: poison_def)
qed simp_all

section \<open>The operations that do not append\<close>

lemma redact_header_redacted:
  "headers_redacted p h \<Longrightarrow> headers_redacted p (redact_header q h)"
  "headers_redacted p (redact_header p h)"
  by (auto simp: headers_redacted_iff redact_header_def)

lemma redact_state_chans [simp]: "s_chans (redact_state q s) = s_chans s"
  by (simp add: redact_state_def)

lemma redact_state_redacted:
  assumes "store_redacted p s"
  shows "store_redacted p (redact_state q s)"
  using assms
  by (auto simp: store_redacted_def redact_request_def redact_attempt_def redact_event_def
      event_redacted_iff redact_header_redacted)

text \<open>Redacting a store none of whose subscribers holds an event.\<close>

lemma redact_state_establishes:
  assumes "\<And>c ch. fmlookup (s_chans s) c = Some ch \<Longrightarrow> ch_buffer ch = []"
  shows "store_redacted p (redact_state p s)"
  using assms
  by (auto simp: store_redacted_def redact_request_def redact_attempt_def redact_event_def
      event_redacted_iff redact_header_redacted)

lemma recountRingLocked_redacted:
  assumes "store_redacted p s"
  shows "store_redacted p (recountRingLocked cd s)"
proof -
  obtain ring n where t: "trim_ring cd (s_opts s) (s_ring s) (ring_size cd (s_ring s)) = (ring, n)"
    by fastforce
  have "set ring \<subseteq> set (s_ring s)" by (rule trim_ring_subset [OF t])
  then show ?thesis using assms by (auto simp: store_redacted_def recountRingLocked_def t)
qed

lemma RedactHeaders_outcome:
  assumes "RedactHeaders cd w (Some p) s = (t, err)" "s_health s = None" "\<not> s_closed s"
  obtains u where "u = redact_state p s \<or> u = recountRingLocked cd (redact_state p s)"
    "s_requests t = s_requests u" "s_attempts t = s_attempts u" "s_ring t = s_ring u"
    "s_chans t = s_chans u"
proof -
  let ?u = "if state_needs_redaction p s then recountRingLocked cd (redact_state p s) else redact_state p s"
  have c: "s_requests v = s_requests ?u \<and> s_attempts v = s_attempts ?u \<and> s_ring v = s_ring ?u
      \<and> s_chans v = s_chans ?u" if "compactLocked cd w ?u = (v, y)" for v y
    using compactLocked_same [OF that] by (simp add: same_but_log_def)
  have "s_requests t = s_requests ?u \<and> s_attempts t = s_attempts ?u \<and> s_ring t = s_ring ?u
      \<and> s_chans t = s_chans ?u"
    using assms c unfolding RedactHeaders_def Let_def option.case
    by (auto simp del: redact_state_sel simp: poisoned_def
        split: if_splits option.splits sum.splits bool.splits prod.splits)
  then show ?thesis using that [of ?u] by presburger
qed

lemma RedactHeaders_kept:
  assumes "RedactHeaders cd w q s = (t, err)" "store_redacted p s"
  shows "store_redacted p t"
proof (cases "\<exists>f. q = Some f \<and> s_health s = None \<and> \<not> s_closed s")
  case True
  then obtain f where f: "q = Some f" "s_health s = None" "\<not> s_closed s" by blast
  from RedactHeaders_outcome [OF assms(1) [unfolded f(1)] f(2,3)] obtain u where
    u: "u = redact_state f s \<or> u = recountRingLocked cd (redact_state f s)"
    "store_redacted p t = store_redacted p u"
    using store_redacted_cong by metis
  then show ?thesis using assms(2) redact_state_redacted recountRingLocked_redacted by metis
next
  case False
  then have "t = s" using assms(1) by (auto simp: RedactHeaders_def split: option.splits if_splits)
  then show ?thesis using assms(2) by simp
qed

lemma SubscribeFrom_kept:
  assumes "SubscribeFrom cursor s = (t, x)" "store_redacted p s"
  shows "store_redacted p t" "x = Inr (old, c) \<Longrightarrow> e \<in> set old \<Longrightarrow> event_redacted p e"
  using assms
  by (auto simp: SubscribeFrom_def Let_def store_redacted_def split: list.splits if_splits)

lemma cancel_subscription_kept:
  "store_redacted p s \<Longrightarrow> store_redacted p (cancel_subscription c s)"
  by (auto simp: cancel_subscription_def store_redacted_def close_channel_def)

lemma Close_kept: "Close w s = (t, x) \<Longrightarrow> store_redacted p s \<Longrightarrow> store_redacted p t"
  by (auto simp: Close_def store_redacted_def close_channel_def split: if_splits)

section \<open>Steps\<close>

fun call_redacted :: "(string \<Rightarrow> bool) \<Rightarrow> call \<Rightarrow> bool" where
  "call_redacted p (AcceptCall r jo) = headers_redacted p (r_Headers r)"
| "call_redacted p (RecordCall i owner a st msg av) = headers_redacted p (a_ResponseHeaders a)"
| "call_redacted p _ = True"

lemma store_step_redacted:
  assumes "store_step cd s c t" "wf_store cd s" "store_redacted p s" "call_redacted p c"
  shows "store_redacted p t"
  using assms
proof (cases rule: store_step.cases)
  case (step_accept w r jo out)
  then show ?thesis using redaction.Accept_kept assms by (metis call_redacted.simps(1) event_redacted_ops(4))
next
  case (step_enqueue w j err)
  then show ?thesis using redaction.Enqueue_kept assms by blast
next
  case (step_claim w owner now lease claimed)
  then show ?thesis using redaction.ClaimNextJob_kept assms by blast
next
  case (step_recover w now err)
  then show ?thesis using redaction.recover_jobs_kept assms by (metis RecoverLeases_def)
next
  case (step_record w i owner a st msg av err)
  then show ?thesis using redaction.RecordAttempt_kept assms by (metis call_redacted.simps(2) event_redacted_ops(3))
next
  case (step_finish w i owner st msg err)
  then show ?thesis using redaction.FinishWithoutAttempt_kept assms by blast
next
  case (step_load w i loaded)
  then show ?thesis using redaction.Load_kept assms by blast
next
  case (step_redact w q err)
  then show ?thesis using RedactHeaders_kept assms by blast
next
  case (step_subscribe cursor sub)
  then show ?thesis using SubscribeFrom_kept(1) assms by blast
next
  case (step_cancel k)
  then show ?thesis using cancel_subscription_kept assms by simp
next
  case (step_close w err)
  then show ?thesis using Close_kept assms by blast
qed

end
