(* ===== verification/Store_Bounds.thy ===== *)
theory Store_Bounds
  imports Store_Calls
begin

text \<open>
  The bounds of the retained state: the number of captures, of jobs per request and of attempts
  per job. The lemmas on the two eviction functions say which captures and jobs give way: the
  oldest that have no unfinished work.
\<close>

section \<open>Which captures are evicted\<close>

interpretation oldest: slice_less "\<lambda>a b. r_ReceivedAt a < r_ReceivedAt b"
  by (rule slice_less_key)

definition eviction_candidates :: "env \<Rightarrow> store \<Rightarrow> request list" where
  "eviction_candidates w s = sort_slice (\<lambda>a b. r_ReceivedAt a < r_ReceivedAt b)
     (map (map_get zero_request (s_requests s))
       (filter (\<lambda>i. requestTerminalLocked s (r_ID (map_get zero_request (s_requests s) i)))
         (range_keys (w_order w) (s_requests s))))"

lemma captureEvictionsLocked_eq:
  "captureEvictionsLocked w s k =
     (let over = requests_len s + k - MaxCaptures (s_opts s)
      in if over \<le> 0 then Inr []
         else if int (length (eviction_candidates w s)) < over then Inl ErrCapacity
         else Inr (map r_ID (take (nat over) (eviction_candidates w s))))"
  by (simp add: captureEvictionsLocked_def eviction_candidates_def Let_def)

lemma requests_id:
  "requests_inv s \<Longrightarrow> i |\<in>| fmdom (s_requests s) \<Longrightarrow> r_ID (map_get zero_request (s_requests s) i) = i"
  using requests_invD(1) by (auto simp: fmlookup_dom_iff)

lemma candidates_ids:
  assumes "requests_inv s" "range_order (w_order w)"
  shows "mset (map r_ID (eviction_candidates w s))
    = mset (filter (requestTerminalLocked s) (range_keys (w_order w) (s_requests s)))"
proof -
  let ?g = "map_get zero_request (s_requests s)" and ?ks = "range_keys (w_order w) (s_requests s)"
  have id: "r_ID (?g i) = i" if "i \<in> set ?ks" for i
    using that requests_id [OF assms(1)] assms(2) by simp
  have "map r_ID (map ?g (filter (\<lambda>i. requestTerminalLocked s (r_ID (?g i))) ?ks))
      = filter (requestTerminalLocked s) ?ks"
  proof -
    have "filter (\<lambda>i. requestTerminalLocked s (r_ID (?g i))) ?ks = filter (requestTerminalLocked s) ?ks"
      using id by (intro filter_cong) auto
    then show ?thesis using id by (auto simp: comp_def intro!: map_idI)
  qed
  moreover have "mset (map r_ID (eviction_candidates w s))
      = mset (map r_ID (map ?g (filter (\<lambda>i. requestTerminalLocked s (r_ID (?g i))) ?ks)))"
    by (simp only: eviction_candidates_def mset_map mset_sort_slice)
  ultimately show ?thesis by simp
qed

lemma candidates_lookup:
  assumes "requests_inv s" "range_order (w_order w)" "r \<in> set (eviction_candidates w s)"
  shows "fmlookup (s_requests s) (r_ID r) = Some r" "requestTerminalLocked s (r_ID r)"
proof -
  obtain i where i: "i |\<in>| fmdom (s_requests s)" "r = map_get zero_request (s_requests s) i"
    "requestTerminalLocked s (r_ID r)"
    using assms(2,3) by (auto simp: eviction_candidates_def)
  show "requestTerminalLocked s (r_ID r)" by (rule i(3))
  show "fmlookup (s_requests s) (r_ID r) = Some r"
    using i(1,2) requests_id [OF assms(1)] by (auto simp: fmlookup_dom_iff)
qed

lemma captureEvictionsLocked_spec:
  assumes "captureEvictionsLocked w s k = Inr xs" "requests_inv s" "range_order (w_order w)"
  shows "distinct xs" "set xs \<subseteq> fset (fmdom (s_requests s))"
    "x \<in> set xs \<Longrightarrow> requestTerminalLocked s x"
    "int (length xs) = max 0 (requests_len s + k - MaxCaptures (s_opts s))"
    "x \<in> set xs \<Longrightarrow> y |\<in>| fmdom (s_requests s) \<Longrightarrow> y \<notin> set xs \<Longrightarrow> requestTerminalLocked s y \<Longrightarrow>
      r_ReceivedAt (map_get zero_request (s_requests s) x)
        \<le> r_ReceivedAt (map_get zero_request (s_requests s) y)"
proof -
  let ?over = "requests_len s + k - MaxCaptures (s_opts s)" and ?cs = "eviction_candidates w s"
  have "distinct (map r_ID ?cs)"
    using candidates_ids [OF assms(2,3)] assms(3)
    by (metis distinct_filter mset_eq_imp_distinct_iff range_keys_distinct)
  have xs: "xs = [] \<and> ?over \<le> 0
      \<or> 0 < ?over \<and> ?over \<le> int (length ?cs) \<and> xs = map r_ID (take (nat ?over) ?cs)"
    using assms(1) by (auto simp: captureEvictionsLocked_eq Let_def split: if_splits)
  show "distinct xs"
    using xs \<open>distinct (map r_ID ?cs)\<close> by (metis distinct.simps(1) distinct_take take_map)
  show "set xs \<subseteq> fset (fmdom (s_requests s))" "x \<in> set xs \<Longrightarrow> requestTerminalLocked s x"
    using xs candidates_lookup [OF assms(2,3)] by (auto dest!: in_set_takeD simp: fmlookup_dom_iff)
  show "int (length xs) = max 0 ?over" using xs by auto
  show "r_ReceivedAt (map_get zero_request (s_requests s) x)
        \<le> r_ReceivedAt (map_get zero_request (s_requests s) y)"
    if x: "x \<in> set xs" and y: "y |\<in>| fmdom (s_requests s)" "y \<notin> set xs" "requestTerminalLocked s y"
  proof -
    have n: "xs = map r_ID (take (nat ?over) ?cs)" using xs x by auto
    obtain r where r: "r \<in> set (take (nat ?over) ?cs)" "r_ID r = x" using n x by auto
    have "y \<in> set (map r_ID ?cs)"
    proof -
      have "y \<in> set (filter (requestTerminalLocked s) (range_keys (w_order w) (s_requests s)))"
        using y assms(3) by simp
      then show ?thesis using candidates_ids [OF assms(2,3)] by (metis set_mset_mset)
    qed
    then obtain q where "q \<in> set ?cs" "r_ID q = y" by auto
    then have q: "q \<in> set (drop (nat ?over) ?cs)"
      using n y(2) by (metis (no_types, lifting) Un_iff append_take_drop_id image_eqI list.set_map set_append)
    have "r \<in> set ?cs" "q \<in> set ?cs" using r(1) q by (auto dest: in_set_takeD in_set_dropD)
    then have "fmlookup (s_requests s) x = Some r" "fmlookup (s_requests s) y = Some q"
      using candidates_lookup(1) [OF assms(2,3)] r(2) \<open>r_ID q = y\<close> by metis+
    moreover have "\<not> r_ReceivedAt q < r_ReceivedAt r"
      using oldest.sort_slice_take_min r(1) q unfolding eviction_candidates_def by blast
    ultimately show ?thesis by simp
  qed
qed

text \<open>The capacity error means that too few captures are without unfinished work.\<close>

lemma captureEvictionsLocked_full:
  assumes "captureEvictionsLocked w s k = Inl x" "requests_inv s" "range_order (w_order w)"
  shows "x = ErrCapacity"
    "int (fcard (ffilter (requestTerminalLocked s) (fmdom (s_requests s))))
      < requests_len s + k - MaxCaptures (s_opts s)"
proof -
  have "int (length (eviction_candidates w s)) < requests_len s + k - MaxCaptures (s_opts s)"
    and "x = ErrCapacity"
    using assms(1) by (auto simp: captureEvictionsLocked_eq Let_def split: if_splits)
  moreover have "length (eviction_candidates w s)
      = fcard (ffilter (requestTerminalLocked s) (fmdom (s_requests s)))"
  proof -
    let ?ks = "filter (requestTerminalLocked s) (range_keys (w_order w) (s_requests s))"
    have "length (eviction_candidates w s) = length ?ks"
      using candidates_ids [OF assms(2,3)] by (metis length_map size_mset)
    also have "\<dots> = card (set ?ks)"
      using assms(3) by (metis distinct_card distinct_filter range_keys_distinct)
    also have "set ?ks = fset (ffilter (requestTerminalLocked s) (fmdom (s_requests s)))"
      using assms(3) by (auto simp: ffilter.rep_eq)
    finally show ?thesis by (simp add: fcard.rep_eq)
  qed
  ultimately show "x = ErrCapacity"
    "int (fcard (ffilter (requestTerminalLocked s) (fmdom (s_requests s))))
      < requests_len s + k - MaxCaptures (s_opts s)"
    by simp_all
qed

section \<open>Which job is evicted\<close>

lemma enqueue_eviction_spec:
  assumes "enqueue_eviction w s rid = Inr xs" "jobs_inv s" "range_order (w_order w)"
  shows "int (fcard (jobs_of s rid)) < MaxJobsPerRequest (s_opts s) \<and> xs = []
    \<or> (\<exists>j. xs = [j_ID j] \<and> fmlookup (s_jobs s) (j_ID j) = Some j \<and> j_RequestID j = rid
        \<and> terminalState (j_State j)
        \<and> (\<forall>i k. fmlookup (s_jobs s) i = Some k \<longrightarrow> j_RequestID k = rid \<longrightarrow>
             terminalState (j_State k) \<longrightarrow> j_CreatedAt j \<le> j_CreatedAt k))"
proof (cases "int (fcard (jobs_of s rid)) \<ge> MaxJobsPerRequest (s_opts s)")
  case False
  then show ?thesis using assms(1) by (simp add: enqueue_eviction_def)
next
  case True
  define cs where "cs = filter (\<lambda>j. terminalState (j_State j))
    (map (map_get zero_job (s_jobs s)) (range_fset (w_order w) (jobs_of s rid)))"
  have cs: "k \<in> set cs \<longleftrightarrow> fmlookup (s_jobs s) (j_ID k) = Some k \<and> j_RequestID k = rid
      \<and> terminalState (j_State k)" for k
  proof
    assume "k \<in> set cs"
    then obtain i where i: "i |\<in>| jobs_of s rid" "k = map_get zero_job (s_jobs s) i"
      and t: "terminalState (j_State k)"
      using assms(3) by (auto simp: cs_def)
    obtain j where "fmlookup (s_jobs s) i = Some j" "j_RequestID j = rid"
      using i(1) assms(2) by (auto simp: jobs_of_iff)
    then show "fmlookup (s_jobs s) (j_ID k) = Some k \<and> j_RequestID k = rid \<and> terminalState (j_State k)"
      using i(2) t jobs_invD(1) [OF assms(2)] by simp
  next
    assume k: "fmlookup (s_jobs s) (j_ID k) = Some k \<and> j_RequestID k = rid \<and> terminalState (j_State k)"
    then have "j_ID k |\<in>| jobs_of s rid" using assms(2) by (simp add: jobs_of_iff)
    then have "map_get zero_job (s_jobs s) (j_ID k)
        \<in> set (map (map_get zero_job (s_jobs s)) (range_fset (w_order w) (jobs_of s rid)))"
      using assms(3) by simp
    then show "k \<in> set cs" using k by (simp add: cs_def)
  qed
  have "(case sort_slice by_CreatedAt cs of [] \<Rightarrow> Inl ErrCapacity | c # _ \<Rightarrow> Inr [j_ID c]) = Inr xs"
    using assms(1) True by (simp add: enqueue_eviction_def cs_def)
  then obtain c rest where c: "sort_slice by_CreatedAt cs = c # rest" "xs = [j_ID c]"
    by (auto split: list.splits)
  have "c \<in> set cs" using c(1) by (metis list.set_intros(1) set_sort_slice)
  moreover have "j_CreatedAt c \<le> j_CreatedAt k"
    if "fmlookup (s_jobs s) i = Some k" "j_RequestID k = rid" "terminalState (j_State k)" for i k
  proof -
    have "k \<in> set cs" using that cs jobs_invD(1) [OF assms(2) that(1)] by simp
    then have "\<not> by_CreatedAt k (hd (sort_slice by_CreatedAt cs))" by (rule created.sort_slice_hd_min)
    then show ?thesis using c(1) by (simp add: by_CreatedAt_def)
  qed
  ultimately show ?thesis using cs c(2) by blast
qed

lemma requestTerminalLocked_iff:
  assumes "jobs_inv s"
  shows "requestTerminalLocked s rid \<longleftrightarrow>
    (\<forall>i j. fmlookup (s_jobs s) i = Some j \<longrightarrow> j_RequestID j = rid \<longrightarrow> terminalState (j_State j))"
proof -
  have "requestTerminalLocked s rid \<longleftrightarrow>
      (\<forall>i. i |\<in>| jobs_of s rid \<longrightarrow> terminalState (j_State (map_get zero_job (s_jobs s) i)))"
    by (simp add: requestTerminalLocked_def list_all_iff Ball_def)
  then show ?thesis using assms by (fastforce simp: jobs_of_iff)
qed

section \<open>The bounds are invariants\<close>

lemma fcard_none [simp]: "fcard {||} = 0"
  by (simp add: fcard.rep_eq)

lemma job_event_sel [simp]:
  "e_Request (job_event st j) = None" "e_Job (job_event st j) = Some j"
  "e_Attempt (job_event st j) = None" "e_EvictedRequestIDs (job_event st j) = []"
  "e_EvictedJobIDs (job_event st j) = []" "e_Kind (job_event st j) = forward_kind st"
  by (simp_all add: job_event_def)

lemma capture_event_sel [simp]:
  "e_Request (capture_event r jo xs) = Some r" "e_Job (capture_event r jo xs) = jo"
  "e_Attempt (capture_event r jo xs) = None" "e_EvictedRequestIDs (capture_event r jo xs) = xs"
  "e_EvictedJobIDs (capture_event r jo xs) = []"
  by (simp_all add: capture_event_def)

lemma requests_dom_applied:
  "fmdom (s_requests (applied e s)) =
     (case e_Request e of
       Some r \<Rightarrow> finsert (r_ID r) (fmdom (s_requests s) - fset_of_list (e_EvictedRequestIDs e))
     | None \<Rightarrow> fmdom (s_requests s) - fset_of_list (e_EvictedRequestIDs e))"
  by (rule fset_eqI)
    (auto simp: fmdom_mem_iff applied_requests fset_of_list.rep_eq split: option.splits if_splits)

definition captures_bounded :: "store \<Rightarrow> bool" where
  "captures_bounded s \<longleftrightarrow> requests_len s \<le> MaxCaptures (s_opts s)"

lemma captures_bounded_event:
  assumes "emits s e" "store_inv s" "captures_bounded s"
  shows "captures_bounded (applied e s)"
  using assms(1)
proof cases
  case (emit_capture r jo w xs)
  note sp = captureEvictionsLocked_spec [OF emit_capture(6) _ emit_capture(5)]
  have q: "requests_inv s" using assms(2) by (simp add: store_inv_def)
  have "int (fcard (fmdom (s_requests s) - fset_of_list xs)) = requests_len s - int (length xs)"
  proof -
    let ?D = "fset (fmdom (s_requests s))"
    have "card (?D - set xs) = card ?D - card (set xs)"
      using sp(2) [OF q] by (intro card_Diff_subset) simp_all
    moreover have "card (set xs) \<le> card ?D" using sp(2) [OF q] by (intro card_mono) simp_all
    moreover have "card (set xs) = length xs" by (rule distinct_card [OF sp(1) [OF q]])
    ultimately show ?thesis by (simp add: fcard.rep_eq fset_of_list.rep_eq of_nat_diff)
  qed
  moreover have "fcard (finsert (r_ID r) (fmdom (s_requests s) - fset_of_list xs))
      \<le> Suc (fcard (fmdom (s_requests s) - fset_of_list xs))"
    by (simp add: fcard_finsert_if)
  moreover have "int (length xs) \<ge> requests_len s + 1 - MaxCaptures (s_opts s)"
    using sp(4) [OF q] by simp
  ultimately show ?thesis
    by (simp add: captures_bounded_def emit_capture(1) requests_dom_applied)
qed (use assms(3) in \<open>simp_all add: captures_bounded_def requests_dom_applied\<close>)

lemma captures_bounded_view:
  "view_of s = view_of t \<Longrightarrow> captures_bounded s = captures_bounded t"
  by (simp add: captures_bounded_def view_of_eq)

interpretation captures: view_property cd captures_bounded for cd
proof
  show "captures_bounded (new_store oo f)" for oo f
    using options_ok_withDefaults [of oo] by (simp add: captures_bounded_def options_ok_def)
  show "captures_bounded t" if c: "wf_change cd s t" and b: "captures_bounded s" for s t
  proof -
    have i: "store_inv s" using c by (simp add: wf_change_def wf_store_def)
    have "change s t" using c by (simp add: wf_change_def)
    then show ?thesis
    proof cases
      case change_none
      then show ?thesis using captures_bounded_view b by blast
    next
      case (change_event e)
      then show ?thesis using captures_bounded_event [OF _ i b] captures_bounded_view by blast
    next
      case (change_redact p)
      then show ?thesis using captures_bounded_view [OF change_redact] b by (simp add: captures_bounded_def)
    qed
  qed
qed

definition jobs_bounded :: "store \<Rightarrow> bool" where
  "jobs_bounded s \<longleftrightarrow> (\<forall>rid. int (fcard (jobs_of s rid)) \<le> MaxJobsPerRequest (s_opts s))"

lemma jobs_bounded_view: "view_of s = view_of t \<Longrightarrow> jobs_bounded s = jobs_bounded t"
  by (simp add: jobs_bounded_def view_of_eq)

lemma fcard_finsert_le: "int (fcard (finsert x A)) \<le> int (fcard A) + 1"
  by (simp add: fcard_finsert_if)

lemma fcard_minus_le: "int (fcard (A - B)) \<le> int (fcard A)"
  by (metis fcard_mono fminus_iff fsubsetI of_nat_mono)

text \<open>An event on a retained job leaves the jobs of every request as they are.\<close>

lemma applied_jobs_of_same:
  assumes "store_inv s" "e_Job e = Some k" "fmlookup (s_jobs s) (j_ID k) = Some k0"
    "j_RequestID k0 = j_RequestID k" "e_EvictedRequestIDs e = []" "e_EvictedJobIDs e = []"
  shows "jobs_of (applied e s) rid = jobs_of s rid"
proof -
  have "j_ID k |\<in>| jobs_of s (j_RequestID k)"
    using assms(1,3,4) by (simp add: store_inv_def jobs_of_iff)
  then show ?thesis
    unfolding applied_jobs_of [OF assms(1)] Let_def assms(2,5,6) option.case by (auto simp: finsert_absorb)
qed

lemma leased_byD:
  assumes "leased_by s i owner = Some j" "jobs_inv s"
  shows "fmlookup (s_jobs s) (j_ID j) = Some j" "j_ID j = i" "j_State j = ''leased''"
    "j_LeaseOwner j = owner"
proof -
  have l: "fmlookup (s_jobs s) i = Some j" "j_State j = ''leased''" "j_LeaseOwner j = owner"
    using assms(1) by (auto simp: leased_by_def split: option.splits if_splits)
  then show "fmlookup (s_jobs s) (j_ID j) = Some j" "j_ID j = i" "j_State j = ''leased''"
    "j_LeaseOwner j = owner"
    using jobs_invD(1) [OF assms(2) l(1)] by simp_all
qed

lemma finished_job_sel [simp]:
  "j_ID (finished_job j st msg now av) = j_ID j"
  "j_RequestID (finished_job j st msg now av) = j_RequestID j"
  "j_URL (finished_job j st msg now av) = j_URL j"
  "j_CreatedAt (finished_job j st msg now av) = j_CreatedAt j"
  "j_State (finished_job j st msg now av) = st"
  by (simp_all add: finished_job_def Let_def)

lemma jobs_bounded_event:
  assumes "emits s e" "store_inv s" "options_ok (s_opts s)" "jobs_bounded s"
  shows "jobs_bounded (applied e s)"
proof -
  have j: "jobs_inv s" using assms(2) by (simp add: store_inv_def)
  have b: "int (fcard (jobs_of s rid)) \<le> MaxJobsPerRequest (s_opts s)" for rid
    using assms(4) by (simp add: jobs_bounded_def)
  have m: "1 \<le> MaxJobsPerRequest (s_opts s)" using assms(3) by (simp add: options_ok_def)
  have same: "jobs_bounded (applied f s)"
    if "e_Job f = Some k" "fmlookup (s_jobs s) (j_ID k) = Some k0" "j_RequestID k0 = j_RequestID k"
      "e_EvictedRequestIDs f = []" "e_EvictedJobIDs f = []" for f k k0
    using applied_jobs_of_same [OF assms(2) that] b by (simp add: jobs_bounded_def)
  have le: "jobs_bounded (applied e s)"
    if "\<And>rid. int (fcard (jobs_of (applied e s) rid)) \<le> MaxJobsPerRequest (s_opts s)"
    using that by (simp add: jobs_bounded_def)
  show ?thesis
    using assms(1)
  proof cases
    case (emit_capture r jo w xs)
    have none: "jobs_of s (r_ID r) = {||}"
      using emit_capture(3) jobs_invD(3) [OF j] by (fastforce simp: jobs_of_iff [OF j])
    show ?thesis
    proof (rule le)
      show "int (fcard (jobs_of (applied e s) rid)) \<le> MaxJobsPerRequest (s_opts s)" for rid
        using b [of rid] m emit_capture(4) none
        by (auto simp: applied_jobs_of [OF assms(2)] emit_capture(1) Let_def fcard_finsert_if
            split: option.split)
    qed
  next
    case (emit_repair rid j)
    then show ?thesis
      using b m by (intro le) (auto simp: applied_jobs_of [OF assms(2)] Let_def fcard_finsert_if)
  next
    case (emit_enqueue j w xs)
    show ?thesis
    proof (rule le)
      fix rid
      let ?J = "jobs_of s rid - fset_of_list xs"
      show "int (fcard (jobs_of (applied e s) rid)) \<le> MaxJobsPerRequest (s_opts s)"
      proof (cases "j_RequestID j = rid")
        case False
        then show ?thesis
          using b [of rid] fcard_minus_le [of "jobs_of s rid" "fset_of_list xs"]
          by (simp add: applied_jobs_of [OF assms(2)] Let_def emit_enqueue(1))
      next
        case True
        have "int (fcard ?J) < MaxJobsPerRequest (s_opts s)"
        proof (cases "xs = []")
          case True
          then show ?thesis
            using enqueue_eviction_spec [OF emit_enqueue(6) j emit_enqueue(5)] \<open>j_RequestID j = rid\<close> by auto
        next
          case False
          then obtain k where k: "xs = [j_ID k]" "fmlookup (s_jobs s) (j_ID k) = Some k" "j_RequestID k = rid"
            using enqueue_eviction_spec [OF emit_enqueue(6) j emit_enqueue(5)] \<open>j_RequestID j = rid\<close> by auto
          then have "j_ID k |\<in>| jobs_of s rid" using j by (simp add: jobs_of_iff)
          then have "fcard ?J < fcard (jobs_of s rid)"
            unfolding k(1) by (metis fcard_fminus1_less fset_of_list_simps(1,2))
          then show ?thesis using b [of rid] by simp
        qed
        then show ?thesis
          using True fcard_finsert_le [of "j_ID j" ?J]
          by (simp add: applied_jobs_of [OF assms(2)] Let_def emit_enqueue(1))
      qed
    qed
  next
    case (emit_lease j now owner lease)
    then show ?thesis by (intro same [of _ "lease_job owner now lease j" j]) (simp_all add: lease_job_def)
  next
    case (emit_recover j now)
    then show ?thesis by (intro same [of _ "recovered_job now j" j]) (simp_all add: recovered_job_def)
  next
    case (emit_attempt i owner j a st msg now av)
    then show ?thesis
      using leased_byD(1) [OF emit_attempt(2) j]
      by (intro same [of _ "finished_job j st msg now av" j]) simp_all
  next
    case (emit_finish i owner j now msg)
    let ?k = "j\<lparr>j_State := ''poison'', j_Error := msg, j_UpdatedAt := now, j_FinishedAt := now,
       j_LeaseOwner := [], j_LeaseExpiresAt := zero_time\<rparr>"
    show ?thesis
      using leased_byD(1) [OF emit_finish(2) j] emit_finish(1) by (intro same [of _ ?k j]) simp_all
  qed
qed

interpretation jobs: view_property cd jobs_bounded for cd
proof
  show "jobs_bounded (new_store oo f)" for oo f
    using options_ok_withDefaults [of oo] by (simp add: jobs_bounded_def options_ok_def)
  show "jobs_bounded t" if c: "wf_change cd s t" and b: "jobs_bounded s" for s t
  proof -
    have i: "store_inv s" "options_ok (s_opts s)" using c by (simp_all add: wf_change_def wf_store_def)
    have "change s t" using c by (simp add: wf_change_def)
    then show ?thesis
    proof cases
      case change_none
      then show ?thesis using jobs_bounded_view b by blast
    next
      case (change_event e)
      then show ?thesis using jobs_bounded_event [OF _ i b] jobs_bounded_view by blast
    next
      case (change_redact p)
      then show ?thesis using jobs_bounded_view [OF change_redact] b by (simp add: jobs_bounded_def)
    qed
  qed
qed

end
