(* ===== verification/Store_Jobs.thy ===== *)
theory Store_Jobs
  imports Store_Bounds
begin

text \<open>
  Forwarding jobs: the attempts of a job are numbered without gaps from 1 up to the limit, and a
  job that stays in the store moves along the edges of the forwarding life cycle only
  (\<open>job_move\<close>), from which it follows that a terminal job never changes.
\<close>

section \<open>The numbers of the attempts of a job\<close>

definition numbers :: "string \<Rightarrow> attempt list \<Rightarrow> int list" where
  "numbers i as = map a_Number (filter (\<lambda>a. a_JobID a = i) as)"

lemma numbers_simps [simp]:
  "numbers i [] = []" "numbers i (as @ bs) = numbers i as @ numbers i bs"
  "numbers i (a # as) = (if a_JobID a = i then a_Number a # numbers i as else numbers i as)"
  by (simp_all add: numbers_def)

lemma next_number_numbers:
  "next_number i as = fold (\<lambda>x n. if x \<ge> n then x + 1 else n) (numbers i as) 1"
proof -
  have "fold (\<lambda>a n. if a_JobID a = i \<and> a_Number a \<ge> n then a_Number a + 1 else n) as m
      = fold (\<lambda>x n. if x \<ge> n then x + 1 else n) (numbers i as) m" for m
    by (induction as arbitrary: m) auto
  then show ?thesis by (simp add: next_number_def)
qed

lemma next_number_upto:
  assumes "numbers i as = [1..n]" "0 \<le> n"
  shows "next_number i as = n + 1"
proof -
  have "fold (\<lambda>x n. if x \<ge> n then x + 1 else n) [1..int m] (1::int) = int m + 1" for m
  proof (induction m)
    case (Suc m)
    have "[1..int (Suc m)] = [1..int m] @ [int (Suc m)]"
      using upto_rec2 [of 1 "int (Suc m)"] by simp
    then show ?case using Suc by simp
  qed simp
  from this [of "nat n"] show ?thesis using assms by (simp add: next_number_numbers)
qed

definition attempts_numbered :: "store \<Rightarrow> bool" where
  "attempts_numbered s \<longleftrightarrow>
     (\<forall>i j. fmlookup (s_jobs s) i = Some j \<longrightarrow>
        (\<exists>n. 0 \<le> n \<and> n \<le> MaxAttemptsPerJob (s_opts s)
           \<and> numbers i (attempts_of s (j_RequestID j)) = [1..n]))"

lemma attempts_numbered_view: "view_of s = view_of t \<Longrightarrow> attempts_numbered s = attempts_numbered t"
  by (simp add: attempts_numbered_def view_of_eq)

lemma numbers_filter:
  "i \<notin> X \<Longrightarrow> numbers i (filter (\<lambda>a. a_JobID a \<notin> X) as) = numbers i as"
  by (induction as) auto

text \<open>A job that is not in the store has no attempts.\<close>

lemma no_attempts:
  assumes "attempts_inv s" "fmlookup (s_jobs s) i = None"
  shows "numbers i (attempts_of s rid) = []"
proof -
  have "a_JobID a \<noteq> i" if "a \<in> set (attempts_of s rid)" for a
    using attempts_invD(4) [OF assms(1) that] assms(2) by auto
  then show ?thesis by (auto simp: numbers_def filter_empty_conv)
qed

lemma attempts_numbered_event:
  assumes "store_inv s" "options_ok (s_opts s)" "attempts_numbered s" "e_Attempt e = None"
    "\<And>j. e_Job e = Some j \<Longrightarrow> fmlookup (s_jobs s) (j_ID j) = None
      \<or> (\<exists>j0. fmlookup (s_jobs s) (j_ID j) = Some j0 \<and> j_RequestID j0 = j_RequestID j
            \<and> j_ID j \<notin> set (e_EvictedJobIDs e) \<and> j_RequestID j \<notin> set (e_EvictedRequestIDs e))"
  shows "attempts_numbered (applied e s)"
  unfolding attempts_numbered_def applied_opts
proof (intro allI impI)
  fix i j
  assume l: "fmlookup (s_jobs (applied e s)) i = Some j"
  have ai: "attempts_inv s" using assms(1) by (simp add: store_inv_def)
  have n0: "0 \<le> MaxAttemptsPerJob (s_opts s)" using assms(2) by (simp add: options_ok_def)
  have att: "numbers i (attempts_of (applied e s) rid)
      = (if rid \<in> set (e_EvictedRequestIDs e) then []
         else numbers i (filter (\<lambda>a. a_JobID a \<notin> set (e_EvictedJobIDs e)) (attempts_of s rid)))" for rid
    by (simp add: applied_attempts_of [OF assms(1)] assms(4) Let_def)
  have old: "\<exists>n. 0 \<le> n \<and> n \<le> MaxAttemptsPerJob (s_opts s)
      \<and> numbers i (attempts_of (applied e s) (j_RequestID j)) = [1..n]"
    if "fmlookup (s_jobs s) i = Some j0" "j_RequestID j0 = j_RequestID j"
      "i \<notin> set (e_EvictedJobIDs e)" "j_RequestID j \<notin> set (e_EvictedRequestIDs e)" for j0
  proof -
    note here = that
    obtain n where n: "0 \<le> n" "n \<le> MaxAttemptsPerJob (s_opts s)"
      "numbers i (attempts_of s (j_RequestID j)) = [1..n]"
      using assms(3) here(1,2) unfolding attempts_numbered_def by metis
    then have "numbers i (attempts_of (applied e s) (j_RequestID j)) = [1..n]"
      using here(3,4) by (simp add: att numbers_filter)
    then show ?thesis using n(1,2) by blast
  qed
  have fresh: "\<exists>n. 0 \<le> n \<and> n \<le> MaxAttemptsPerJob (s_opts s)
      \<and> numbers i (attempts_of (applied e s) (j_RequestID j)) = [1..n]"
    if "fmlookup (s_jobs s) i = None"
  proof -
    have "numbers i (filter P (attempts_of s (j_RequestID j))) = []" for P
      using no_attempts [OF ai that, of "j_RequestID j"] by (auto simp: numbers_def filter_empty_conv)
    then have "numbers i (attempts_of (applied e s) (j_RequestID j)) = [1..0]" unfolding att by simp
    then show ?thesis using n0 by blast
  qed
  show "\<exists>n\<ge>0. n \<le> MaxAttemptsPerJob (s_opts s)
      \<and> numbers i (attempts_of (applied e s) (j_RequestID j)) = [1..n]"
  proof (cases "\<exists>k. e_Job e = Some k \<and> j_ID k = i")
    case True
    then have ej: "e_Job e = Some j" "j_ID j = i"
      using l by (auto simp: applied_jobs [OF assms(1)] Let_def)
    from assms(5) [OF ej(1)] show ?thesis
    proof
      assume "fmlookup (s_jobs s) (j_ID j) = None"
      then show ?thesis using fresh ej(2) by simp
    next
      assume "\<exists>j0. fmlookup (s_jobs s) (j_ID j) = Some j0 \<and> j_RequestID j0 = j_RequestID j
        \<and> j_ID j \<notin> set (e_EvictedJobIDs e) \<and> j_RequestID j \<notin> set (e_EvictedRequestIDs e)"
      then obtain j0 where "fmlookup (s_jobs s) i = Some j0" "j_RequestID j0 = j_RequestID j"
        "i \<notin> set (e_EvictedJobIDs e)" "j_RequestID j \<notin> set (e_EvictedRequestIDs e)"
        unfolding ej(2) by blast
      then show ?thesis by (rule old)
    qed
  next
    case False
    then have "fmlookup (s_jobs (applied e s)) i = (case fmlookup (s_jobs s) i of None \<Rightarrow> None
        | Some j \<Rightarrow> if i \<in> set (e_EvictedJobIDs e) \<or> j_RequestID j \<in> set (e_EvictedRequestIDs e)
            then None else Some j)"
      unfolding applied_jobs [OF assms(1)] Let_def by (cases "e_Job e") auto
    then have "fmlookup (s_jobs s) i = Some j" "i \<notin> set (e_EvictedJobIDs e)"
      "j_RequestID j \<notin> set (e_EvictedRequestIDs e)"
      using l by (cases "fmlookup (s_jobs s) i"; simp split: if_splits)+
    then show ?thesis using old by blast
  qed
qed

lemma attempts_numbered_attempt:
  assumes "store_inv s" "attempts_numbered s" "leased_by s i owner = Some j"
    "a_Number a \<le> MaxAttemptsPerJob (s_opts s)"
    "a_Number a = next_number i (attempts_of s (j_RequestID j))"
    "a_JobID a = j_ID j" "a_RequestID a = j_RequestID j"
    "e = (job_event st (finished_job j st msg now av))\<lparr>e_Attempt := Some a\<rparr>"
  shows "attempts_numbered (applied e s)"
  unfolding attempts_numbered_def applied_opts
proof (intro allI impI)
  fix k k'
  assume l: "fmlookup (s_jobs (applied e s)) k = Some k'"
  have j: "fmlookup (s_jobs s) i = Some j" "j_ID j = i"
    using leased_byD [OF assms(3)] assms(1) by (auto simp: store_inv_def)
  have att: "numbers k (attempts_of (applied e s) rid) = numbers k (attempts_of s rid)
      @ (if rid = j_RequestID j \<and> k = i then [a_Number a] else [])" for rid
    using j(2) by (simp add: applied_attempts_of [OF assms(1)] assms(6,7,8) Let_def)
  show "\<exists>n\<ge>0. n \<le> MaxAttemptsPerJob (s_opts s)
      \<and> numbers k (attempts_of (applied e s) (j_RequestID k')) = [1..n]"
  proof (cases "k = i")
    case True
    then have k': "j_RequestID k' = j_RequestID j"
      using l j by (auto simp: applied_jobs [OF assms(1)] assms(8) split: if_splits)
    obtain n where n: "0 \<le> n" "numbers i (attempts_of s (j_RequestID j)) = [1..n]"
      using assms(2) j(1) by (auto simp: attempts_numbered_def)
    have a: "a_Number a = n + 1" using next_number_upto [OF n(2,1)] assms(5) by simp
    then have "numbers k (attempts_of (applied e s) (j_RequestID k')) = [1..n + 1]"
      unfolding att k' using n True upto_rec2 [of 1 "n + 1"] by simp
    then show ?thesis using n(1) a assms(4) by (intro exI [of _ "n + 1"]) simp
  next
    case False
    then have "fmlookup (s_jobs s) k = Some k'"
      using l j(2) by (auto simp: applied_jobs [OF assms(1)] assms(8) split: option.splits if_splits)
    then show ?thesis using assms(2) False unfolding att by (simp add: attempts_numbered_def)
  qed
qed

interpretation numbered: view_property cd attempts_numbered for cd
proof
  show "attempts_numbered (new_store oo f)" for oo f
    by (simp add: attempts_numbered_def)
  show "attempts_numbered t" if c: "wf_change cd s t" and b: "attempts_numbered s" for s t
  proof -
    have i: "store_inv s" "options_ok (s_opts s)" using c by (simp_all add: wf_change_def wf_store_def)
    then have j: "jobs_inv s" by (simp add: store_inv_def)
    have "change s t" using c by (simp add: wf_change_def)
    then show ?thesis
    proof cases
      case change_none
      then show ?thesis using attempts_numbered_view b by blast
    next
      case (change_redact p)
      have "numbers i (map (redact_attempt p) as) = numbers i as" for i as
        by (induction as) auto
      then show ?thesis using attempts_numbered_view [OF change_redact] b by (simp add: attempts_numbered_def)
    next
      case (change_event e)
      have "attempts_numbered (applied e s)"
        using change_event(1)
      proof cases
        case (emit_attempt i' owner k a st msg now av)
        obtain w where "validateRecoveredEvent (stamped w s e) = None"
          using change_event(2) by (auto simp: validated_def)
        then have "a_JobID a = j_ID k" "a_RequestID a = j_RequestID k"
          using validateRecoveredEventD(4) [of "stamped w s e" a] emit_attempt(1)
          by (auto simp: forward_kind_simps)
        then show ?thesis
          using emit_attempt by (intro attempts_numbered_attempt [OF i(1) b]) simp_all
      qed (use i b leased_byD(1) [OF _ j] in \<open>auto intro!: attempts_numbered_event simp: lease_job_def recovered_job_def\<close>)
      then show ?thesis using attempts_numbered_view change_event(3) by blast
    qed
  qed
qed

section \<open>The life cycle of a job\<close>

definition poisoned_job :: "string \<Rightarrow> time \<Rightarrow> job \<Rightarrow> job" where
  "poisoned_job msg now j = j\<lparr>j_State := ''poison'', j_Error := msg, j_UpdatedAt := now,
     j_FinishedAt := now, j_LeaseOwner := [], j_LeaseExpiresAt := zero_time\<rparr>"

text \<open>
  The edges of the life cycle: an eligible job is leased, a leased job goes back to pending, or
  it is finished with one of the result states, or it is poisoned.
\<close>

inductive job_move :: "job \<Rightarrow> job \<Rightarrow> bool" where
  move_lease: "eligible now j \<Longrightarrow> job_move j (lease_job owner now lease j)"
| move_recover: "j_State j = ''leased'' \<or> j_State j = ''running'' \<Longrightarrow>
    job_move j (recovered_job now j)"
| move_finish: "j_State j = ''leased'' \<Longrightarrow> st \<in> set result_states \<Longrightarrow>
    job_move j (finished_job j st msg now av)"
| move_poison: "j_State j = ''leased'' \<Longrightarrow> job_move j (poisoned_job msg now j)"

inductive_simps job_move_simps: "job_move j j'"

lemma eligible_states:
  "eligible now j \<Longrightarrow> j_State j \<in> {''pending'', ''queued'', ''retrying'', ''leased'', ''running''}"
  by (auto simp: eligible_def)

lemma job_move_not_terminal: "job_move j j' \<Longrightarrow> \<not> terminalState (j_State j)"
  by (induction rule: job_move.induct) (auto dest: eligible_states)

lemma job_move_identity:
  "job_move j j' \<Longrightarrow> j_ID j' = j_ID j \<and> j_RequestID j' = j_RequestID j \<and> j_URL j' = j_URL j
    \<and> j_CreatedAt j' = j_CreatedAt j"
  by (induction rule: job_move.induct)
    (simp_all add: lease_job_def recovered_job_def poisoned_job_def)

lemma change_job:
  assumes "change s t" "store_inv s" "fmlookup (s_jobs s) i = Some j" "fmlookup (s_jobs t) i = Some j'"
  shows "j' = j \<or> job_move j j'"
  using assms(1)
proof cases
  case change_none
  then show ?thesis using assms(3,4) by (simp add: view_of_eq)
next
  case (change_redact p)
  then show ?thesis using assms(3,4) by (simp add: view_of_eq)
next
  case (change_event e)
  have ji: "jobs_inv s" using assms(2) by (simp add: store_inv_def)
  have ij: "j_ID j = i" by (rule jobs_invD(1) [OF ji assms(3)])
  have t: "fmlookup (s_jobs (applied e s)) i = Some j'"
    using change_event(3) assms(4) by (simp add: view_of_eq)
  have upd: "j' = j \<or> e_Job e = Some j' \<and> j_ID j' = i"
    using t assms(3) unfolding applied_jobs [OF assms(2)] Let_def
    by (auto split: option.splits if_splits)
  have new: "j' = j" if "e_Job e = None \<or> fmlookup (s_jobs s) (j_ID (the (e_Job e))) = None"
    using that upd assms(3) by auto
  have old: "j' = j \<or> k = j \<and> j' = f k"
    if "e_Job e = Some (f k)" "fmlookup (s_jobs s) (j_ID k) = Some k" "j_ID (f k) = j_ID k" for k f
    using that upd assms(3) by auto
  show ?thesis
    using change_event(1)
  proof cases
    case (emit_capture r jo w xs)
    then show ?thesis using new by (cases jo) auto
  next
    case (emit_repair rid k)
    then show ?thesis using new by simp
  next
    case (emit_enqueue k w xs)
    then show ?thesis using new by simp
  next
    case (emit_lease k now owner lease)
    then show ?thesis
      using old [of "lease_job owner now lease" k] move_lease [of now j] by (auto simp: lease_job_def)
  next
    case (emit_recover k now)
    then show ?thesis
      using old [of "recovered_job now" k] move_recover [of j now] by (auto simp: recovered_job_def)
  next
    case (emit_attempt i' owner k a st msg now av)
    then show ?thesis
      using old [of "\<lambda>k. finished_job k st msg now av" k] leased_byD [OF _ ji] move_finish by auto
  next
    case (emit_finish i' owner k now msg)
    then show ?thesis
      using old [of "poisoned_job msg now" k] leased_byD [OF _ ji] move_poison
      by (auto simp: poisoned_job_def)
  qed
qed

text \<open>An unfinished job survives every change.\<close>

lemma change_keeps_unfinished:
  assumes "change s t" "store_inv s" "fmlookup (s_jobs s) i = Some j" "\<not> terminalState (j_State j)"
  shows "fmlookup (s_jobs t) i \<noteq> None"
  using assms(1)
proof cases
  case change_none
  then show ?thesis using assms(3) by (simp add: view_of_eq)
next
  case (change_redact p)
  then show ?thesis using assms(3) by (simp add: view_of_eq)
next
  case (change_event e)
  have ji: "jobs_inv s" and qi: "requests_inv s" using assms(2) by (simp_all add: store_inv_def)
  have kept: "i \<notin> set (e_EvictedJobIDs e) \<and> j_RequestID j \<notin> set (e_EvictedRequestIDs e)"
    using change_event(1)
  proof cases
    case (emit_capture r jo w xs)
    have "\<not> requestTerminalLocked s (j_RequestID j)"
      using assms(3,4) by (auto simp: requestTerminalLocked_iff [OF ji])
    then show ?thesis
      using captureEvictionsLocked_spec(3) [OF emit_capture(6) qi emit_capture(5)] emit_capture(1) by auto
  next
    case (emit_enqueue k w xs)
    then show ?thesis
      using enqueue_eviction_spec [OF emit_enqueue(6) ji emit_enqueue(5)] assms(3,4) by auto
  qed simp_all
  have "fmlookup (s_jobs (applied e s)) i \<noteq> None"
    using kept assms(3) unfolding applied_jobs [OF assms(2)] Let_def
    by (auto split: option.splits)
  then show ?thesis using change_event(3) by (simp add: view_of_eq)
qed

section \<open>Recovering leases\<close>

lemma recovered_job_sel [simp]:
  "j_ID (recovered_job now j) = j_ID j" "j_RequestID (recovered_job now j) = j_RequestID j"
  "j_State (recovered_job now j) = ''pending''"
  by (simp_all add: recovered_job_def)

lemma recover_jobs_effect:
  "recover_jobs cd w now js s = (t, err) \<Longrightarrow> wf_store cd s \<Longrightarrow> range_order (w_order w) \<Longrightarrow>
    distinct (map j_ID js) \<Longrightarrow> (\<And>j. j \<in> set js \<Longrightarrow> fmlookup (s_jobs s) (j_ID j) = Some j) \<Longrightarrow>
    fmlookup (s_jobs t) i = fmlookup (s_jobs s) i \<and> (err = None \<longrightarrow> i \<notin> j_ID ` set js)
    \<or> (\<exists>j \<in> set js. j_ID j = i \<and> fmlookup (s_jobs t) i = Some (recovered_job now j))"
proof (induction cd w now js s rule: recover_jobs.induct)
  case (1 cd w now s)
  then show ?case by simp
next
  case (2 cd w now j js s)
  let ?e = "job_event ''pending'' (recovered_job now j)"
  obtain u x where u: "appendLocked cd w ?e s = (u, x)" by fastforce
  have si: "store_inv s" by (rule wf_storeD(1) [OF "2.prems"(2)])
  have wu: "wf_store cd u" using appendLocked_wf [OF u "2.prems"(2)] "2.prems"(3) by simp
  have eff: "s_jobs u = s_jobs s \<and> (\<exists>h. x = Inl h)
      \<or> (\<forall>k. fmlookup (s_jobs u) k
          = (if k = j_ID j then Some (recovered_job now j) else fmlookup (s_jobs s) k))"
    using u
  proof (cases rule: appendLocked_view)
    case same
    then show ?thesis by (simp add: view_of_eq)
  next
    case (took b)
    then have "s_jobs u = s_jobs (applied ?e s)" by (simp add: view_of_eq)
    then show ?thesis by (simp add: applied_jobs [OF si] split: option.split)
  qed
  have nj: "j_ID j \<notin> j_ID ` set js" using "2.prems"(4) by simp
  show ?case
  proof (cases x)
    case (Inl h)
    then have "t = u" "err \<noteq> None" using u "2.prems"(1) by auto
    then show ?thesis using eff by auto
  next
    case (Inr e)
    then have l: "fmlookup (s_jobs u) k
        = (if k = j_ID j then Some (recovered_job now j) else fmlookup (s_jobs s) k)" for k
      using eff by auto
    have "fmlookup (s_jobs u) (j_ID k) = Some k" if "k \<in> set js" for k
    proof -
      have "j_ID k \<noteq> j_ID j" using nj that by (metis imageI)
      then show ?thesis using l [of "j_ID k"] "2.prems"(5) [of k] that by simp
    qed
    then have "fmlookup (s_jobs t) i = fmlookup (s_jobs u) i \<and> (err = None \<longrightarrow> i \<notin> j_ID ` set js)
        \<or> (\<exists>j \<in> set js. j_ID j = i \<and> fmlookup (s_jobs t) i = Some (recovered_job now j))"
      using u Inr "2.prems"(1,3,4) wu by (intro "2.IH" [OF u [symmetric] Inr]) auto
    then show ?thesis using l [of i] by (cases "i = j_ID j") auto
  qed
qed

lemma stale_jobs_lookup:
  assumes "wf_store cd s" "range_order (w_order w)"
  shows "distinct (map j_ID (stale_jobs w s))"
    and "k \<in> set (stale_jobs w s) \<longleftrightarrow> fmlookup (s_jobs s) (j_ID k) = Some k
      \<and> (j_State k = ''leased'' \<or> j_State k = ''running'')"
proof -
  have j: "jobs_inv s" by (rule wf_storeD(6) [OF assms(1)])
  show "distinct (map j_ID (stale_jobs w s))"
    unfolding stale_jobs_def
    by (intro distinct_map_sort_slice distinct_map_filter distinct_all_jobs [OF assms(2) j])
  show "k \<in> set (stale_jobs w s) \<longleftrightarrow> fmlookup (s_jobs s) (j_ID k) = Some k
      \<and> (j_State k = ''leased'' \<or> j_State k = ''running'')"
    using all_jobs_iff [OF assms(2) j, of k] by (auto simp: stale_jobs_def)
qed

lemma RecoverLeases_effect:
  assumes "RecoverLeases cd w now s = (t, err)" "wf_store cd s" "range_order (w_order w)"
    "fmlookup (s_jobs s) i = Some j"
  shows "fmlookup (s_jobs t) i = Some j
      \<and> (err = None \<longrightarrow> j_State j \<noteq> ''leased'' \<and> j_State j \<noteq> ''running'')
    \<or> (j_State j = ''leased'' \<or> j_State j = ''running'')
      \<and> fmlookup (s_jobs t) i = Some (recovered_job now j)"
proof -
  note st = stale_jobs_lookup [OF assms(2,3)]
  have ij: "j_ID j = i" by (rule jobs_invD(1) [OF wf_storeD(6) [OF assms(2)] assms(4)])
  have "fmlookup (s_jobs t) i = fmlookup (s_jobs s) i \<and> (err = None \<longrightarrow> i \<notin> j_ID ` set (stale_jobs w s))
    \<or> (\<exists>j \<in> set (stale_jobs w s). j_ID j = i \<and> fmlookup (s_jobs t) i = Some (recovered_job now j))"
    using assms(1) st unfolding RecoverLeases_def
    by (intro recover_jobs_effect [OF _ assms(2,3)]) auto
  then show ?thesis
  proof
    assume "fmlookup (s_jobs t) i = fmlookup (s_jobs s) i \<and> (err = None \<longrightarrow> i \<notin> j_ID ` set (stale_jobs w s))"
    moreover have "i \<in> j_ID ` set (stale_jobs w s)" if "j_State j = ''leased'' \<or> j_State j = ''running''"
      using that st(2) [of j] assms(4) ij by (metis imageI)
    ultimately show ?thesis using assms(4) by auto
  next
    assume "\<exists>j \<in> set (stale_jobs w s). j_ID j = i \<and> fmlookup (s_jobs t) i = Some (recovered_job now j)"
    then obtain k where k: "k \<in> set (stale_jobs w s)" "j_ID k = i"
      "fmlookup (s_jobs t) i = Some (recovered_job now k)" by blast
    then have "k = j" using st(2) [of k] assms(4) by simp
    then show ?thesis using k st(2) [of k] by simp
  qed
qed

section \<open>Every call moves jobs along the life cycle\<close>

lemma store_step_job:
  assumes "store_step cd s c t" "wf_store cd s" "fmlookup (s_jobs s) i = Some j"
  shows "fmlookup (s_jobs t) i = Some j' \<Longrightarrow> j' = j \<or> job_move j j'"
    and "\<not> terminalState (j_State j) \<Longrightarrow> fmlookup (s_jobs t) i \<noteq> None"
proof -
  have si: "store_inv s" by (rule wf_storeD(1) [OF assms(2)])
  have "(fmlookup (s_jobs t) i = Some j' \<longrightarrow> j' = j \<or> job_move j j')
      \<and> (\<not> terminalState (j_State j) \<longrightarrow> fmlookup (s_jobs t) i \<noteq> None)"
  proof (cases "\<exists>now. c = RecoverCall now")
    case False
    then have "change s t" using store_step_change [OF assms(1,2)] by blast
    then show ?thesis using change_job change_keeps_unfinished si assms(3) by blast
  next
    case True
    then obtain w now err where "range_order (w_order w)" "RecoverLeases cd w now s = (t, err)"
      using assms(1) by (auto elim: store_step.cases)
    then show ?thesis
      using RecoverLeases_effect [OF _ assms(2) _ assms(3)] move_recover [of j now] by force
  qed
  then show "fmlookup (s_jobs t) i = Some j' \<Longrightarrow> j' = j \<or> job_move j j'"
    "\<not> terminalState (j_State j) \<Longrightarrow> fmlookup (s_jobs t) i \<noteq> None"
    by blast+
qed

end
