(* ===== verification/Store_Fail.thy ===== *)
theory Store_Fail
  imports Store_Jobs
begin

text \<open>
  The store is fail-stop: once it is closed or poisoned it stays so, keeps the first error, and
  no call writes to the log or changes what is retained.
\<close>

definition stopped :: "store \<Rightarrow> bool" where
  "stopped s \<longleftrightarrow> s_closed s \<or> s_health s \<noteq> None"

definition fail_stop :: "store \<Rightarrow> store \<Rightarrow> bool" where
  "fail_stop s t \<longleftrightarrow> s_opts t = s_opts s
     \<and> (s_closed s \<longrightarrow> s_closed t)
     \<and> (s_health s \<noteq> None \<longrightarrow> s_health t = s_health s)
     \<and> (stopped s \<longrightarrow> view_of t = view_of s \<and> s_file t = s_file s \<and> s_replaced t = s_replaced s
          \<and> s_seq t = s_seq s)"

lemma fail_stop_refl [simp]: "fail_stop s s"
  by (simp add: fail_stop_def)

lemma fail_stop_trans: "fail_stop s t \<Longrightarrow> fail_stop t u \<Longrightarrow> fail_stop s u"
  by (auto simp: fail_stop_def stopped_def)

lemma fail_stop_poison [simp]: "fail_stop s (poison x s)"
  by (simp add: fail_stop_def poison_def view_of_eq)

lemma appendLocked_stopped: "stopped s \<Longrightarrow> \<exists>h. appendLocked cd w e s = (s, Inl h)"
  by (auto simp: stopped_def appendLocked_def split: option.split)

lemma admitted_not_stopped: "admitted cd w e s b \<Longrightarrow> \<not> stopped s"
  by (simp add: admitted_def stopped_def)

lemma appendLocked_fail_stop:
  assumes "appendLocked cd w e s = (t, x)"
  shows "fail_stop s t"
proof (cases "stopped s")
  case True
  then show ?thesis using appendLocked_stopped [of s cd w e] assms by auto
next
  case False
  have "s_opts t = s_opts s"
    using assms
    by (cases rule: appendLocked_view) (simp_all add: view_of_eq)
  then show ?thesis using False by (simp add: fail_stop_def stopped_def)
qed

lemma error_only_fail_stop: "error_only (appendLocked cd w e s) = (t, x) \<Longrightarrow> fail_stop s t"
  using appendLocked_fail_stop [of cd w e s]
  by (cases "appendLocked cd w e s") (auto simp: error_only_def split: sum.splits)

lemma recover_jobs_fail_stop: "recover_jobs cd w now js s = (t, x) \<Longrightarrow> fail_stop s t"
proof (induction cd w now js s rule: recover_jobs.induct)
  case (2 cd w now j js s)
  obtain u y where u: "appendLocked cd w (job_event ''pending'' (recovered_job now j)) s = (u, y)"
    by fastforce
  show ?case
    using 2 u appendLocked_fail_stop [OF u] fail_stop_trans by (auto split: sum.splits)
qed simp

lemma RedactHeaders_fail_stop:
  assumes "RedactHeaders cd w policy s = (t, err)"
  shows "fail_stop s t"
proof (cases "stopped s")
  case True
  then have "t = s" using assms by (auto simp: RedactHeaders_def stopped_def split: option.splits if_splits)
  then show ?thesis by simp
next
  case False
  have "s_opts t = s_opts s"
    using RedactHeaders_change [OF assms]
  proof cases
    case change_none
    then show ?thesis by (simp add: view_of_eq)
  next
    case (change_event e)
    then show ?thesis by (simp add: view_of_eq)
  next
    case (change_redact p)
    then show ?thesis by (simp add: view_of_eq)
  qed
  then show ?thesis using False by (simp add: fail_stop_def stopped_def)
qed

lemma store_step_fail_stop:
  assumes "store_step cd s c t"
  shows "fail_stop s t"
  using assms
proof (cases rule: store_step.cases)
  case (step_accept w r jo out)
  then show ?thesis
    using appendLocked_fail_stop
    by (auto simp: Accept_def accept_new_def accept_duplicate_def Let_def
        split: if_splits option.splits sum.splits prod.splits)
next
  case (step_enqueue w j err)
  then show ?thesis
    using error_only_fail_stop by (auto simp: Enqueue_def split: if_splits sum.splits)
next
  case (step_claim w owner now lease claimed)
  then show ?thesis
    using appendLocked_fail_stop
    by (auto simp: ClaimNextJob_def Let_def split: list.splits sum.splits prod.splits)
next
  case (step_recover w now err)
  then show ?thesis using recover_jobs_fail_stop by (simp add: RecoverLeases_def)
next
  case (step_record w i owner a st msg av err)
  then show ?thesis
    using error_only_fail_stop by (auto simp: RecordAttempt_def Let_def split: if_splits option.splits)
next
  case (step_finish w i owner st msg err)
  then show ?thesis
    using error_only_fail_stop by (auto simp: FinishWithoutAttempt_def split: if_splits option.splits)
next
  case (step_load w i loaded)
  then show ?thesis by (auto simp: Load_def split: option.splits sum.splits)
next
  case (step_redact w p err)
  then show ?thesis using RedactHeaders_fail_stop by blast
next
  case (step_subscribe cursor sub)
  then show ?thesis
    by (auto simp: SubscribeFrom_def Let_def fail_stop_def view_of_eq split: list.splits if_splits)
next
  case (step_cancel k)
  then show ?thesis by (simp add: cancel_subscription_def fail_stop_def view_of_eq)
next
  case (step_close w err)
  then show ?thesis by (auto simp: Close_def fail_stop_def view_of_eq split: if_splits)
qed

interpretation stopping: monotone_along "\<lambda>s. \<exists>oo f. s = new_store oo f" "store_step cd" "wf_store cd" fail_stop
  for cd
  by unfold_locales (auto intro: fail_stop_trans store_step_fail_stop)

end
