(* ===== verification/Store_Examples.thy ===== *)
theory Store_Examples
  imports Store_Fail
begin

text \<open>
  An append in an environment where nothing fails stores its event, and a concrete run used by
  the closed examples of the development: a store that keeps one capture accepts a capture with
  its forwarding job, a worker leases the job, and the first attempt succeeds.
\<close>

section \<open>An append when nothing fails\<close>

lemma first_error_calm [simp]: "first_error (calm t) cs = None"
  by (induction cs) (simp_all add: first_error_def)

lemma appendLocked_calm:
  assumes "admitted cd (calm t) e s b" "s_eventCount s < MaxEvents (s_opts s)"
  shows "appendLocked cd (calm t) e s
    = (publish (stamped (calm t) s e) (logged cd (calm t) e b s), Inr (stamped (calm t) s e))"
proof -
  have a: "\<not> s_closed s" "s_health s = None" "s_handle s"
    "validateRecoveredEvent (stamped (calm t) s e) = None"
    "validateStateLocked s (stamped (calm t) s e) = None"
    "Marshal cd (stamped (calm t) s e) = Some b" "length b < maxEventBytes"
    using assms(1) by (simp_all add: admitted_def)
  then show ?thesis
    using assms(2)
    by (simp add: appendLocked_def write_event_def commit_event_def append_bytes_def logged_def Let_def)
qed

lemma logged_live [simp]:
  "s_health (publish e (logged cd w f b s)) = s_health s"
  "s_closed (publish e (logged cd w f b s)) = s_closed s"
  "s_handle (publish e (logged cd w f b s)) = s_handle s"
  by simp_all

lemma view_of_publish [simp]: "view_of (publish e s) = view_of s"
  by (intro view_of_retained) simp_all

section \<open>A concrete run\<close>

definition demo_options :: options where
  "demo_options = \<lparr>MaxCaptures = 1, MaxEvents = 100, MaxJobsPerRequest = 1, MaxAttemptsPerJob = 2,
     MaxSearchBytes = 64, MaxSearchScan = 1, MaxCatchUpEvents = 10, MaxCatchUpBytes = 100,
     SubscriberBacklog = 2\<rparr>"

lemma demo_withDefaults [simp]: "withDefaults demo_options = demo_options"
  by (rule withDefaults_idem) (simp add: options_ok_def demo_options_def)

lemma demo_options_sel [simp]:
  "MaxCaptures demo_options = 1" "MaxEvents demo_options = 100" "MaxJobsPerRequest demo_options = 1"
  "MaxAttemptsPerJob demo_options = 2" "MaxSearchScan demo_options = 1"
  "MaxCatchUpEvents demo_options = 10" "MaxCatchUpBytes demo_options = 100"
  "SubscriberBacklog demo_options = 2"
  by (simp_all add: demo_options_def)

definition demo_request :: request where
  "demo_request = zero_request\<lparr>r_ID := ''r'', r_ReceivedAt := 5, r_DeliveryID := ''d'',
     r_BodySHA256 := sha256_hex []\<rparr>"

definition demo_job :: job where
  "demo_job = zero_job\<lparr>j_ID := ''j'', j_RequestID := ''r'', j_State := ''pending'', j_CreatedAt := 5\<rparr>"

definition demo_leased :: job where
  "demo_leased = lease_job ''w'' 8 60 demo_job"

definition demo_attempt :: attempt where
  "demo_attempt = \<lparr>a_ID = ''a'', a_JobID = ''j'', a_RequestID = ''r'', a_URL = [], a_Error = [],
     a_Number = 1, a_Status = 200, a_StartedAt = 9, a_FinishedAt = 10,
     a_ResponseHeaders = fmempty, a_ResponseBody = []\<rparr>"

definition demo_finished :: job where
  "demo_finished = finished_job demo_leased ''succeeded'' [] 10 0"

definition event1 :: event where
  "event1 = capture_event demo_request (Some demo_job) []"

definition event2 :: event where
  "event2 = job_event ''leased'' demo_leased"

definition event3 :: event where
  "event3 = (job_event ''succeeded'' demo_finished)\<lparr>e_Attempt := Some demo_attempt\<rparr>"

definition demo_codec :: codec where
  "demo_codec = table_codec [event1\<lparr>e_Seq := 1, e_At := 7\<rparr>, event2\<lparr>e_Seq := 2, e_At := 7\<rparr>,
     event3\<lparr>e_Seq := 3, e_At := 7\<rparr>]"

lemma demo_codec_ok: "codec_ok demo_codec"
  unfolding demo_codec_def by (rule table_codec_ok)

definition demo0 :: store where
  "demo0 = new_store demo_options []"

definition demo1 :: store where
  "demo1 = fst (Accept demo_codec (calm 7) demo_request (Some demo_job) demo0)"

definition demo2 :: store where
  "demo2 = fst (ClaimNextJob demo_codec (calm 7) ''w'' 8 60 demo1)"

definition demo3 :: store where
  "demo3 = fst (RecordAttempt demo_codec (calm 7) ''j'' ''w'' demo_attempt ''succeeded'' [] 0 demo2)"

lemmas demo_defs = demo_request_def demo_job_def zero_request_def zero_job_def demo_leased_def
  lease_job_def demo_attempt_def demo_finished_def finished_job_def

lemma demo_marshal:
  "Marshal demo_codec (event1\<lparr>e_Seq := 1, e_At := 7\<rparr>) = Some ''x''"
  "Marshal demo_codec (event2\<lparr>e_Seq := 2, e_At := 7\<rparr>) = Some ''xx''"
  "Marshal demo_codec (event3\<lparr>e_Seq := 3, e_At := 7\<rparr>) = Some ''xxx''"
  by (simp_all add: demo_codec_def table_codec_def event1_def event2_def event3_def
      capture_event_def job_event_def event_of_kind_def forward_kind_def)

lemma demo0_sel [simp]:
  "s_opts demo0 = demo_options" "s_requests demo0 = fmempty" "s_jobs demo0 = fmempty"
  "s_jobsByRequest demo0 = fmempty" "s_attempts demo0 = fmempty" "s_attemptIDs demo0 = {||}"
  "s_delivery demo0 = fmempty" "s_body demo0 = fmempty" "s_health demo0 = None"
  "\<not> s_closed demo0" "s_handle demo0" "s_eventCount demo0 = 0" "s_seq demo0 = 0" "s_file demo0 = []"
  by (simp_all add: demo0_def)

lemma demo0_wf: "wf_store cd demo0"
  unfolding demo0_def by (rule wf_store_new)

subsection \<open>The capture\<close>

lemma stamped1: "stamped (calm 7) demo0 event1 = event1\<lparr>e_Seq := 1, e_At := 7\<rparr>"
  by (simp add: stamped_def event1_def capture_event_def event_of_kind_def)

lemma admitted1: "admitted demo_codec (calm 7) event1 demo0 ''x''"
  unfolding admitted_def stamped1 demo_marshal
  by (simp add: maxEventBytes_def event1_def capture_event_def event_of_kind_def
      validateRecoveredEvent_def validateRequestDigest_def validateStateLocked_def demo_defs)

lemma append1: "appendLocked demo_codec (calm 7) event1 demo0
  = (publish (stamped (calm 7) demo0 event1) (logged demo_codec (calm 7) event1 ''x'' demo0),
     Inr (stamped (calm 7) demo0 event1))"
  by (rule appendLocked_calm [OF admitted1]) simp

lemma captureEvictions1: "captureEvictionsLocked (calm 7) demo0 1 = Inr []"
  by (simp add: captureEvictionsLocked_def)

lemma accept1: "Accept demo_codec (calm 7) demo_request (Some demo_job) demo0
  = (publish (stamped (calm 7) demo0 event1) (logged demo_codec (calm 7) event1 ''x'' demo0),
     ''r'', Captured, Some demo_job, None)"
  using append1 captureEvictions1
  by (simp add: Accept_def accept_new_def duplicateLocked_def demo_defs flip: event1_def [unfolded demo_defs])
    (simp add: event1_def demo_defs)

lemma demo1_view: "view_of demo1 = view_of (applied event1 demo0)"
  by (simp add: demo1_def accept1 logged_view)

lemma demo1_wf: "wf_store demo_codec demo1"
  using Accept_wf [OF accept1 demo0_wf] by (simp add: demo1_def accept1)

lemma demo1_jobs [simp]:
  "fmlookup (s_jobs demo1) k = (if k = ''j'' then Some demo_job else None)"
  "fmlookup (s_requests demo1) k
    = (if k = ''r'' then Some (demo_request\<lparr>r_Body := []\<rparr>) else None)"
  "attempts_of demo1 k = []" "s_opts demo1 = demo_options" "s_attemptIDs demo1 = {||}"
  "fmlookup (s_delivery demo1) k = (if k = ''d'' then Some ''r'' else None)"
proof -
  have i: "store_inv demo0" using demo0_wf by (simp add: wf_store_def)
  have v: "s_jobs demo1 = s_jobs (applied event1 demo0)"
    "s_requests demo1 = s_requests (applied event1 demo0)"
    "s_attempts demo1 = s_attempts (applied event1 demo0)"
    "s_attemptIDs demo1 = s_attemptIDs (applied event1 demo0)"
    "s_delivery demo1 = s_delivery (applied event1 demo0)"
    "s_opts demo1 = s_opts (applied event1 demo0)"
    using demo1_view by (simp_all add: view_of_eq)
  show "fmlookup (s_jobs demo1) k = (if k = ''j'' then Some demo_job else None)"
    by (simp add: v applied_jobs [OF i] event1_def demo_job_def)
  show "fmlookup (s_requests demo1) k
    = (if k = ''r'' then Some (demo_request\<lparr>r_Body := []\<rparr>) else None)"
    by (simp add: v applied_requests event1_def demo_request_def)
  show "attempts_of demo1 k = []"
    by (simp add: v applied_attempts_of [OF i] event1_def)
  show "s_opts demo1 = demo_options" by (simp add: v)
  show "s_attemptIDs demo1 = {||}" "fmlookup (s_delivery demo1) k = (if k = ''d'' then Some ''r'' else None)"
    by (simp_all add: v applied_def apply_evictions_def apply_payload_def apply_request_def
        apply_job_def event1_def demo_request_def)
qed

lemma demo1_live [simp]:
  "s_health demo1 = None" "\<not> s_closed demo1" "s_handle demo1" "s_eventCount demo1 = 1"
  "s_seq demo1 = 1"
  by (simp_all add: demo1_def accept1 logged_def Let_def stamped1)

subsection \<open>The lease\<close>

lemma stamped2: "stamped (calm 7) demo1 event2 = event2\<lparr>e_Seq := 2, e_At := 7\<rparr>"
  by (simp add: stamped_def event2_def job_event_def event_of_kind_def)

lemma admitted2: "admitted demo_codec (calm 7) event2 demo1 ''xx''"
  unfolding admitted_def stamped2 demo_marshal
  by (simp add: maxEventBytes_def event2_def job_event_def event_of_kind_def forward_kind_def
      validateRecoveredEvent_def validateStateLocked_def demo_leased_def lease_job_def demo_job_def
      job_kinds_def TrimPrefix_def HasPrefix_def zero_job_def)

lemma append2: "appendLocked demo_codec (calm 7) event2 demo1
  = (publish (stamped (calm 7) demo1 event2) (logged demo_codec (calm 7) event2 ''xx'' demo1),
     Inr (stamped (calm 7) demo1 event2))"
  by (rule appendLocked_calm [OF admitted2]) simp

lemma demo1_dom: "fmdom (s_jobs demo1) = {|''j''|}"
  by (rule fset_eqI) (auto simp: fmdom_mem_iff)

lemma claim2: "ClaimNextJob demo_codec (calm 7) ''w'' 8 60 demo1
  = (publish (stamped (calm 7) demo1 event2) (logged demo_codec (calm 7) event2 ''xx'' demo1),
     Inr (Some demo_leased))"
proof -
  have "all_jobs (calm 7) demo1 = [demo_job]"
    by (simp add: all_jobs_def range_keys_def demo1_dom map_get_def)
  moreover have "eligible 8 demo_job" by (simp add: eligible_def demo_job_def)
  ultimately show ?thesis
    using append2 by (simp add: ClaimNextJob_def flip: demo_leased_def event2_def)
qed

lemma demo2_view: "view_of demo2 = view_of (applied event2 demo1)"
  by (simp add: demo2_def claim2 logged_view)

lemma demo2_wf: "wf_store demo_codec demo2"
  using ClaimNextJob_wf [OF claim2 demo1_wf] by (simp add: demo2_def claim2)

lemma demo2_jobs [simp]:
  "fmlookup (s_jobs demo2) k = (if k = ''j'' then Some demo_leased else None)"
  "attempts_of demo2 k = []" "s_opts demo2 = demo_options" "s_attemptIDs demo2 = {||}"
  "fmlookup (s_requests demo2) k
    = (if k = ''r'' then Some (demo_request\<lparr>r_Body := []\<rparr>) else None)"
proof -
  have i: "store_inv demo1" using demo1_wf by (simp add: wf_store_def)
  have v: "s_jobs demo2 = s_jobs (applied event2 demo1)"
    "s_attempts demo2 = s_attempts (applied event2 demo1)"
    "s_attemptIDs demo2 = s_attemptIDs (applied event2 demo1)"
    "s_opts demo2 = s_opts (applied event2 demo1)"
    "s_requests demo2 = s_requests (applied event2 demo1)"
    using demo2_view by (simp_all add: view_of_eq)
  show "fmlookup (s_jobs demo2) k = (if k = ''j'' then Some demo_leased else None)"
    by (simp add: v applied_jobs [OF i] event2_def demo_leased_def lease_job_def demo_job_def)
  show "fmlookup (s_requests demo2) k
    = (if k = ''r'' then Some (demo_request\<lparr>r_Body := []\<rparr>) else None)"
    by (simp add: v applied_requests event2_def)
  show "attempts_of demo2 k = []"
    by (simp add: v applied_attempts_of [OF i] event2_def)
  show "s_opts demo2 = demo_options" by (simp add: v)
  show "s_attemptIDs demo2 = {||}"
    by (simp add: v applied_def apply_evictions_def apply_payload_def apply_job_def event2_def)
qed

lemma demo2_live [simp]:
  "s_health demo2 = None" "\<not> s_closed demo2" "s_handle demo2" "s_eventCount demo2 = 2"
  "s_seq demo2 = 2"
  by (simp_all add: demo2_def claim2 logged_def Let_def stamped2)

subsection \<open>The attempt\<close>

lemma stamped3: "stamped (calm 7) demo2 event3 = event3\<lparr>e_Seq := 3, e_At := 7\<rparr>"
  by (simp add: stamped_def event3_def job_event_def event_of_kind_def)

lemma admitted3: "admitted demo_codec (calm 7) event3 demo2 ''xxx''"
  unfolding admitted_def stamped3 demo_marshal
  by (simp add: maxEventBytes_def event3_def job_event_def event_of_kind_def forward_kind_def
      validateRecoveredEvent_def validateStateLocked_def demo_finished_def finished_job_def
      demo_leased_def lease_job_def demo_job_def validateAttempt_def demo_attempt_def
      job_kinds_def TrimPrefix_def HasPrefix_def zero_job_def)

lemma append3: "appendLocked demo_codec (calm 7) event3 demo2
  = (publish (stamped (calm 7) demo2 event3) (logged demo_codec (calm 7) event3 ''xxx'' demo2),
     Inr (stamped (calm 7) demo2 event3))"
  by (rule appendLocked_calm [OF admitted3]) simp

lemma record3: "RecordAttempt demo_codec (calm 7) ''j'' ''w'' demo_attempt ''succeeded'' [] 0 demo2
  = (publish (stamped (calm 7) demo2 event3) (logged demo_codec (calm 7) event3 ''xxx'' demo2), None)"
proof -
  have "leased_by demo2 ''j'' ''w'' = Some demo_leased"
    by (simp add: leased_by_def demo_leased_def lease_job_def)
  moreover have "(job_event ''succeeded'' (finished_job demo_leased ''succeeded'' [] 10 0))
      \<lparr>e_Attempt := Some demo_attempt\<rparr> = event3"
    by (simp add: event3_def demo_finished_def)
  ultimately show ?thesis
    using append3
    by (simp add: RecordAttempt_def next_number_def result_states_def error_only_def demo_attempt_def)
qed

lemma demo3_view: "view_of demo3 = view_of (applied event3 demo2)"
  by (simp add: demo3_def record3 logged_view)

lemma demo3_wf: "wf_store demo_codec demo3"
  using RecordAttempt_wf [OF record3 demo2_wf] by (simp add: demo3_def record3)

lemma demo3_jobs [simp]:
  "fmlookup (s_jobs demo3) k = (if k = ''j'' then Some demo_finished else None)"
  "attempts_of demo3 k = (if k = ''r'' then [demo_attempt] else [])"
proof -
  have i: "store_inv demo2" using demo2_wf by (simp add: wf_store_def)
  have v: "s_jobs demo3 = s_jobs (applied event3 demo2)"
    "s_attempts demo3 = s_attempts (applied event3 demo2)"
    using demo3_view by (simp_all add: view_of_eq)
  show "fmlookup (s_jobs demo3) k = (if k = ''j'' then Some demo_finished else None)"
    by (simp add: v applied_jobs [OF i] event3_def demo_finished_def demo_leased_def lease_job_def
        demo_job_def)
  show "attempts_of demo3 k = (if k = ''r'' then [demo_attempt] else [])"
    by (simp add: v applied_attempts_of [OF i] event3_def demo_attempt_def)
qed

subsection \<open>The run is a run of the store\<close>

lemma demo_opened: "opened demo_codec demo0"
proof -
  have "OpenWithOptions demo_codec (calm 7) demo_options [] = Inr demo0"
    by (simp add: OpenWithOptions_def recover_def recover_loop_Nil demo0_def)
  then show ?thesis unfolding opened_def by blast
qed

lemma demo_steps:
  "store_step demo_codec demo0 (AcceptCall demo_request (Some demo_job)) demo1"
  "store_step demo_codec demo1 (ClaimCall ''w'' 8 60) demo2"
  "store_step demo_codec demo2 (RecordCall ''j'' ''w'' demo_attempt ''succeeded'' [] 0) demo3"
proof -
  show "store_step demo_codec demo0 (AcceptCall demo_request (Some demo_job)) demo1"
    using accept1 by (intro step_accept [of "calm 7"]) (simp_all add: demo1_def)
  show "store_step demo_codec demo1 (ClaimCall ''w'' 8 60) demo2"
    using claim2 by (intro step_claim [of "calm 7"]) (simp_all add: demo2_def)
  show "store_step demo_codec demo2 (RecordCall ''j'' ''w'' demo_attempt ''succeeded'' [] 0) demo3"
    using record3 by (intro step_record [of "calm 7"]) (simp_all add: demo3_def)
qed

lemma demo_reachable:
  "reachable demo_codec demo0" "reachable demo_codec demo1" "reachable demo_codec demo2"
  "reachable demo_codec demo3"
proof -
  show r0: "reachable demo_codec demo0" using demo_opened by (rule reach_init)
  show r1: "reachable demo_codec demo1" using r0 demo_steps(1) by (rule reach_step)
  show r2: "reachable demo_codec demo2" using r1 demo_steps(2) by (rule reach_step)
  show "reachable demo_codec demo3" using r2 demo_steps(3) by (rule reach_step)
qed

end
