(* ===== verification/App_System.thy ===== *)
theory App_System
  imports App_Http App_Forward Store_Redaction Store_Examples
begin

text \<open>
  The application and its store as one system. A step is a request served, one half of a delivery
  to the inbox, a part of a worker's round, the end of a stream, or a step of the shutdown; other
  goroutines may run between any two. Every step changes the store by calls of the store's
  operations only (\<open>app_run\<close>), so each invariant of the store is one of the application;
  \<open>system_ok\<close> is the invariant of the application itself.
\<close>

section \<open>Shutdown\<close>

text \<open>\<open>Wait\<close> returns when no job is unfinished or the context is cancelled.\<close>

definition wait_over :: "env \<Rightarrow> app \<Rightarrow> bool" where
  "wait_over w a \<longleftrightarrow> UnfinishedJobs w (a_store a) = [] \<or> a_cancelled a"

definition shutdown_begin :: "app \<Rightarrow> app" where
  "shutdown_begin a = a\<lparr>a_accepting := False\<rparr>"

definition shutdown_end :: "app \<Rightarrow> app" where
  "shutdown_end a = a\<lparr>a_cancelled := True\<rparr>"

section \<open>Workers\<close>

text \<open>
  Where a worker is: in its \<open>select\<close>, about to claim in its inner loop, between the parts of
  \<open>forward\<close> with what it holds there, or returned.
\<close>

datatype phase =
    Waiting
  | Draining
  | Stopped
  | Claimed job
  | Sending job request string int
  | Answered job request string int exchange

record system =
  y_app :: app
  y_worker :: "string \<Rightarrow> phase"

definition with_app :: "app \<Rightarrow> system \<Rightarrow> system" where
  "with_app a y = y\<lparr>y_app := a\<rparr>"

definition set_worker :: "string \<Rightarrow> phase \<Rightarrow> app \<Rightarrow> system \<Rightarrow> system" where
  "set_worker owner ph a y = y\<lparr>y_app := a, y_worker := (y_worker y)(owner := ph)\<rparr>"

definition worker_claim ::
    "codec \<Rightarrow> world \<Rightarrow> string \<Rightarrow> app \<Rightarrow> app \<times> phase" where
  "worker_claim cd x owner a =
     (case ClaimNextJob cd (x_env x 4) owner (x_now x 3) (c_LeaseDuration (a_config a)) (a_store a) of
       (s1, Inl e) \<Rightarrow> (a\<lparr>a_store := s1\<rparr>, Waiting)
     | (s1, Inr None) \<Rightarrow> (a\<lparr>a_store := s1\<rparr>, Waiting)
     | (s1, Inr (Some j)) \<Rightarrow> (signalWork (a\<lparr>a_store := s1\<rparr>), Claimed j))"

text \<open>After \<open>forward\<close> the loop goes round, unless the context is cancelled.\<close>

definition next_round :: "app \<Rightarrow> phase" where
  "next_round a = (if a_cancelled a then Stopped else Draining)"

definition take_token :: "app \<Rightarrow> app" where
  "take_token a = a\<lparr>a_wake := a_wake a - 1\<rparr>"

definition worker_prepare ::
    "codec \<Rightarrow> world \<Rightarrow> string \<Rightarrow> job \<Rightarrow> app \<Rightarrow> app \<times> phase" where
  "worker_prepare cd x owner j a =
     (case forward_prepare cd x j (a_store a) of
       (s1, Abandon) \<Rightarrow> (a\<lparr>a_store := s1\<rparr>, next_round a)
     | (s1, Poison message) \<Rightarrow> (forward_poison cd x owner j message (a\<lparr>a_store := s1\<rparr>), next_round a)
     | (s1, Send attID n req) \<Rightarrow> (a\<lparr>a_store := s1\<rparr>, Sending j req attID n))"

definition world_ok :: "world \<Rightarrow> bool" where
  "world_ok x \<longleftrightarrow> (\<forall>i. range_order (w_order (x_env x i)))"

datatype action =
    Serve http_request
  | InboxBegin
  | InboxFinish http_request
  | Wake string
  | Tick string
  | Exit string
  | Claim string
  | Prepare string
  | Exchange string
  | Record string
  | Unsubscribe nat
  | StopAccepting
  | Cancel

inductive app_step :: "codec \<Rightarrow> system \<Rightarrow> action \<Rightarrow> system \<Rightarrow> bool" for cd where
  app_serve: "world_ok x \<Longrightarrow> serve cd x q (y_app y) = (a, r) \<Longrightarrow>
    app_step cd y (Serve q) (with_app a y)"
| app_inbox_begin: "ingest_begin h (y_app y) = Inl a \<Longrightarrow> app_step cd y InboxBegin (with_app a y)"
| app_inbox_finish: "world_ok x \<Longrightarrow> 0 < a_ingest (y_app y) \<Longrightarrow>
    ingest_finish cd x h q (y_app y) = (a, r) \<Longrightarrow>
    app_step cd y (InboxFinish q) (with_app (ingest_release a) y)"
| app_wake: "y_worker y owner = Waiting \<Longrightarrow> 0 < a_wake (y_app y) \<Longrightarrow>
    app_step cd y (Wake owner) (set_worker owner Draining (take_token (y_app y)) y)"
| app_tick: "y_worker y owner = Waiting \<Longrightarrow>
    app_step cd y (Tick owner) (set_worker owner Draining (y_app y) y)"
| app_exit: "y_worker y owner = Waiting \<Longrightarrow> a_cancelled (y_app y) \<Longrightarrow>
    app_step cd y (Exit owner) (set_worker owner Stopped (y_app y) y)"
| app_claim: "world_ok x \<Longrightarrow> y_worker y owner = Draining \<Longrightarrow>
    worker_claim cd x owner (y_app y) = (a, ph) \<Longrightarrow> app_step cd y (Claim owner) (set_worker owner ph a y)"
| app_prepare: "world_ok x \<Longrightarrow> y_worker y owner = Claimed j \<Longrightarrow>
    worker_prepare cd x owner j (y_app y) = (a, ph) \<Longrightarrow>
    app_step cd y (Prepare owner) (set_worker owner ph a y)"
| app_exchange: "world_ok x \<Longrightarrow> y_worker y owner = Sending j req attID n \<Longrightarrow>
    app_step cd y (Exchange owner) (set_worker owner
      (Answered j req attID n (forward_exchange x (a_config (y_app y)) (a_sensitive (y_app y)) j req))
      (y_app y) y)"
| app_record: "world_ok x \<Longrightarrow> y_worker y owner = Answered j req attID n h \<Longrightarrow>
    app_step cd y (Record owner) (set_worker owner (next_round (y_app y))
      (forward_record cd x owner j req attID n h (y_app y)) y)"
| app_unsubscribe: "app_step cd y (Unsubscribe c)
    (with_app ((y_app y)\<lparr>a_store := cancel_subscription c (a_store (y_app y))\<rparr>) y)"
| app_stop: "app_step cd y StopAccepting (with_app (shutdown_begin (y_app y)) y)"
| app_cancel: "app_step cd y Cancel (with_app (shutdown_end (y_app y)) y)"

inductive_cases app_stepE: "app_step cd y l z"

text \<open>
  The application as it starts: on a store that is open, sound, and has no event waiting for a
  subscriber.
\<close>

definition fresh :: "store \<Rightarrow> bool" where
  "fresh s \<longleftrightarrow> s_health s = None \<and> \<not> s_closed s
     \<and> (\<forall>c ch. fmlookup (s_chans s) c = Some ch \<longrightarrow> ch_buffer ch = [])"

definition app_init :: "codec \<Rightarrow> system \<Rightarrow> bool" where
  "app_init cd y \<longleftrightarrow> (\<exists>x c s. world_ok x \<and> reachable cd s \<and> fresh s \<and> y_app y = New cd x c s
     \<and> y_worker y = (\<lambda>_. Waiting))"

abbreviation app_reachable :: "codec \<Rightarrow> system \<Rightarrow> bool" where
  "app_reachable cd \<equiv> reach (app_init cd) (app_step cd)"

section \<open>The store under the application\<close>

abbreviation policy_of :: "app \<Rightarrow> string \<Rightarrow> bool" where
  "policy_of a \<equiv> \<lambda>name. sensitiveHeader name (a_sensitive a)"

text \<open>
  What a part of the application does to the store: a run of calls that hand it redacted
  headers only.
\<close>

definition safe_call :: "codec \<Rightarrow> (string \<Rightarrow> bool) \<Rightarrow> store \<Rightarrow> call \<Rightarrow> store \<Rightarrow> bool" where
  "safe_call cd p s c t \<longleftrightarrow> store_step cd s c t \<and> call_redacted p c"

definition store_path :: "codec \<Rightarrow> (string \<Rightarrow> bool) \<Rightarrow> store \<Rightarrow> store \<Rightarrow> bool" where
  "store_path cd p s t \<longleftrightarrow> (\<exists>cs. path (safe_call cd p) s cs t)"

lemma store_path_refl [simp]: "store_path cd p s s"
  unfolding store_path_def by (blast intro: path_nil)

lemma store_path_step: "store_step cd s c t \<Longrightarrow> call_redacted p c \<Longrightarrow> store_path cd p s t"
  unfolding store_path_def using path_snoc [OF path_nil, of "safe_call cd p" s c t]
  by (auto simp: safe_call_def)

lemma path_append:
  assumes "path step t ds u" "path step s cs t"
  shows "path step s (cs @ ds) u"
  using assms
proof (induction rule: path.induct)
  case (path_snoc t ls u l v)
  have "path step s ((cs @ ls) @ [l]) v"
    using path_snoc by (intro path.path_snoc [of step s "cs @ ls" u]) simp_all
  then show ?case by simp
qed simp

lemma store_path_trans [trans]:
  assumes "store_path cd p s t" "store_path cd p t u"
  shows "store_path cd p s u"
proof -
  obtain cs ds where "path (safe_call cd p) s cs t" "path (safe_call cd p) t ds u"
    using assms unfolding store_path_def by blast
  then have "path (safe_call cd p) s (cs @ ds) u" by (intro path_append)
  then show ?thesis unfolding store_path_def by blast
qed

lemma store_path_reachable:
  assumes "store_path cd p s t" "reachable cd s"
  shows "reachable cd t"
proof -
  obtain cs where "path (safe_call cd p) s cs t" using assms(1) unfolding store_path_def by blast
  then show ?thesis
    using assms(2)
  proof (induction rule: path.induct)
    case (path_snoc s ls t l u)
    then have "reachable cd t" "store_step cd t l u" by (simp_all add: safe_call_def)
    then show ?case by (rule reach_step)
  qed
qed

lemma store_path_kept:
  assumes "store_path cd p s t" "wf_store cd s"
  shows "wf_store cd t \<and> (store_redacted p s \<longrightarrow> store_redacted p t)"
proof -
  obtain cs where "path (safe_call cd p) s cs t" using assms(1) unfolding store_path_def by blast
  then show ?thesis
    using assms(2)
    by (induction rule: path.induct) (auto simp: safe_call_def intro: store_step_wf store_step_redacted)
qed

lemma redactWithPolicy_redacted [simp]:
  "headers_redacted (\<lambda>name. sensitiveHeader name policy) (redactWithPolicy h policy)"
  by (simp add: redactWithPolicy_redact_header redact_header_redacted)

section \<open>The calls of each part\<close>

lemma world_ok_order [simp]: "world_ok x \<Longrightarrow> range_order (w_order (x_env x i))"
  by (simp add: world_ok_def)

lemma New_path:
  assumes "world_ok x"
  shows "store_path cd p s (a_store (New cd x c s))"
proof -
  define q where "q = (\<lambda>name. sensitiveHeader name
    (sensitiveHeaderPolicy (c_SensitiveHeaders (config_defaults c))))"
  obtain s1 e1 where r: "RedactHeaders cd (x_env x 0) (Some q) s = (s1, e1)" by fastforce
  obtain s2 e2 where l: "RecoverLeases cd (x_env x 1) (x_now x 0) s1 = (s2, e2)" by fastforce
  have "store_path cd p s s1"
    using assms r by (intro store_path_step [OF step_redact]) simp_all
  also have "store_path cd p s1 s2"
    using assms l by (intro store_path_step [OF step_recover]) simp_all
  finally have "store_path cd p s s2" .
  moreover have "a_store (New cd x c s) = s2"
    using r l by (simp add: New_def Let_def flip: q_def)
  ultimately show ?thesis by simp
qed

lemma Load_path: "Load cd w i s = (t, y) \<Longrightarrow> store_path cd p s t"
  by (rule store_path_step [OF step_load]) simp_all

text \<open>The parts of the state a handler leaves as they are.\<close>

definition same_app :: "app \<Rightarrow> app \<Rightarrow> bool" where
  "same_app a b \<longleftrightarrow> a_config b = a_config a \<and> a_sensitive b = a_sensitive a
     \<and> a_accepting b = a_accepting a \<and> a_cancelled b = a_cancelled a \<and> a_ingest b = a_ingest a"

definition app_run :: "codec \<Rightarrow> app \<Rightarrow> app \<Rightarrow> bool" where
  "app_run cd a b \<longleftrightarrow> same_app a b \<and> store_path cd (policy_of a) (a_store a) (a_store b)
     \<and> (a_wake a \<le> wake_capacity (a_config a) \<longrightarrow> a_wake b \<le> wake_capacity (a_config a))
     \<and> (0 \<le> a_wake a \<longrightarrow> 0 \<le> a_wake b)"

lemma app_run_refl [simp]: "app_run cd a a"
  by (simp add: app_run_def same_app_def)

lemma app_run_trans [trans]: "app_run cd a b \<Longrightarrow> app_run cd b c \<Longrightarrow> app_run cd a c"
  by (auto simp: app_run_def same_app_def intro: store_path_trans)

lemma app_run_store: "store_path cd (policy_of a) (a_store a) s \<Longrightarrow> app_run cd a (a\<lparr>a_store := s\<rparr>)"
  by (simp add: app_run_def same_app_def)

lemma app_run_signal: "app_run cd a b \<Longrightarrow> app_run cd a (signalWork b)"
  by (auto simp: app_run_def same_app_def signalWork_def)

lemma ingest_accept_run:
  assumes "world_ok x" "headers_redacted (policy_of a) (r_Headers req)"
    "ingest_accept cd x h req jo a = (b, r)"
  shows "app_run cd a b"
proof -
  obtain s' i res pj err where e: "Accept cd (x_env x 0) req jo (a_store a) = (s', i, res, pj, err)"
    by (metis prod_cases5)
  then have "store_path cd (policy_of a) (a_store a) s'"
    using assms(1,2) by (intro store_path_step [OF step_accept]) simp_all
  then have "app_run cd a (a\<lparr>a_store := s'\<rparr>)" by (rule app_run_store)
  then show ?thesis
    using assms(3) app_run_signal
    by (auto simp: ingest_accept_def e Let_def split: option.splits capture_result.splits if_splits)
qed

lemma ingest_finish_run:
  assumes "ingest_finish cd x h q a = (b, r)" "world_ok x"
  shows "app_run cd a b"
proof -
  have "headers_redacted (policy_of a) (r_Headers (captured_request x a q i body v))" for i body v
    by (simp add: captured_request_def)
  note acc = ingest_accept_run [OF assms(2) this]
  show ?thesis
    using assms(1)
    by (auto simp: ingest_finish_def Let_def intro: acc
        split: body_read.splits if_splits option.splits sum.splits)
qed

lemma schedule_run:
  assumes "schedule cd x req target a = (b, e)" "world_ok x"
  shows "app_run cd a b"
proof -
  have "app_run cd a (a\<lparr>a_store := s'\<rparr>)" if "Enqueue cd (x_env x 1) j (a_store a) = (s', y)" for j s' y
    using that assms(2) by (intro app_run_store store_path_step [OF step_enqueue]) simp_all
  then show ?thesis
    using assms(1) app_run_signal
    by (auto simp: schedule_def Let_def split: option.splits prod.splits)
qed

lemma Load_run: "Load cd w i (a_store a) = (s', y) \<Longrightarrow> app_run cd a (a\<lparr>a_store := s'\<rparr>)"
  by (intro app_run_store Load_path)

lemma get_request_run: "get_request cd x i h q a = (b, r) \<Longrightarrow> app_run cd a b"
  by (auto simp: get_request_def dest!: Load_run split: prod.splits sum.splits option.splits)

lemma replay_run:
  assumes "replay cd x i h q a = (b, r)" "world_ok x"
  shows "app_run cd a b"
proof (cases "Load cd (x_env x 0) i (a_store a)")
  case (Pair s' y)
  have l: "app_run cd a (a\<lparr>a_store := s'\<rparr>)" by (rule Load_run [OF Pair])
  have "app_run cd a c" if "schedule cd x req target (a\<lparr>a_store := s'\<rparr>) = (c, e)" for req target c e
    using l schedule_run [OF that assms(2)] by (rule app_run_trans)
  then show ?thesis
    using assms(1) Pair l
    by (auto simp: replay_def split: sum.splits option.splits if_splits prod.splits)
qed

lemma events_run: "events h q a = (b, r) \<Longrightarrow> app_run cd a b"
proof -
  assume "events h q a = (b, r)"
  moreover have "app_run cd a (a\<lparr>a_store := s'\<rparr>)" if "SubscribeFrom c (a_store a) = (s', y)" for c s' y
    using that by (intro app_run_store store_path_step [OF step_subscribe]) simp_all
  ultimately show ?thesis
    by (auto simp: events_def split: option.splits if_splits prod.splits sum.splits)
qed

lemma list_requests_run: "list_requests x h q a = (b, r) \<Longrightarrow> app_run cd a b"
  by (auto simp: list_requests_def Let_def split: if_splits sum.splits prod.splits)

text \<open>The guard of the API passes its handler on, or answers by itself.\<close>

lemma operator_cases:
  assumes "operator x nxt h q a = (b, r)"
  obtains (refused) "b = a" "z_Status r = 401 \<or> z_Status r = 403"
  | (passed) h' where "nxt h' q a = (b, r)"
proof -
  have "(b = a \<and> (z_Status r = 401 \<or> z_Status r = 403)) \<or> (\<exists>h'. nxt h' q a = (b, r))"
    using assms by (auto simp: operator_def Let_def split: prod.splits if_splits)
  then show ?thesis using that by blast
qed

lemma operator_run:
  assumes "operator x nxt h q a = (b, r)" "\<And>h' r'. nxt h' q a = (b, r') \<Longrightarrow> app_run cd a b"
  shows "app_run cd a b"
  using assms(1)
proof (cases rule: operator_cases)
  case refused
  then show ?thesis by simp
next
  case (passed h')
  then show ?thesis using assms(2) by blast
qed

lemma ingest_begin_ok:
  "ingest_begin h a = Inl b \<longleftrightarrow> b = a\<lparr>a_ingest := a_ingest a + 1\<rparr> \<and> a_accepting a
     \<and> a_ingest a < c_MaxInFlight (a_config a)"
  by (auto simp: ingest_begin_def)

lemma app_run_with_slots:
  "app_run cd (a\<lparr>a_ingest := n\<rparr>) b \<Longrightarrow> app_run cd a (b\<lparr>a_ingest := a_ingest a\<rparr>)"
  by (auto simp: app_run_def same_app_def)

lemma ingest_run:
  assumes "ingest cd x h q a = (b, r)" "world_ok x"
  shows "app_run cd a b"
proof (cases "ingest_begin h a")
  case (Inr r)
  then show ?thesis using assms(1) by (simp add: ingest_def)
next
  case (Inl a1)
  then have a1: "a1 = a\<lparr>a_ingest := a_ingest a + 1\<rparr>" by (simp add: ingest_begin_ok)
  obtain a2 r2 where f: "ingest_finish cd x h q a1 = (a2, r2)" by fastforce
  then have b: "b = a2\<lparr>a_ingest := a_ingest a2 - 1\<rparr>"
    using assms(1) Inl by (simp add: ingest_def ingest_release_def)
  have run: "app_run cd a1 a2" by (rule ingest_finish_run [OF f assms(2)])
  then have "a_ingest a2 - 1 = a_ingest a" by (simp add: app_run_def same_app_def a1)
  then show ?thesis using app_run_with_slots run unfolding a1 b by metis
qed

lemma dispatch_run:
  assumes "dispatch cd x p h q a = (b, r)" "world_ok x"
  shows "app_run cd a b"
proof (cases p)
  case Inbox
  then show ?thesis using assms ingest_run by simp
next
  case ListRequests
  then show ?thesis using assms(1) by (auto intro: operator_run list_requests_run)
next
  case (GetRequest i)
  then show ?thesis using assms(1) by (auto intro: operator_run get_request_run)
next
  case (ReplayRequest i)
  then show ?thesis using assms by (auto intro: operator_run replay_run)
next
  case Events
  then show ?thesis using assms(1) by (auto intro: operator_run events_run)
next
  case Metrics
  then show ?thesis using assms(1) by (auto simp: metrics_def intro: operator_run)
next
  case Session
  then show ?thesis using assms(1) by (auto simp: session_def intro: operator_run)
qed (use assms(1) in \<open>auto simp: healthz_def readyz_def split: if_splits\<close>)

section \<open>The calls of a worker\<close>

lemma worker_claim_run:
  assumes "worker_claim cd x owner a = (b, ph)" "world_ok x"
  shows "app_run cd a b"
proof -
  have "app_run cd a (a\<lparr>a_store := s1\<rparr>)"
    if "ClaimNextJob cd (x_env x 4) owner now lease (a_store a) = (s1, y)" for now lease s1 y
    using that assms(2) by (intro app_run_store store_path_step [OF step_claim]) simp_all
  then show ?thesis
    using assms(1) app_run_signal
    by (auto simp: worker_claim_def split: prod.splits sum.splits option.splits)
qed

lemma forward_prepare_path:
  "forward_prepare cd x j s = (t, plan) \<Longrightarrow> store_path cd p s t"
  by (auto simp: forward_prepare_def Let_def dest!: Load_path [of cd _ _ s _ _ p]
      split: prod.splits sum.splits option.splits)

lemma forward_poison_run:
  assumes "world_ok x"
  shows "app_run cd a (forward_poison cd x owner j message a)"
proof -
  obtain s' y where "FinishWithoutAttempt cd (x_env x 3) (j_ID j) owner ''poison'' message (a_store a) = (s', y)"
    by fastforce
  moreover from this have "app_run cd a (a\<lparr>a_store := s'\<rparr>)"
    using assms by (intro app_run_store store_path_step [OF step_finish]) simp_all
  ultimately show ?thesis by (simp add: forward_poison_def)
qed

lemma worker_prepare_run:
  assumes "worker_prepare cd x owner j a = (b, ph)" "world_ok x"
  shows "app_run cd a b"
proof (cases "forward_prepare cd x j (a_store a)")
  case (Pair s1 plan)
  have l: "app_run cd a (a\<lparr>a_store := s1\<rparr>)"
    by (rule app_run_store [OF forward_prepare_path [OF Pair]])
  then have "app_run cd a (forward_poison cd x owner j m (a\<lparr>a_store := s1\<rparr>))" for m
    using forward_poison_run [OF assms(2)] by (rule app_run_trans)
  with l show ?thesis
    using assms(1) Pair by (cases plan) (auto simp: worker_prepare_def)
qed

lemma forward_exchange_redacted:
  "headers_redacted (\<lambda>name. sensitiveHeader name sensitive) (h_Headers (forward_exchange x c sensitive j req))"
  by (auto simp: forward_exchange_def headers_redacted_iff split: sum.split prod.split option.split)

lemma attempt_of_headers: "a_ResponseHeaders (attempt_of x j req attID n h) = h_Headers h"
  by (simp add: attempt_of_def)

lemma forward_record_run:
  assumes "world_ok x" "headers_redacted (policy_of a) (h_Headers h)"
  shows "app_run cd a (forward_record cd x owner j req attID n h a)"
proof -
  obtain st message av where st: "attempt_state x (a_config a) (j_ID j) n h (x_now x 2) = (st, message, av)"
    by (metis prod_cases3)
  obtain s' err where e: "RecordAttempt cd (x_env x 3) (j_ID j) owner (attempt_of x j req attID n h)
      st message av (a_store a) = (s', err)" by fastforce
  have "call_redacted (policy_of a) (RecordCall (j_ID j) owner (attempt_of x j req attID n h) st message av)"
    unfolding call_redacted.simps attempt_of_headers by (rule assms(2))
  then have "app_run cd a (a\<lparr>a_store := s'\<rparr>)"
    using assms(1) by (intro app_run_store store_path_step [OF step_record [OF _ e]]) simp_all
  then show ?thesis
    using app_run_signal by (auto simp: forward_record_def st e Let_def split: option.split)
qed

section \<open>Invariants of the application\<close>

text \<open>
  The store is reachable and redacted, what a worker is about to record is redacted, and the
  tokens and slots are within their bounds.
\<close>

definition app_ok :: "app \<Rightarrow> bool" where
  "app_ok a \<longleftrightarrow> 0 \<le> a_ingest a \<and> a_ingest a \<le> c_MaxInFlight (a_config a)
     \<and> 0 \<le> a_wake a \<and> a_wake a \<le> wake_capacity (a_config a) \<and> config_ok (a_config a)"

definition system_ok :: "codec \<Rightarrow> system \<Rightarrow> bool" where
  "system_ok cd y \<longleftrightarrow> app_ok (y_app y) \<and> reachable cd (a_store (y_app y))
     \<and> store_redacted (policy_of (y_app y)) (a_store (y_app y))
     \<and> (\<forall>owner j req attID n h. y_worker y owner = Answered j req attID n h \<longrightarrow>
          headers_redacted (policy_of (y_app y)) (h_Headers h))"

lemma app_run_ok:
  assumes "app_run cd a b" "app_ok a"
  shows "app_ok b"
  using assms by (auto simp: app_run_def app_ok_def same_app_def)

lemma system_ok_kept:
  assumes "app_run cd (y_app y) a" "system_ok cd y"
    "\<And>j req attID n h. ph = Answered j req attID n h \<Longrightarrow> headers_redacted (policy_of (y_app y)) (h_Headers h)"
  shows "system_ok cd (with_app a y)" "system_ok cd (set_worker owner ph a y)"
proof -
  have sens: "a_sensitive a = a_sensitive (y_app y)" and ok: "app_ok a"
    and p: "store_path cd (policy_of (y_app y)) (a_store (y_app y)) (a_store a)"
    using assms(1,2) app_run_ok by (auto simp: system_ok_def app_run_def same_app_def)
  have r: "reachable cd (a_store (y_app y))" "store_redacted (policy_of (y_app y)) (a_store (y_app y))"
    using assms(2) by (auto simp: system_ok_def)
  have "reachable cd (a_store a)" "store_redacted (policy_of a) (a_store a)"
    using store_path_reachable [OF p r(1)] store_path_kept [OF p reachable_wf [OF r(1)]] r(2) sens
    by simp_all
  note this ok sens
  then show "system_ok cd (with_app a y)" "system_ok cd (set_worker owner ph a y)"
    using assms(2,3) by (auto simp: system_ok_def with_app_def set_worker_def)
qed

lemma New_sel:
  "a_config (New cd x c s) = config_defaults c" "a_ingest (New cd x c s) = 0"
  "a_accepting (New cd x c s)" "\<not> a_cancelled (New cd x c s)"
  "a_sensitive (New cd x c s) = sensitiveHeaderPolicy (c_SensitiveHeaders (config_defaults c))"
  "a_wake (New cd x c s) = 1"
  by (auto simp: New_def Let_def signalWork_def wake_capacity_def split: prod.split)

lemma New_redacted:
  assumes "world_ok x" "wf_store cd s" "fresh s"
  shows "store_redacted (policy_of (New cd x c s)) (a_store (New cd x c s))"
proof -
  define q where "q = (\<lambda>name. sensitiveHeader name
    (sensitiveHeaderPolicy (c_SensitiveHeaders (config_defaults c))))"
  obtain s1 e1 where r: "RedactHeaders cd (x_env x 0) (Some q) s = (s1, e1)" by fastforce
  obtain s2 e2 where l: "RecoverLeases cd (x_env x 1) (x_now x 0) s1 = (s2, e2)" by fastforce
  have "store_redacted q (redact_state q s)"
    using assms(3) by (intro redact_state_establishes) (auto simp: fresh_def)
  then have "store_redacted q s1"
    using RedactHeaders_outcome [OF r] assms(3) recountRingLocked_redacted store_redacted_cong
    unfolding fresh_def by metis
  moreover have "wf_store cd s1" using RedactHeaders_wf [OF r assms(2)] assms(1) by simp
  ultimately have "store_redacted q s2"
    using store_step_redacted [OF step_recover [OF _ l]] assms(1) by simp
  moreover have "a_store (New cd x c s) = s2"
    using r l by (simp add: New_def Let_def flip: q_def)
  ultimately show ?thesis by (simp add: New_sel q_def)
qed

lemma system_ok_init: "app_init cd y \<Longrightarrow> system_ok cd y"
proof -
  assume "app_init cd y"
  then obtain x c s where y: "world_ok x" "reachable cd s" "fresh s" "y_app y = New cd x c s"
    "y_worker y = (\<lambda>_. Waiting)" unfolding app_init_def by blast
  have "config_ok (config_defaults c)" by simp
  then have "app_ok (New cd x c s)"
    unfolding app_ok_def New_sel by (simp add: wake_capacity_def config_ok_def)
  then show ?thesis
    using y store_path_reachable [OF New_path [OF y(1)] y(2)]
      New_redacted [OF y(1) reachable_wf [OF y(2)] y(3)] by (simp add: system_ok_def)
qed

lemma system_ok_ingest:
  assumes "system_ok cd y" "a_config b = a_config (y_app y)" "a_sensitive b = a_sensitive (y_app y)"
    "a_store b = a_store (y_app y)" "a_wake b = a_wake (y_app y)" "0 \<le> a_ingest b"
    "a_ingest b \<le> c_MaxInFlight (a_config b)"
  shows "system_ok cd (with_app b y)"
  using assms by (simp add: system_ok_def app_ok_def with_app_def)

lemma app_step_ok:
  assumes "app_step cd y l z" "system_ok cd y"
  shows "system_ok cd z"
  using assms(1)
proof (cases rule: app_step.cases)
  case (app_serve x q a r)
  then show ?thesis
    using system_ok_kept(1) [of cd y a Waiting] dispatch_run assms(2) by (auto simp: serve_def)
next
  case (app_inbox_begin h a)
  then have "system_ok cd (with_app a y)"
    using assms(2) by (intro system_ok_ingest) (auto simp: ingest_begin_ok system_ok_def app_ok_def)
  then show ?thesis using app_inbox_begin by simp
next
  case (app_inbox_finish x h q a r)
  have "app_run cd (y_app y) a" using app_inbox_finish ingest_finish_run by blast
  then have "system_ok cd (with_app a y)" "a_ingest a = a_ingest (y_app y)"
    using system_ok_kept(1) [of cd y a Waiting] assms(2) by (auto simp: app_run_def same_app_def)
  then show ?thesis
    using app_inbox_finish by (auto simp: ingest_release_def system_ok_def app_ok_def with_app_def)
next
  case (app_wake owner)
  then have "app_run cd (y_app y) (take_token (y_app y))"
    by (simp add: app_run_def same_app_def take_token_def)
  then show ?thesis
    using app_wake assms(2) by (auto intro!: system_ok_kept(2))
next
  case (app_tick owner)
  then show ?thesis using assms(2) by (auto intro!: system_ok_kept(2))
next
  case (app_exit owner)
  then show ?thesis using assms(2) by (auto intro!: system_ok_kept(2))
next
  case (app_claim x owner a ph)
  have "ph = Waiting \<or> (\<exists>j. ph = Claimed j)"
    using app_claim(5) by (auto simp: worker_claim_def split: prod.splits sum.splits option.splits)
  then show ?thesis
    using system_ok_kept(2) [of cd y a ph] worker_claim_run app_claim assms(2) by blast
next
  case (app_prepare x owner j a ph)
  have "\<forall>j req attID n h. ph \<noteq> Answered j req attID n h"
    using app_prepare(5)
    by (auto simp: worker_prepare_def next_round_def split: prod.splits forward_plan.splits if_splits)
  then show ?thesis
    using system_ok_kept(2) [of cd y a ph] worker_prepare_run app_prepare assms(2) by blast
next
  case (app_exchange x owner j req attID n)
  then show ?thesis
    using forward_exchange_redacted assms(2) by (auto intro!: system_ok_kept(2))
next
  case (app_record x owner j req attID n h)
  then have "headers_redacted (policy_of (y_app y)) (h_Headers h)"
    using assms(2) by (auto simp: system_ok_def)
  then show ?thesis
    using app_record forward_record_run assms(2)
    by (auto simp: next_round_def intro!: system_ok_kept(2) split: if_splits)
next
  case (app_unsubscribe c)
  then show ?thesis
    using assms(2)
    by (auto intro!: system_ok_kept(1) [of cd y _ Waiting] app_run_store store_path_step [OF step_cancel])
next
  case app_stop
  then show ?thesis
    using assms(2) by (auto simp: shutdown_begin_def system_ok_def app_ok_def with_app_def)
next
  case app_cancel
  then show ?thesis
    using assms(2) by (auto simp: shutdown_end_def system_ok_def app_ok_def with_app_def)
qed

interpretation system: invariant_of "app_init cd" "app_step cd" "system_ok cd" for cd
  by unfold_locales (auto intro: system_ok_init app_step_ok)

end
