(* ===== verification/Store_Claims.thy ===== *)
theory Store_Claims
  imports Store_Jobs
begin

text \<open>
  Claiming, recording and the work that is left. \<open>budget\<close> counts for every unfinished job one more
  than the attempts it may still make; claiming keeps it and recording the outcome of a claimed
  job lowers it.
\<close>

section \<open>Claiming\<close>

lemma ClaimNextJob_cases:
  assumes "ClaimNextJob cd w owner now lease s = (t, x)" "jobs_inv s" "range_order (w_order w)"
  obtains (nothing) "x = Inr None" "t = s"
      "\<And>i d. fmlookup (s_jobs s) i = Some d \<Longrightarrow> \<not> eligible now d"
    | (first) c y where "fmlookup (s_jobs s) (j_ID c) = Some c" "eligible now c"
      "\<And>i d. fmlookup (s_jobs s) i = Some d \<Longrightarrow> eligible now d \<Longrightarrow> \<not> claim_order d c"
      "appendLocked cd w (job_event ''leased'' (lease_job owner now lease c)) s = (t, y)"
      "x = (case y of Inl h \<Rightarrow> Inl h | Inr e \<Rightarrow> Inr (Some (lease_job owner now lease c)))"
proof (cases "sort_slice claim_order (filter (eligible now) (all_jobs w s))")
  case Nil
  then have none: "filter (eligible now) (all_jobs w s) = []"
    by (metis length_0_conv length_sort_slice)
  have unfit: "\<not> eligible now d" if "fmlookup (s_jobs s) i = Some d" for i d
    using none that all_jobs_iff [OF assms(3,2), of d] jobs_invD(1) [OF assms(2) that]
    by (auto simp: filter_empty_conv)
  have "x = Inr None" "t = s" using assms(1) Nil by (simp_all add: ClaimNextJob_def)
  then show ?thesis by (rule nothing) (use unfit in blast)
next
  case (Cons c cs)
  have "c \<in> set (sort_slice claim_order (filter (eligible now) (all_jobs w s)))" using Cons by simp
  then have c: "eligible now c" "fmlookup (s_jobs s) (j_ID c) = Some c"
    using all_jobs_iff [OF assms(3,2)] by auto
  have m: "\<not> claim_order d c" if "fmlookup (s_jobs s) i = Some d" "eligible now d" for i d
    using claims.sort_slice_hd_min [of d "filter (eligible now) (all_jobs w s)"] that Cons
      all_jobs_iff [OF assms(3,2), of d] jobs_invD(1) [OF assms(2) that(1)] by auto
  obtain u y where a: "appendLocked cd w (job_event ''leased'' (lease_job owner now lease c)) s = (u, y)"
    by fastforce
  have "t = u \<and> x = (case y of Inl h \<Rightarrow> Inl h | Inr e \<Rightarrow> Inr (Some (lease_job owner now lease c)))"
    using assms(1) Cons a by (auto simp: ClaimNextJob_def Let_def split: sum.splits)
  then have x: "appendLocked cd w (job_event ''leased'' (lease_job owner now lease c)) s = (t, y)"
    "x = (case y of Inl h \<Rightarrow> Inl h | Inr e \<Rightarrow> Inr (Some (lease_job owner now lease c)))" using a by simp_all
  show ?thesis by (rule first [OF c(2,1) _ x]) (use m in blast)
qed

lemma appended_view:
  assumes "appendLocked cd w e s = (t, Inr e')"
  shows "view_of t = view_of (applied e s)"
  using assms by (cases rule: appendLocked_view) auto

lemma lease_job_sel [simp]:
  "j_ID (lease_job owner now lease j) = j_ID j" "j_RequestID (lease_job owner now lease j) = j_RequestID j"
  "j_State (lease_job owner now lease j) = ''leased''" "j_LeaseOwner (lease_job owner now lease j) = owner"
  by (simp_all add: lease_job_def)

section \<open>The work that is left\<close>

definition job_budget :: "store \<Rightarrow> string \<Rightarrow> nat" where
  "job_budget s i =
     (case fmlookup (s_jobs s) i of
       None \<Rightarrow> 0
     | Some j \<Rightarrow>
         if terminalState (j_State j) then 0
         else Suc (nat (MaxAttemptsPerJob (s_opts s)) - length (numbers i (attempts_of s (j_RequestID j)))))"

definition budget :: "store \<Rightarrow> nat" where
  "budget s = (\<Sum>i \<in> fset (fmdom (s_jobs s)). job_budget s i)"

lemma budget_view:
  assumes "view_of s = view_of t"
  shows "budget s = budget t"
proof -
  have e: "s_opts s = s_opts t" "s_jobs s = s_jobs t" "s_attempts s = s_attempts t"
    using assms by (simp_all add: view_of_eq)
  show ?thesis unfolding budget_def job_budget_def e by (rule refl)
qed

lemma budget_pos:
  assumes "fmlookup (s_jobs s) i = Some j" "\<not> terminalState (j_State j)"
  shows "0 < budget s"
proof -
  have "i \<in> fset (fmdom (s_jobs s))" using assms(1) by (simp add: fmlookup_dom_iff)
  then have "job_budget s i \<le> budget s" unfolding budget_def by (intro member_le_sum) simp_all
  moreover have "0 < job_budget s i" using assms by (simp add: job_budget_def)
  ultimately show ?thesis by simp
qed

text \<open>An event about a job of the store that evicts nothing and is not an attempt of another job.\<close>

lemma budget_event:
  assumes "store_inv s" "e_Job e = Some k" "fmlookup (s_jobs s) (j_ID k) = Some j" "j_RequestID k = j_RequestID j"
    "e_EvictedJobIDs e = []" "e_EvictedRequestIDs e = []"
    "pred_option (\<lambda>a. a_JobID a = j_ID k) (e_Attempt e)"
  shows "fmdom (s_jobs (applied e s)) = fmdom (s_jobs s)"
    "i \<noteq> j_ID k \<Longrightarrow> job_budget (applied e s) i = job_budget s i"
    "job_budget (applied e s) (j_ID k) = (if terminalState (j_State k) then 0
       else Suc (nat (MaxAttemptsPerJob (s_opts s)) - length (numbers (j_ID k) (attempts_of s (j_RequestID j))
         @ (case e_Attempt e of Some a \<Rightarrow> if a_RequestID a = j_RequestID j then [a_Number a] else [] | None \<Rightarrow> []))))"
proof -
  have l: "fmlookup (s_jobs (applied e s)) i = (if i = j_ID k then Some k else fmlookup (s_jobs s) i)" for i
    by (simp add: applied_jobs [OF assms(1)] assms(2,5,6) split: option.split)
  have a: "numbers i (attempts_of (applied e s) rid) = numbers i (attempts_of s rid)
      @ (case e_Attempt e of Some a \<Rightarrow> if a_RequestID a = rid \<and> i = j_ID k then [a_Number a] else [] | None \<Rightarrow> [])"
    for i rid
    using assms(7) by (cases "e_Attempt e") (auto simp: applied_attempts_of [OF assms(1)] assms(5,6) Let_def)
  show "fmdom (s_jobs (applied e s)) = fmdom (s_jobs s)"
    by (rule fset_eqI) (auto simp: fmlookup_dom_iff l assms(3))
  show "job_budget (applied e s) i = job_budget s i" if "i \<noteq> j_ID k"
    using that unfolding job_budget_def l a by (simp split: option.split)
  show "job_budget (applied e s) (j_ID k) = (if terminalState (j_State k) then 0
       else Suc (nat (MaxAttemptsPerJob (s_opts s)) - length (numbers (j_ID k) (attempts_of s (j_RequestID j))
         @ (case e_Attempt e of Some a \<Rightarrow> if a_RequestID a = j_RequestID j then [a_Number a] else [] | None \<Rightarrow> []))))"
    unfolding job_budget_def l a by (auto simp: assms(4) split: option.split)
qed

lemma sum_one_less:
  fixes f g :: "'a \<Rightarrow> nat"
  assumes "finite A" "a \<in> A" "f a < g a" "\<And>x. x \<noteq> a \<Longrightarrow> f x = g x"
  shows "sum f A < sum g A"
  using assms by (intro sum_strict_mono_ex1) (auto, metis order_refl order_less_imp_le)

lemma budget_lowered:
  assumes "store_inv s" "e_Job e = Some k" "fmlookup (s_jobs s) (j_ID k) = Some j" "j_RequestID k = j_RequestID j"
    "e_EvictedJobIDs e = []" "e_EvictedRequestIDs e = []"
    "pred_option (\<lambda>a. a_JobID a = j_ID k) (e_Attempt e)"
    "job_budget (applied e s) (j_ID k) < job_budget s (j_ID k)"
  shows "budget (applied e s) < budget s"
proof -
  note b = budget_event [OF assms(1-7)]
  have "j_ID k \<in> fset (fmdom (s_jobs s))" using assms(3) by (simp add: fmlookup_dom_iff)
  then show ?thesis
    unfolding budget_def b(1) using b(2) assms(8) by (intro sum_one_less) auto
qed

text \<open>A lease is not work done.\<close>

lemma budget_lease:
  assumes "store_inv s" "fmlookup (s_jobs s) (j_ID c) = Some c" "eligible now c"
  shows "budget (applied (job_event ''leased'' (lease_job owner now lease c)) s) = budget s"
proof -
  let ?k = "lease_job owner now lease c" and ?e = "job_event ''leased'' (lease_job owner now lease c)"
  have b: "e_Job ?e = Some ?k" "fmlookup (s_jobs s) (j_ID ?k) = Some c" "j_RequestID ?k = j_RequestID c"
    "e_EvictedJobIDs ?e = []" "e_EvictedRequestIDs ?e = []" "e_Attempt ?e = None"
    using assms(2) by (simp_all add: job_event_def)
  have t: "\<not> terminalState (j_State c)" using eligible_states [OF assms(3)] by auto
  have "job_budget (applied ?e s) i = job_budget s i" for i
  proof (cases "i = j_ID ?k")
    case True
    then show ?thesis
      using budget_event(3) [OF assms(1) b(1-5)] b(2,6) t by (simp add: job_budget_def)
  next
    case False
    then show ?thesis using budget_event(2) [OF assms(1) b(1-5)] b(6) by simp
  qed
  then show ?thesis using budget_event(1) [OF assms(1) b(1-5)] b(6) by (simp add: budget_def)
qed

text \<open>An outcome is.\<close>

lemma budget_poison:
  assumes "wf_store cd s" "leased_by s i owner = Some j"
  shows "budget (applied (job_event ''poison'' (poisoned_job msg now j)) s) < budget s"
proof -
  have s: "store_inv s" "jobs_inv s" using assms(1) by (simp_all add: wf_store_def store_inv_def)
  note j = leased_byD [OF assms(2) s(2)]
  let ?e = "job_event ''poison'' (poisoned_job msg now j)"
  have b: "e_Job ?e = Some (poisoned_job msg now j)" "fmlookup (s_jobs s) (j_ID (poisoned_job msg now j)) = Some j"
    "j_RequestID (poisoned_job msg now j) = j_RequestID j"
    "e_EvictedJobIDs ?e = []" "e_EvictedRequestIDs ?e = []" "e_Attempt ?e = None"
    using j(1) by (simp_all add: job_event_def poisoned_job_def)
  have "job_budget (applied ?e s) (j_ID (poisoned_job msg now j)) = 0"
    using budget_event(3) [OF s(1) b(1-5)] b(6) by (simp add: poisoned_job_def)
  moreover have "0 < job_budget s (j_ID (poisoned_job msg now j))"
    using b(2) j(3) by (simp add: job_budget_def)
  ultimately show ?thesis using b(6) by (intro budget_lowered [OF s(1) b(1-5)]) simp_all
qed

lemma budget_attempt:
  assumes "wf_store cd s" "attempts_numbered s" "leased_by s i owner = Some j"
    "a_Number a \<le> MaxAttemptsPerJob (s_opts s)"
    "a_Number a = next_number i (attempts_of s (j_RequestID j))"
    "a_JobID a = j_ID j" "a_RequestID a = j_RequestID j"
  shows "budget (applied ((job_event st (finished_job j st msg now av))\<lparr>e_Attempt := Some a\<rparr>) s) < budget s"
proof -
  have s: "store_inv s" "jobs_inv s" using assms(1) by (simp_all add: wf_store_def store_inv_def)
  note j = leased_byD [OF assms(3) s(2)]
  let ?k = "finished_job j st msg now av"
  let ?e = "(job_event st ?k)\<lparr>e_Attempt := Some a\<rparr>"
  have b: "e_Job ?e = Some ?k" "fmlookup (s_jobs s) (j_ID ?k) = Some j" "j_RequestID ?k = j_RequestID j"
    "e_EvictedJobIDs ?e = []" "e_EvictedRequestIDs ?e = []"
    using j(1) by (simp_all add: job_event_def)
  have c: "pred_option (\<lambda>b. a_JobID b = j_ID ?k) (e_Attempt ?e)" using assms(6) by simp
  obtain n where n: "0 \<le> n" "numbers i (attempts_of s (j_RequestID j)) = [1..n]"
    using assms(2) j(1,2) by (auto simp: attempts_numbered_def)
  have "a_Number a = n + 1" using next_number_upto [OF n(2,1)] assms(5) by simp
  then have "length (numbers i (attempts_of s (j_RequestID j))) < nat (MaxAttemptsPerJob (s_opts s))"
    using n assms(4) by simp
  then have "nat (MaxAttemptsPerJob (s_opts s)) - Suc (length (numbers i (attempts_of s (j_RequestID j))))
      < nat (MaxAttemptsPerJob (s_opts s)) - length (numbers i (attempts_of s (j_RequestID j)))"
    by linarith
  moreover have "job_budget s (j_ID ?k)
      = Suc (nat (MaxAttemptsPerJob (s_opts s)) - length (numbers i (attempts_of s (j_RequestID j))))"
    using j by (simp add: job_budget_def)
  moreover have "job_budget (applied ?e s) (j_ID ?k) = (if terminalState st then 0
      else Suc (nat (MaxAttemptsPerJob (s_opts s)) - Suc (length (numbers i (attempts_of s (j_RequestID j))))))"
    using budget_event(3) [OF s(1) b c] j(2) assms(7) by simp
  ultimately have "job_budget (applied ?e s) (j_ID ?k) < job_budget s (j_ID ?k)" by simp
  then show ?thesis by (rule budget_lowered [OF s(1) b c])
qed

end
