(* ===== verification/App_Drain.thy ===== *)
theory App_Drain
  imports App_System Store_Claims
begin

text \<open>
  The inner loop of a worker ends. A round of \<open>worker_drain\<close> that settles the job it claimed lowers
  the store's \<open>budget\<close>, whatever the target answers and however the clock runs, and a store that has
  failed ends the loop in the next round; so the loop takes at most one round more than the budget.
\<close>

section \<open>One round\<close>

text \<open>
  A round settles its job when, at its end, the store has failed or the worker does not hold the
  lease any more: the outcome was recorded. \<open>settles\<close> says so of every round of a run of the loop.
\<close>

definition settled :: "string \<Rightarrow> job \<Rightarrow> app \<Rightarrow> bool" where
  "settled owner j a \<longleftrightarrow> s_health (a_store a) \<noteq> None \<or> leased_by (a_store a) (j_ID j) owner = None"

fun settles :: "codec \<Rightarrow> (nat \<Rightarrow> world) \<Rightarrow> string \<Rightarrow> nat \<Rightarrow> app \<Rightarrow> bool" where
  "settles cd xs owner 0 a = True"
| "settles cd xs owner (Suc fuel) a =
     (let x = xs fuel
      in case ClaimNextJob cd (x_env x 4) owner (x_now x 3) (c_LeaseDuration (a_config a)) (a_store a) of
           (s1, Inr (Some j)) \<Rightarrow>
             (let a2 = forward cd x owner j (signalWork (a\<lparr>a_store := s1\<rparr>))
              in settled owner j a2 \<and> (\<not> a_cancelled a2 \<longrightarrow> settles cd xs owner fuel a2))
         | _ \<Rightarrow> True)"

lemma view_leased_by: "view_of s = view_of t \<Longrightarrow> leased_by s i owner = leased_by t i owner"
  by (simp add: leased_by_def view_of_eq)

lemma error_only_view:
  assumes "error_only (appendLocked cd w e s) = (t, x)"
  shows "view_of t = view_of s \<or> view_of t = view_of (applied e s)"
  using assms by (cases "appendLocked cd w e s")
    (auto simp: error_only_def split: sum.splits elim!: appendLocked_view)

lemma RecordAttempt_budget:
  assumes "RecordAttempt cd w i owner a st msg av s = (t, x)" "wf_store cd s" "attempts_numbered s"
    "leased_by s i owner = Some j" "a_JobID a = j_ID j" "a_RequestID a = j_RequestID j"
  shows "view_of t = view_of s \<or> budget t < budget s"
proof -
  have "view_of t = view_of s \<or> budget t < budget s"
    if e: "error_only (appendLocked cd w
        ((job_event st (finished_job j st msg now av))\<lparr>e_Attempt := Some a\<rparr>) s) = (t, x)"
      and n: "\<not> a_Number a > MaxAttemptsPerJob (s_opts s)"
        "a_Number a = next_number i (attempts_of s (j_RequestID j))" for now
    using error_only_view [OF e] budget_view [of t]
      budget_attempt [OF assms(2-4) _ n(2) assms(5,6), of st msg now av] n(1) by fastforce
  then show ?thesis
    using assms(1,4) by (auto simp: RecordAttempt_def Let_def split: if_splits)
qed

lemma FinishWithoutAttempt_budget:
  assumes "FinishWithoutAttempt cd w i owner st msg s = (t, x)" "wf_store cd s"
    "leased_by s i owner = Some j"
  shows "view_of t = view_of s \<or> budget t < budget s"
proof (cases "st = ''poison''")
  case True
  then have "error_only (appendLocked cd w (job_event ''poison'' (poisoned_job msg (w_clock w) j)) s) = (t, x)"
    using assms(1,3) by (simp add: FinishWithoutAttempt_def poisoned_job_def)
  from error_only_view [OF this] show ?thesis
    using budget_view [of t] budget_poison [OF assms(2,3), of msg "w_clock w"] by fastforce
next
  case False
  then show ?thesis using assms(1,3) by (simp add: FinishWithoutAttempt_def)
qed

lemma view_of_poison [simp]: "view_of (poison h s) = view_of s"
  by (simp add: poison_def view_of_eq)

lemma Load_view: "Load cd w i s = (t, x) \<Longrightarrow> view_of t = view_of s"
  by (auto simp: Load_def split: option.splits sum.splits)

lemma Load_failed: "Load cd w i s = (t, Inl h) \<Longrightarrow> s_health t \<noteq> None"
  by (auto simp: Load_def poison_def split: option.splits sum.splits if_splits)

lemma Load_request: "Load cd w i s = (t, Inr (Some (r, as))) \<Longrightarrow> requests_inv s \<Longrightarrow> r_ID r = i"
  by (auto simp: Load_def dest: requests_invD split: option.splits sum.splits)

text \<open>After a round the store has failed, or less is left to do, or the job is still leased.\<close>

lemma forward_budget:
  assumes "wf_store cd (a_store a)" "attempts_numbered (a_store a)"
    "leased_by (a_store a) (j_ID j) owner = Some j"
  shows "budget (a_store (forward cd x owner j a)) < budget (a_store a)
    \<or> s_health (a_store (forward cd x owner j a)) \<noteq> None
    \<or> leased_by (a_store (forward cd x owner j a)) (j_ID j) owner \<noteq> None"
proof -
  obtain s1 y where l: "Load cd (x_env x 0) (j_RequestID j) (a_store a) = (s1, y)" by fastforce
  have v: "view_of s1 = view_of (a_store a)" by (rule Load_view [OF l])
  have w: "wf_store cd s1" using Load_wf [OF l assms(1)] .
  have n: "attempts_numbered s1" using attempts_numbered_view [OF v] assms(2) by simp
  have b: "budget s1 = budget (a_store a)" by (rule budget_view [OF v])
  have h: "leased_by s1 (j_ID j) owner = Some j" using view_leased_by [OF v] assms(3) by simp
  have fin: "budget t < budget (a_store a) \<or> s_health t \<noteq> None \<or> leased_by t (j_ID j) owner \<noteq> None"
    if "view_of t = view_of s1 \<or> budget t < budget s1" for t
    using that b h view_leased_by [of t s1] by auto
  show ?thesis
  proof (cases y)
    case (Inl e)
    then show ?thesis using Load_failed l by (simp add: forward_def forward_prepare_def)
  next
    case (Inr r)
    show ?thesis
    proof (cases "\<exists>req as attID. r = Some (req, as) \<and> x_id x 0 = Some attID")
      case True
      then obtain req as attID where r: "r = Some (req, as)" "x_id x 0 = Some attID" by blast
      define k where "k = AttemptsForJob (x_env x 1) (j_ID j) s1 + 1"
      define g where "g = forward_exchange x (a_config a) (a_sensitive a) j req"
      obtain st msg av where st: "attempt_state x (a_config a) (j_ID j) k g (x_now x 2) = (st, msg, av)"
        by (metis prod_cases3)
      obtain t e where t: "RecordAttempt cd (x_env x 3) (j_ID j) owner (attempt_of x j req attID k g) st msg av s1
          = (t, e)" by fastforce
      have "r_ID req = j_RequestID j"
        using Load_request l Inr r(1) assms(1) by (auto simp: wf_store_def store_inv_def)
      then have "view_of t = view_of s1 \<or> budget t < budget s1"
        using RecordAttempt_budget [OF t w n h] by (simp add: attempt_of_def)
      moreover have "a_store (forward cd x owner j a) = t"
        using l Inr r st t unfolding k_def g_def
        by (simp add: forward_def forward_prepare_def forward_record_def Let_def split: option.split)
      ultimately show ?thesis using fin by simp
    next
      case False
      then obtain m where m: "forward cd x owner j a = forward_poison cd x owner j m (a\<lparr>a_store := s1\<rparr>)"
        using l Inr by (cases r; cases "x_id x 0") (auto simp: forward_def forward_prepare_def Let_def)
      obtain t e where t: "FinishWithoutAttempt cd (x_env x 3) (j_ID j) owner ''poison'' m s1 = (t, e)" by fastforce
      then show ?thesis
        using fin FinishWithoutAttempt_budget [OF t w h] by (simp add: m forward_poison_def)
    qed
  qed
qed

section \<open>The loop ends\<close>

lemma forward_run:
  assumes "world_ok x"
  shows "\<exists>p. store_path cd p (a_store a) (a_store (forward cd x owner j a))
    \<and> a_config (forward cd x owner j a) = a_config a"
proof -
  obtain s1 plan where p: "forward_prepare cd x j (a_store a) = (s1, plan)" by fastforce
  let ?a = "a\<lparr>a_store := s1\<rparr>"
  have l: "store_path cd (policy_of a) (a_store a) s1" by (rule forward_prepare_path [OF p])
  have "app_run cd ?a (forward cd x owner j a)"
  proof (cases plan)
    case Abandon
    then show ?thesis using p by (simp add: forward_def)
  next
    case (Poison m)
    then show ?thesis using p forward_poison_run [OF assms] by (simp add: forward_def)
  next
    case (Send attID n req)
    have "headers_redacted (policy_of ?a) (h_Headers (forward_exchange x (a_config a) (a_sensitive a) j req))"
      using forward_exchange_redacted by simp
    then show ?thesis using p Send forward_record_run [OF assms] by (simp add: forward_def)
  qed
  then have "store_path cd (policy_of a) s1 (a_store (forward cd x owner j a))"
    "a_config (forward cd x owner j a) = a_config a"
    by (simp_all add: app_run_def same_app_def)
  then show ?thesis using l store_path_trans by blast
qed

lemma reachable_numbered: "reachable cd s \<Longrightarrow> attempts_numbered s"
  using invariant_of.reachable [OF numbered.invariant reachable_new] by blast

lemma ClaimNextJob_failed:
  assumes "ClaimNextJob cd w owner now lease s = (t, x)" "s_health s \<noteq> None" "jobs_inv s"
    "range_order (w_order w)"
  shows "x = Inr None \<or> (\<exists>h. x = Inl h)"
  using assms(1,3,4)
proof (cases rule: ClaimNextJob_cases)
  case nothing
  then show ?thesis by simp
next
  case (first c y)
  have "\<exists>h. y = Inl h"
    using first(4) assms(2) by (auto simp: appendLocked_def split: option.splits if_splits)
  then show ?thesis using first(5) by auto
qed

lemma drain_ends:
  assumes "\<And>i. world_ok (xs i)"
  shows "reachable cd (a_store a) \<Longrightarrow> settles cd xs owner fuel a \<Longrightarrow>
    (if s_health (a_store a) = None then budget (a_store a) else 0) < fuel \<Longrightarrow>
    \<exists>b. worker_drain cd xs owner fuel a = Some b"
proof (induction fuel arbitrary: a)
  case (Suc fuel)
  let ?x = "xs fuel"
  have wf: "wf_store cd (a_store a)" by (rule reachable_wf [OF Suc.prems(1)])
  have ji: "jobs_inv (a_store a)" by (rule wf_storeD(6) [OF wf])
  have ord: "range_order (w_order (x_env ?x 4))" using assms by simp
  obtain s1 y where c: "ClaimNextJob cd (x_env ?x 4) owner (x_now ?x 3) (c_LeaseDuration (a_config a)) (a_store a)
      = (s1, y)" by fastforce
  show ?case
  proof (cases "\<exists>j. y = Inr (Some j)")
    case True
    then obtain j where y: "y = Inr (Some j)" by blast
    let ?a1 = "signalWork (a\<lparr>a_store := s1\<rparr>)"
    let ?a2 = "forward cd ?x owner j ?a1"
    have healthy: "s_health (a_store a) = None"
      using ClaimNextJob_failed [OF c _ ji ord] y by (cases "s_health (a_store a)") auto
    have s1: "reachable cd s1"
      using Suc.prems(1) step_claim [OF ord c] by (rule reach_step)
    have claimed: "budget s1 = budget (a_store a) \<and> leased_by s1 (j_ID j) owner = Some j"
      using c ji ord
    proof (cases rule: ClaimNextJob_cases)
      case (first k z)
      then obtain e where j: "j = lease_job owner (x_now ?x 3) (c_LeaseDuration (a_config a)) k"
        "z = Inr e" using y by (auto split: sum.splits)
      have v: "view_of s1 = view_of (applied (job_event ''leased'' j) (a_store a))"
        using appended_view first(4) j by blast
      have si: "store_inv (a_store a)" using wf by (simp add: wf_store_def)
      have "leased_by (applied (job_event ''leased'' j) (a_store a)) (j_ID j) owner = Some j"
        by (simp add: leased_by_def applied_jobs [OF si] job_event_def j(1))
      then show ?thesis
        using budget_view [OF v] budget_lease [OF si first(1,2)] view_leased_by [OF v] j(1) by simp
    qed (use y in simp)
    have left: "0 < budget s1"
      using budget_pos [of s1 "j_ID j" j] leased_byD [OF conjunct2 [OF claimed]] wf_storeD(6) [OF reachable_wf [OF s1]]
      by simp
    have f: "budget (a_store ?a2) < budget s1 \<or> s_health (a_store ?a2) \<noteq> None
        \<or> leased_by (a_store ?a2) (j_ID j) owner \<noteq> None"
      using forward_budget [of cd ?a1 j owner ?x] reachable_wf [OF s1] reachable_numbered [OF s1] claimed
      by simp
    have st: "settled owner j ?a2" "a_cancelled ?a2 \<or> settles cd xs owner fuel ?a2"
      using Suc.prems(2) c y by (auto simp: Let_def)
    show ?thesis
    proof (cases "a_cancelled ?a2")
      case True
      then show ?thesis using c y by (simp add: Let_def)
    next
      case False
      have "\<exists>p. store_path cd p s1 (a_store ?a2)" using forward_run [OF assms, of cd ?a1] by auto
      then have "reachable cd (a_store ?a2)" using store_path_reachable s1 by blast
      moreover have "(if s_health (a_store ?a2) = None then budget (a_store ?a2) else 0) < fuel"
        using f st(1) claimed Suc.prems(3) healthy left by (auto simp: settled_def)
      ultimately show ?thesis
        using Suc.IH [of ?a2] st(2) False c y by (simp add: Let_def)
    qed
  next
    case False
    then show ?thesis using c by (auto simp: Let_def split: sum.split option.split)
  qed
qed simp

end
