(* ===== verification/App_Outcome.thy ===== *)
theory App_Outcome
  imports App_Drain
begin

text \<open>
  The outcome of a delivery: the number of its attempt, and what is recorded when nothing fails.
  Then the end of the program: when no job is unfinished the workers change nothing any more.
\<close>

section \<open>The number of an attempt\<close>

lemma numbers_concat: "numbers i (concat xs) = concat (map (numbers i) xs)"
  by (induction xs) simp_all

lemma concat_single:
  assumes "distinct ks" "\<And>k. k \<noteq> r \<Longrightarrow> f k = []" "r \<notin> set ks \<Longrightarrow> f r = []"
  shows "concat (map f ks) = f r"
  using assms
proof (induction ks)
  case (Cons k ks)
  have "concat (map f ks) = []" if "r \<notin> set ks"
  proof -
    have "f k = []" if "k \<in> set ks" for k using that \<open>r \<notin> set ks\<close> Cons.prems(2) by metis
    then show ?thesis by simp
  qed
  then show ?case using Cons by (cases "k = r") auto
qed simp

lemma AttemptsForJob_upto:
  assumes "store_inv s" "range_order (w_order w)" "fmlookup (s_jobs s) i = Some j"
    "numbers i (attempts_of s (j_RequestID j)) = [1..n]" "0 \<le> n"
  shows "AttemptsForJob w i s = n"
proof -
  have a: "attempts_inv s" using assms(1) by (simp add: store_inv_def)
  let ?ks = "range_keys (w_order w) (s_attempts s)"
  have other: "numbers i (attempts_of s k) = []" if "k \<noteq> j_RequestID j" for k
  proof -
    have "a_JobID b \<noteq> i" if b: "b \<in> set (attempts_of s k)" for b
      using attempts_invD(4) [OF a b] assms(3) \<open>k \<noteq> j_RequestID j\<close> by auto
    then show ?thesis by (auto simp: numbers_def filter_empty_conv)
  qed
  have none: "numbers i (attempts_of s (j_RequestID j)) = []" if "j_RequestID j \<notin> set ?ks"
    using that assms(2) by (auto simp: map_get_def fmlookup_dom_iff split: option.split)
  have "numbers i (concat (map (attempts_of s) ?ks)) = [1..n]"
    unfolding numbers_concat map_map comp_def
    using concat_single [of ?ks "j_RequestID j" "\<lambda>k. numbers i (attempts_of s k)"] other none assms(2,4)
    by simp
  moreover have "fold (\<lambda>a n. if a_JobID a = i \<and> a_Number a > n then a_Number a else n) as m
      = fold max (numbers i as) m" for as m
    by (induction as arbitrary: m) (auto simp: max_def)
  moreover have "fold max [1..int k] (0 :: int) = int k" for k
  proof (induction k)
    case (Suc k)
    have "[1..int (Suc k)] = [1..int k] @ [int (Suc k)]" using upto_rec2 [of 1 "int (Suc k)"] by simp
    then show ?case using Suc by simp
  qed simp
  from this [of "nat n"] have "fold max [1..n] (0 :: int) = n" using assms(5) by simp
  ultimately show ?thesis by (simp add: AttemptsForJob_def)
qed

section \<open>A delivery in which nothing fails\<close>

lemma result_state: "attempt_state x c i n h t = (st, msg, av) \<Longrightarrow> st \<in> set result_states"
  by (auto simp: attempt_state_def result_states_def split: if_splits)

definition outcome_event :: "job \<Rightarrow> attempt \<Rightarrow> string \<Rightarrow> string \<Rightarrow> time \<Rightarrow> time \<Rightarrow> event" where
  "outcome_event j a st msg av now =
     (job_event st (finished_job j st msg now av))\<lparr>e_Attempt := Some a\<rparr>"

lemma outcome_valid:
  assumes "wf_store cd s" "leased_by s i owner = Some j" "st \<in> set result_states" "w_clock w \<noteq> 0"
    "a_ID a \<noteq> []" "a_ID a |\<notin>| s_attemptIDs s" "a_JobID a = i" "a_RequestID a = j_RequestID j" "1 \<le> a_Number a"
  shows "validateRecoveredEvent (stamped w s (outcome_event j a st msg av now)) = None"
    "validateStateLocked s (stamped w s (outcome_event j a st msg av now)) = None"
proof -
  have ji: "jobs_inv s" by (rule wf_storeD(6) [OF assms(1)])
  note j = leased_byD [OF assms(2) ji]
  have ids: "i \<noteq> []" "j_RequestID j \<noteq> []" "fmlookup (s_requests s) (j_RequestID j) \<noteq> None"
    using jobs_invD [OF ji j(1)] wf_storeD(5) [OF assms(1)] j(2) by (auto simp: requests_inv_def)
  have k: "forward_kind st \<in> set job_kinds" using assms(3) by (auto simp: result_states_def forward_kind_def job_kinds_def)
  show "validateRecoveredEvent (stamped w s (outcome_event j a st msg av now)) = None"
    using assms(3-9) ids k j
    by (simp add: validateRecoveredEvent_def outcome_event_def stamped_def job_event_def forward_kind_simps
        validateAttempt_def)
  show "validateStateLocked s (stamped w s (outcome_event j a st msg av now)) = None"
    using assms(6-8) ids j
    by (auto simp: validateStateLocked_def outcome_event_def stamped_def job_event_def finished_job_def Let_def
        split: option.split)
qed

lemma RecordAttempt_calm:
  assumes "wf_store cd s" "leased_by s i owner = Some j" "st \<in> set result_states" "now \<noteq> 0"
    "a_ID a \<noteq> []" "a_ID a |\<notin>| s_attemptIDs s" "a_JobID a = i" "a_RequestID a = j_RequestID j"
    "a_Number a = next_number i (attempts_of s (j_RequestID j))" "1 \<le> a_Number a"
    "a_Number a \<le> MaxAttemptsPerJob (s_opts s)" "a_FinishedAt a \<noteq> 0"
    "\<not> s_closed s" "s_health s = None" "s_handle s" "s_eventCount s < MaxEvents (s_opts s)"
    "Marshal cd (stamped (calm now) s (outcome_event j a st msg av (a_FinishedAt a))) = Some b"
    "length b < maxEventBytes"
  shows "\<exists>t. RecordAttempt cd (calm now) i owner a st msg av s = (t, None) \<and> s_health t = None
    \<and> view_of t = view_of (applied (outcome_event j a st msg av (a_FinishedAt a)) s)"
proof -
  let ?e = "outcome_event j a st msg av (a_FinishedAt a)"
  have "w_clock (calm now) \<noteq> 0" using assms(4) by simp
  then have adm: "admitted cd (calm now) ?e s b"
    using outcome_valid [OF assms(1-3) _ assms(5-8,10)] assms(13-15,17,18) by (simp add: admitted_def)
  then have "appendLocked cd (calm now) ?e s
      = (publish (stamped (calm now) s ?e) (logged cd (calm now) ?e b s), Inr (stamped (calm now) s ?e))"
    using assms(16) by (rule appendLocked_calm)
  then show ?thesis
    using assms(2,3,6,9,11,12,14)
    by (simp add: RecordAttempt_def error_only_def logged_view flip: outcome_event_def)
qed

lemma forward_calm:
  assumes "wf_store cd (a_store a)" "attempts_numbered (a_store a)"
    "leased_by (a_store a) (j_ID j) owner = Some j"
    "\<not> s_closed (a_store a)" "s_health (a_store a) = None" "s_handle (a_store a)"
    "s_eventCount (a_store a) < MaxEvents (s_opts (a_store a))"
    "x_env x 0 = calm t0" "range_order (w_order (x_env x 1))" "x_env x 3 = calm now" "now \<noteq> 0"
    "Load cd (calm t0) (j_RequestID j) (a_store a) = (a_store a, Inr (Some (req, as)))"
    "x_id x 0 = Some attID" "attID \<noteq> []" "attID |\<notin>| s_attemptIDs (a_store a)" "x_now x 2 \<noteq> 0"
    "n = next_number (j_ID j) (attempts_of (a_store a) (j_RequestID j))"
    "n \<le> MaxAttemptsPerJob (s_opts (a_store a))"
    "h = forward_exchange x (a_config a) (a_sensitive a) j req"
    "attempt_state x (a_config a) (j_ID j) n h (x_now x 2) = (st, msg, av)"
    "Marshal cd (stamped (calm now) (a_store a)
       (outcome_event j (attempt_of x j req attID n h) st msg av (x_now x 2))) = Some b"
    "length b < maxEventBytes"
  shows "\<exists>t. forward cd x owner j a = (if st = ''retrying'' then signalWork (a\<lparr>a_store := t\<rparr>) else a\<lparr>a_store := t\<rparr>)
    \<and> s_health t = None \<and> view_of t = view_of (applied (outcome_event j (attempt_of x j req attID n h) st msg av (x_now x 2))
         (a_store a))"
proof -
  let ?s = "a_store a" and ?a = "attempt_of x j req attID n h"
  have i: "store_inv ?s" "jobs_inv ?s" "requests_inv ?s" using wf_storeD [OF assms(1)] by simp_all
  note j = leased_byD [OF assms(3) i(2)]
  obtain m where m: "0 \<le> m" "numbers (j_ID j) (attempts_of ?s (j_RequestID j)) = [1..m]"
    using assms(2) j(1) by (auto simp: attempts_numbered_def)
  have n: "n = m + 1" using next_number_upto [OF m(2,1)] assms(17) by simp
  have att: "AttemptsForJob (x_env x 1) (j_ID j) ?s = m"
    by (rule AttemptsForJob_upto [OF i(1) assms(9) j(1) m(2,1)])
  have r: "r_ID req = j_RequestID j" by (rule Load_request [OF assms(12) i(3)])
  have a: "a_ID (attempt_of x j req attID k h) = attID" "a_JobID (attempt_of x j req attID k h) = j_ID j"
    "a_RequestID (attempt_of x j req attID k h) = j_RequestID j" "a_Number (attempt_of x j req attID k h) = k"
    "a_FinishedAt (attempt_of x j req attID k h) = x_now x 2" for k by (simp_all add: attempt_of_def r)
  have pos: "1 \<le> n" using m(1) n by simp
  have "\<exists>t. RecordAttempt cd (calm now) (j_ID j) owner ?a st msg av ?s = (t, None) \<and> s_health t = None
      \<and> view_of t = view_of (applied (outcome_event j ?a st msg av (a_FinishedAt ?a)) ?s)"
    by (rule RecordAttempt_calm [where b = b, OF assms(1,3) result_state [OF assms(20)] assms(11)])
      (use assms(4-7,14-18,21,22) pos in \<open>simp_all add: a\<close>)
  then obtain t where t: "RecordAttempt cd (calm now) (j_ID j) owner ?a st msg av ?s = (t, None)" "s_health t = None"
    "view_of t = view_of (applied (outcome_event j ?a st msg av (x_now x 2)) ?s)"
    by (auto simp: a)
  have "forward cd x owner j a = forward_record cd x owner j req attID n h (a\<lparr>a_store := ?s\<rparr>)"
    using assms(8,12,13,19) att n by (simp add: forward_def forward_prepare_def Let_def)
  also have "\<dots> = (if st = ''retrying'' then signalWork (a\<lparr>a_store := t\<rparr>) else a\<lparr>a_store := t\<rparr>)"
    using assms(10,20) t(1) by (simp add: forward_record_def Let_def)
  finally show ?thesis using t(2,3) by blast
qed

section \<open>A lowered limit\<close>

text \<open>A job that has the attempts of the limit can record no further one.\<close>

lemma RecordAttempt_over:
  assumes "numbers i (attempts_of s (j_RequestID j)) = [1..n]" "0 \<le> n" "MaxAttemptsPerJob (s_opts s) \<le> n"
    "leased_by s i owner = Some j"
  shows "\<exists>e. RecordAttempt cd w i owner a st msg av s = (s, Some e)"
  using next_number_upto [OF assms(1,2)] assms(3,4) by (auto simp: RecordAttempt_def)

section \<open>Nothing left to do\<close>

definition drained :: "store \<Rightarrow> bool" where
  "drained s \<longleftrightarrow> fmpred (\<lambda>_ j. terminalState (j_State j)) (s_jobs s)"

lemma UnfinishedJobs_drained:
  assumes "range_order (w_order w)" "jobs_inv s"
  shows "UnfinishedJobs w s = [] \<longleftrightarrow> drained s"
proof -
  have "UnfinishedJobs w s = [] \<longleftrightarrow> (\<forall>j \<in> set (all_jobs w s). terminalState (j_State j))"
    unfolding UnfinishedJobs_def by (metis (mono_tags, lifting) filter_empty_conv length_0_conv length_sort_slice)
  also have "\<dots> \<longleftrightarrow> drained s"
    using all_jobs_iff [OF assms] jobs_invD(1) [OF assms(2)] by (fastforce simp: drained_def fmpred_iff)
  finally show ?thesis .
qed

lemma drained_view: "view_of s = view_of t \<Longrightarrow> drained s = drained t"
  by (simp add: drained_def view_of_eq)

lemma drained_leased: "drained s \<Longrightarrow> leased_by s i owner = None"
proof (cases "fmlookup (s_jobs s) i")
  case (Some j)
  assume "drained s"
  then have "terminalState (j_State j)" using Some by (auto simp: drained_def fmpred_iff)
  then have "j_State j \<noteq> ''leased''" by auto
  then show ?thesis using Some by (simp add: leased_by_def)
qed (simp add: leased_by_def)

text \<open>The steps of the workers and of the shutdown.\<close>

fun background :: "action \<Rightarrow> bool" where
  "background (Serve q) = False"
| "background InboxBegin = False"
| "background (InboxFinish q) = False"
| "background _ = True"

definition background_step :: "codec \<Rightarrow> system \<Rightarrow> action \<Rightarrow> system \<Rightarrow> bool" where
  "background_step cd y l z \<longleftrightarrow> app_step cd y l z \<and> background l"

lemma drained_claim:
  assumes "worker_claim cd x owner a = (b, ph)" "world_ok x" "drained (a_store a)" "jobs_inv (a_store a)"
  shows "a_store b = a_store a"
proof -
  have o: "range_order (w_order (x_env x 4))" using assms(2) by simp
  obtain s1 y where c: "ClaimNextJob cd (x_env x 4) owner (x_now x 3) (c_LeaseDuration (a_config a)) (a_store a)
      = (s1, y)" by fastforce
  then have "y = Inr None \<and> s1 = a_store a"
    using assms(4) o
  proof (cases rule: ClaimNextJob_cases)
    case (first k z)
    then have "terminalState (j_State k)" using assms(3) by (auto simp: drained_def fmpred_iff)
    then show ?thesis using eligible_states [OF first(2)] by auto
  qed simp
  then show ?thesis using assms(1) c by (simp add: worker_claim_def)
qed

lemma drained_poison: "drained (a_store a) \<Longrightarrow> forward_poison cd x owner j m a = a"
  by (simp add: forward_poison_def FinishWithoutAttempt_def drained_leased)

lemma drained_prepare:
  assumes "worker_prepare cd x owner j a = (b, ph)" "drained (a_store a)"
  shows "view_of (a_store b) = view_of (a_store a)"
proof -
  obtain s1 plan where p: "forward_prepare cd x j (a_store a) = (s1, plan)" by fastforce
  obtain s2 y where l: "Load cd (x_env x 0) (j_RequestID j) (a_store a) = (s2, y)" by fastforce
  have "s1 = s2" using p l by (auto simp: forward_prepare_def Let_def split: sum.splits option.splits)
  then have v: "view_of s1 = view_of (a_store a)" using Load_view [OF l] by simp
  then have "drained s1" using drained_view assms(2) by blast
  then show ?thesis
    using assms(1) p v drained_poison [of "a\<lparr>a_store := s1\<rparr>"]
    by (auto simp: worker_prepare_def split: forward_plan.splits)
qed

lemma drained_record:
  assumes "drained (a_store a)"
  shows "a_store (forward_record cd x owner j req attID n h a) = a_store a"
  using drained_leased [OF assms]
  by (simp add: forward_record_def RecordAttempt_def Let_def split: prod.split)

lemma drained_step:
  assumes "background_step cd y l z" "drained (a_store (y_app y))" "jobs_inv (a_store (y_app y))"
  shows "view_of (a_store (y_app z)) = view_of (a_store (y_app y))"
proof -
  have "app_step cd y l z" using assms(1) by (simp add: background_step_def)
  then show ?thesis
  proof (cases rule: app_step.cases)
    case (app_claim x owner a ph)
    then show ?thesis using drained_claim assms(2,3) by (simp add: set_worker_def)
  next
    case (app_prepare x owner j a ph)
    then show ?thesis using drained_prepare assms(2) by (simp add: set_worker_def)
  next
    case (app_record x owner j req attID n h)
    then show ?thesis using drained_record assms(2) by (simp add: set_worker_def)
  next
    case (app_unsubscribe c)
    then show ?thesis by (simp add: with_app_def cancel_subscription_def view_of_eq)
  qed (use assms(1) in \<open>simp_all add: background_step_def set_worker_def with_app_def take_token_def
      shutdown_begin_def shutdown_end_def\<close>)
qed

definition drained_system :: "codec \<Rightarrow> system \<Rightarrow> bool" where
  "drained_system cd y \<longleftrightarrow> app_reachable cd y \<and> drained (a_store (y_app y))"

definition same_view :: "system \<Rightarrow> system \<Rightarrow> bool" where
  "same_view y z \<longleftrightarrow> view_of (a_store (y_app z)) = view_of (a_store (y_app y))"

lemma app_reachable_jobs_inv: "app_reachable cd y \<Longrightarrow> jobs_inv (a_store (y_app y))"
  using system.reachable reachable_wf wf_storeD(6) unfolding system_ok_def by blast

interpretation quiet: monotone_along "drained_system cd" "background_step cd" "drained_system cd" same_view for cd
proof
  show "drained_system cd z" if "drained_system cd y" "background_step cd y l z" for y l z
  proof -
    have y: "app_reachable cd y" "drained (a_store (y_app y))" "app_step cd y l z"
      using that by (simp_all add: drained_system_def background_step_def)
    have "app_reachable cd z" using y(1,3) by (rule reach_step)
    moreover have "view_of (a_store (y_app z)) = view_of (a_store (y_app y))"
      by (rule drained_step [OF that(2) y(2) app_reachable_jobs_inv [OF y(1)]])
    ultimately show ?thesis using drained_view y(2) unfolding drained_system_def by blast
  qed
  show "same_view y z" if "drained_system cd y" "background_step cd y l z" for y l z
    using that drained_step [OF that(2)] app_reachable_jobs_inv
    by (auto simp: same_view_def drained_system_def)
qed (simp_all add: same_view_def)

end
