(* ===== verification/Store_Props.thy ===== *)
theory Store_Props
  imports Store_Examples
begin

text \<open>
  The properties of the store's operations, each with a closed example on the run of
  \<open>Store_Examples\<close> where it has hypotheses.
\<close>

section \<open>Invariants of every reachable store\<close>

text \<open>
  C2. In every reachable store the maps agree: requests, jobs and attempts are filed under their
  own identifiers, every job belongs to a retained request and every attempt to a retained job,
  \<open>jobsByRequest\<close>, \<open>attemptIDs\<close> and the record references list exactly what is retained, and
  the idempotency keys are exactly the keys of the retained requests, so that no two retained
  requests share one.
\<close>

theorem reachable_consistent:
  assumes "reachable cd s"
  shows "store_inv s \<and> dedup_inv s"
  using reachable_wf [OF assms] by (simp add: wf_store_def)

theorem reachable_consistent_witness: "store_inv demo3 \<and> dedup_inv demo3"
  by (rule reachable_consistent [OF demo_reachable(4)])






lemma demo_sizes: "sizes_agree demo_codec"
  by (auto simp: sizes_agree_def event_bytes_def clone_bytes_def demo_codec_def table_codec_def
      simp del: index_of.simps split: option.split)


section \<open>The life cycle of jobs\<close>

text \<open>
  C3. Whatever operation is called and whatever fails, a job that is in the store before and
  after is unchanged or has moved along one edge of the life cycle (leased when eligible, back
  to pending from a lease, finished or poisoned from a lease), keeps its identifier, request,
  target and creation time, and does not change at all once its state is terminal.
\<close>

theorem job_life_cycle:
  assumes "store_step cd s c t" "wf_store cd s"
    "fmlookup (s_jobs s) i = Some j" "fmlookup (s_jobs t) i = Some j'"
  shows "(j' = j \<or> job_move j j')
    \<and> j_ID j' = j_ID j \<and> j_RequestID j' = j_RequestID j \<and> j_URL j' = j_URL j
    \<and> j_CreatedAt j' = j_CreatedAt j
    \<and> (terminalState (j_State j) \<longrightarrow> j' = j)"
proof -
  have m: "j' = j \<or> job_move j j'" by (rule store_step_job(1) [OF assms])
  then show ?thesis using job_move_identity job_move_not_terminal by auto
qed

theorem job_life_cycle_witness:
  "(demo_leased = demo_job \<or> job_move demo_job demo_leased)
    \<and> j_ID demo_leased = j_ID demo_job \<and> j_RequestID demo_leased = j_RequestID demo_job
    \<and> j_URL demo_leased = j_URL demo_job \<and> j_CreatedAt demo_leased = j_CreatedAt demo_job"
proof -
  have "fmlookup (s_jobs demo1) ''j'' = Some demo_job" "fmlookup (s_jobs demo2) ''j'' = Some demo_leased"
    by simp_all
  from job_life_cycle [OF demo_steps(2) demo1_wf this] show ?thesis by blast
qed

text \<open>
  C4. Unfinished work is never lost: a job that is not in a terminal state is still in the store
  after any call of any operation, and so is the request it belongs to.
\<close>

theorem unfinished_kept:
  assumes "store_step cd s c t" "wf_store cd s"
    "fmlookup (s_jobs s) i = Some j" "\<not> terminalState (j_State j)"
  shows "\<exists>j'. fmlookup (s_jobs t) i = Some j' \<and> j_RequestID j' = j_RequestID j
    \<and> fmlookup (s_requests t) (j_RequestID j) \<noteq> None"
proof -
  obtain j' where j': "fmlookup (s_jobs t) i = Some j'"
    using store_step_job(2) [OF assms] by blast
  have "j_RequestID j' = j_RequestID j"
    using store_step_job(1) [OF assms(1,2,3) j'] job_move_identity by auto
  moreover have "jobs_inv t" by (rule wf_storeD(6) [OF store_step_wf [OF assms(1,2)]])
  ultimately show ?thesis using j' jobs_invD(3) [OF _ j'] by simp
qed

theorem unfinished_kept_witness:
  "\<exists>j'. fmlookup (s_jobs demo2) ''j'' = Some j' \<and> j_RequestID j' = j_RequestID demo_job
    \<and> fmlookup (s_requests demo2) (j_RequestID demo_job) \<noteq> None"
  by (rule unfinished_kept [OF demo_steps(2) demo1_wf]) (simp_all add: demo_job_def)

section \<open>Accepting a capture\<close>

lemma duplicateLocked_retained:
  assumes "dedup_inv s" "fmlookup (s_requests s) i = Some q" "r_DeliveryID q = r_DeliveryID r"
    "r_DeliveryID r \<noteq> [] \<or> r_BodySHA256 q = r_BodySHA256 r"
  shows "duplicateLocked s r
    = Some (i, if r_BodySHA256 q = r_BodySHA256 r then Duplicate else Conflict)"
proof -
  have k: "if r_DeliveryID q \<noteq> [] then fmlookup (s_delivery s) (r_DeliveryID q) = Some i
      else fmlookup (s_body s) (r_BodySHA256 q) = Some i"
    using assms(1,2) unfolding dedup_inv_def by blast
  show ?thesis
  proof (cases "r_DeliveryID r = []")
    case True
    then show ?thesis using k assms(3,4) by (simp add: duplicateLocked_def)
  next
    case False
    then show ?thesis using k assms(2,3) by (simp add: duplicateLocked_def map_get_def)
  qed
qed

text \<open>
  C13. A request whose delivery identifier is that of a retained request, or that has none and the
  body of a retained request without one, is not stored again: the result names the retained
  request and is a conflict exactly when the bodies differ, and the retained requests stay as
  they are. If the retained request has a job, or the bodies differ, nothing at all is written.
\<close>

theorem Accept_duplicate:
  assumes "Accept cd w r jo s = (t, k, res, jo', err)" "wf_store cd s" "range_order (w_order w)"
    "fmlookup (s_requests s) i = Some q" "r_DeliveryID q = r_DeliveryID r"
    "r_DeliveryID r \<noteq> [] \<or> r_BodySHA256 q = r_BodySHA256 r"
    "\<forall>j. jo = Some j \<longrightarrow> j_ID j \<noteq> [] \<and> j_RequestID j = r_ID r \<and> j_State j = ''pending''"
  shows "k = i \<and> res = (if r_BodySHA256 q = r_BodySHA256 r then Duplicate else Conflict)
    \<and> s_requests t = s_requests s
    \<and> (jobs_of s i \<noteq> {||} \<or> res = Conflict \<or> jo = None \<longrightarrow> t = s \<and> err = None)"
proof -
  let ?res = "if r_BodySHA256 q = r_BodySHA256 r then Duplicate else Conflict"
  have d: "duplicateLocked s r = Some (i, ?res)"
    by (rule duplicateLocked_retained [OF wf_storeD(2) [OF assms(2)] assms(4,5,6)])
  have ok: "\<not> (case jo of None \<Rightarrow> False
      | Some j \<Rightarrow> j_ID j = [] \<or> j_RequestID j \<noteq> r_ID r \<or> j_State j \<noteq> ''pending'')"
    using assms(7) by (cases jo) auto
  have a: "accept_duplicate cd w i ?res jo s = (t, k, res, jo', err)"
    using assms(1) d ok by (simp add: Accept_def)
  have rq: "s_requests u = s_requests s" if "appendLocked cd w (job_event st j) s = (u, x)" for u x st j
    using that
  proof (cases rule: appendLocked_view)
    case same
    then show ?thesis by (simp add: view_of_eq)
  next
    case (took b)
    have "s_requests (applied (job_event st j) s) = s_requests s"
      by (rule fmap_ext) (simp add: applied_requests)
    then show ?thesis using took by (simp add: view_of_eq)
  qed
  have "k = i \<and> res = ?res \<and> s_requests t = s_requests s"
    using a rq by (auto simp: accept_duplicate_def Let_def split: option.splits if_splits prod.splits sum.splits)
  moreover have "t = s \<and> err = None" if c: "jobs_of s i \<noteq> {||} \<or> res = Conflict \<or> jo = None"
  proof (cases "discoverableJobLocked w s i")
    case None
    then have "res = Conflict \<or> jo = None" using c discoverable_None [OF None assms(3)] by blast
    then show ?thesis
      using a calculation by (auto simp: accept_duplicate_def Let_def split: option.splits if_splits)
  next
    case Some
    then show ?thesis using a by (auto simp: accept_duplicate_def Let_def split: option.splits)
  qed
  ultimately show ?thesis by blast
qed

theorem Accept_duplicate_witness:
  "\<exists>t jo' err. Accept demo_codec (calm 9) (demo_request\<lparr>r_ID := ''s''\<rparr>) None demo1
      = (t, ''r'', Duplicate, jo', err) \<and> t = demo1 \<and> err = None"
proof -
  obtain t k res jo' err where
    a: "Accept demo_codec (calm 9) (demo_request\<lparr>r_ID := ''s''\<rparr>) None demo1 = (t, k, res, jo', err)"
    by (cases "Accept demo_codec (calm 9) (demo_request\<lparr>r_ID := ''s''\<rparr>) None demo1") auto
  have "k = ''r'' \<and> res = (if r_BodySHA256 demo_request = r_BodySHA256 demo_request then Duplicate else Conflict)
    \<and> s_requests t = s_requests demo1
    \<and> (jobs_of demo1 ''r'' \<noteq> {||} \<or> res = Conflict \<or> (None :: job option) = None
        \<longrightarrow> t = demo1 \<and> err = None)"
    using Accept_duplicate [OF a demo1_wf, of "''r''" "demo_request\<lparr>r_Body := []\<rparr>"]
    by (simp add: demo_request_def)
  with a show ?thesis by simp
qed

end
