(* ===== verification/Store_Props_Calls.thy ===== *)
theory Store_Props_Calls
  imports Store_Props
begin

text \<open>
  The functional behaviour of single calls: what a capture stores and evicts, when it is
  refused, what a replay evicts, which job is claimed, and that an attempt and the state of its
  job are recorded together or not at all.
\<close>

section \<open>Captures\<close>

lemma accept_new_captured:
  assumes "accept_new cd w r jo s = (t, k, Captured, jo', None)"
  obtains xs e where "captureEvictionsLocked w s 1 = Inr xs"
    "appendLocked cd w (capture_event r jo xs) s = (t, Inr e)" "k = r_ID r" "jo' = jo"
proof (cases "captureEvictionsLocked w s 1")
  case (Inl x)
  then show ?thesis using assms by (simp add: accept_new_def split: if_splits)
next
  case (Inr xs)
  obtain u y where u: "appendLocked cd w (capture_event r jo xs) s = (u, y)" by fastforce
  show ?thesis
  proof (cases y)
    case (Inl x)
    then show ?thesis using assms Inr u by (simp add: accept_new_def split: if_splits)
  next
    case y: (Inr e)
    then have "t = u \<and> k = r_ID r \<and> jo' = jo"
      using assms Inr u by (simp add: accept_new_def split: if_splits)
    then show ?thesis using that Inr u y by simp
  qed
qed

lemma Accept_captured_applied:
  assumes "Accept cd w r jo s = (t, k, Captured, jo', None)"
  obtains xs where "captureEvictionsLocked w s 1 = Inr xs"
    "view_of t = view_of (applied (capture_event r jo xs) s)" "k = r_ID r" "jo' = jo"
    "duplicateLocked s r = None"
proof -
  have ok: "\<not> (case jo of None \<Rightarrow> False
      | Some j \<Rightarrow> j_ID j = [] \<or> j_RequestID j \<noteq> r_ID r \<or> j_State j \<noteq> ''pending'')"
    using assms by (auto simp: Accept_def split: if_splits)
  have d: "duplicateLocked s r = None"
  proof (rule ccontr)
    assume "duplicateLocked s r \<noteq> None"
    then obtain i res where d: "duplicateLocked s r = Some (i, res)" by auto
    then have "res \<noteq> Captured" by (auto simp: duplicateLocked_def split: if_splits option.splits)
    moreover have "accept_duplicate cd w i res jo s = (t, k, Captured, jo', None)"
      using assms ok d by (simp add: Accept_def)
    ultimately show False
      by (auto simp: accept_duplicate_def Let_def split: option.splits if_splits prod.splits sum.splits)
  qed
  then have a: "accept_new cd w r jo s = (t, k, Captured, jo', None)"
    using assms ok by (simp add: Accept_def)
  obtain xs e where ev: "captureEvictionsLocked w s 1 = Inr xs"
    and ap: "appendLocked cd w (capture_event r jo xs) s = (t, Inr e)"
    and k: "k = r_ID r" "jo' = jo"
    by (rule accept_new_captured [OF a])
  have v: "view_of t = view_of (applied (capture_event r jo xs) s)"
    using ap
  proof (cases rule: appendLocked_view)
    case same
    then show ?thesis by blast
  next
    case (took b)
    then show ?thesis by simp
  qed
  show ?thesis by (rule that [OF ev v k d])
qed

text \<open>
  C6. A call that reports a new capture without an error has stored the request (without its
  body) and its job, and has evicted exactly as many captures as exceed the limit: captures
  whose jobs are all in terminal states, and the oldest of these by time of receipt. Every other
  capture is as it was.
\<close>

theorem Accept_captured:
  assumes "Accept cd w r jo s = (t, k, Captured, jo', None)" "wf_store cd s" "range_order (w_order w)"
  shows "\<exists>evicted. k = r_ID r \<and> jo' = jo
    \<and> fmlookup (s_requests t) (r_ID r) = Some (r\<lparr>r_Body := []\<rparr>)
    \<and> (\<forall>j. jo = Some j \<longrightarrow> fmlookup (s_jobs t) (j_ID j) = Some j)
    \<and> (\<forall>i. i \<noteq> r_ID r \<longrightarrow> fmlookup (s_requests t) i
          = (if i \<in> set evicted then None else fmlookup (s_requests s) i))
    \<and> distinct evicted
    \<and> int (length evicted) = max 0 (requests_len s + 1 - MaxCaptures (s_opts s))
    \<and> (\<forall>x \<in> set evicted. x |\<in>| fmdom (s_requests s) \<and> requestTerminalLocked s x
        \<and> (\<forall>y. y |\<in>| fmdom (s_requests s) \<longrightarrow> requestTerminalLocked s y \<longrightarrow> y \<notin> set evicted \<longrightarrow>
             r_ReceivedAt (map_get zero_request (s_requests s) x)
               \<le> r_ReceivedAt (map_get zero_request (s_requests s) y)))"
proof -
  obtain xs where ev: "captureEvictionsLocked w s 1 = Inr xs"
    and v: "view_of t = view_of (applied (capture_event r jo xs) s)"
    and k: "k = r_ID r" "jo' = jo"
    by (rule Accept_captured_applied [OF assms(1)])
  have q: "requests_inv s" and si: "store_inv s" using wf_storeD [OF assms(2)] by simp_all
  note sp = captureEvictionsLocked_spec [OF ev q assms(3)]
  have rq: "s_requests t = s_requests (applied (capture_event r jo xs) s)"
    and jb: "s_jobs t = s_jobs (applied (capture_event r jo xs) s)"
    using v by (simp_all add: view_of_eq)
  have dom: "x |\<in>| fmdom (s_requests s)" if "x \<in> set xs" for x
    using sp(2) that by blast
  show ?thesis
  proof (intro exI [of _ xs] conjI ballI)
    show "fmlookup (s_requests t) (r_ID r) = Some (r\<lparr>r_Body := []\<rparr>)"
      by (simp add: rq applied_requests)
    show "\<forall>j. jo = Some j \<longrightarrow> fmlookup (s_jobs t) (j_ID j) = Some j"
      by (auto simp: jb applied_jobs [OF si])
    show "\<forall>i. i \<noteq> r_ID r \<longrightarrow> fmlookup (s_requests t) i
        = (if i \<in> set xs then None else fmlookup (s_requests s) i)"
      by (simp add: rq applied_requests)
    show "\<forall>y. y |\<in>| fmdom (s_requests s) \<longrightarrow> requestTerminalLocked s y \<longrightarrow> y \<notin> set xs \<longrightarrow>
        r_ReceivedAt (map_get zero_request (s_requests s) x)
          \<le> r_ReceivedAt (map_get zero_request (s_requests s) y)" if "x \<in> set xs" for x
      using sp(5) [OF that] by blast
  qed (use k sp(1,3,4) dom in simp_all)
qed

theorem Accept_captured_witness:
  "\<exists>evicted. fmlookup (s_requests demo1) ''r'' = Some (demo_request\<lparr>r_Body := []\<rparr>)
    \<and> int (length evicted) = max 0 (requests_len demo0 + 1 - MaxCaptures (s_opts demo0))"
proof -
  have a: "Accept demo_codec (calm 7) demo_request (Some demo_job) demo0
      = (demo1, ''r'', Captured, Some demo_job, None)"
    by (simp add: demo1_def accept1)
  have "range_order (w_order (calm 7))" by simp
  from Accept_captured [OF a demo0_wf this] show ?thesis
    by (auto simp: demo_request_def)
qed

text \<open>
  C25. When a new capture would exceed the limit and too few retained captures are without
  unfinished work, the call returns the capacity error and changes nothing.
\<close>

theorem Accept_full:
  assumes "wf_store cd s" "range_order (w_order w)" "duplicateLocked s r = None"
    "fmlookup (s_requests s) (r_ID r) = None"
    "\<forall>j. jo = Some j \<longrightarrow> j_ID j \<noteq> [] \<and> j_RequestID j = r_ID r \<and> j_State j = ''pending''
      \<and> fmlookup (s_jobs s) (j_ID j) = None"
    "requests_len s + 1 - MaxCaptures (s_opts s)
      > int (fcard (ffilter (requestTerminalLocked s) (fmdom (s_requests s))))"
  shows "Accept cd w r jo s = (s, [], Captured, None, Some ErrCapacity)"
proof -
  have q: "requests_inv s" using wf_storeD [OF assms(1)] by simp
  have "captureEvictionsLocked w s 1 = Inl ErrCapacity"
  proof (cases "captureEvictionsLocked w s 1")
    case (Inl x)
    then show ?thesis using captureEvictionsLocked_full(1) [OF Inl q assms(2)] by simp
  next
    case (Inr xs)
    note sp = captureEvictionsLocked_spec [OF Inr q assms(2)]
    have "set xs \<subseteq> fset (ffilter (requestTerminalLocked s) (fmdom (s_requests s)))"
      using sp(2,3) by auto
    then have "card (set xs) \<le> fcard (ffilter (requestTerminalLocked s) (fmdom (s_requests s)))"
      unfolding fcard.rep_eq by (intro card_mono) simp_all
    moreover have "card (set xs) = length xs" by (rule distinct_card [OF sp(1)])
    ultimately show ?thesis using sp(4) assms(6) by simp
  qed
  moreover have "\<not> (case jo of None \<Rightarrow> False
      | Some j \<Rightarrow> j_ID j = [] \<or> j_RequestID j \<noteq> r_ID r \<or> j_State j \<noteq> ''pending'')"
    "\<not> (case jo of None \<Rightarrow> False | Some j \<Rightarrow> fmlookup (s_jobs s) (j_ID j) \<noteq> None)"
    using assms(5) by (cases jo; simp)+
  ultimately show ?thesis
    using assms(3,4) by (simp add: Accept_def accept_new_def)
qed

lemma demo1_key [simp]:
  "duplicateLocked demo1 (demo_request\<lparr>r_ID := ''s'', r_DeliveryID := ''e''\<rparr>) = None"
  by (simp add: duplicateLocked_def)

lemma demo_job_request: "j_RequestID demo_job = ''r''"
  by (simp add: demo_job_def)

lemma demo1_unfinished: "\<not> requestTerminalLocked demo1 ''r''"
proof
  assume "requestTerminalLocked demo1 ''r''"
  then have all: "\<And>i j. fmlookup (s_jobs demo1) i = Some j \<Longrightarrow> j_RequestID j = ''r'' \<Longrightarrow>
      terminalState (j_State j)"
    using requestTerminalLocked_iff [OF wf_storeD(6) [OF demo1_wf]] by blast
  have "fmlookup (s_jobs demo1) ''j'' = Some demo_job" by simp
  from all [OF this demo_job_request] show False by (simp add: demo_job_def)
qed

lemma demo1_requests_dom: "fmdom (s_requests demo1) = {|''r''|}"
  by (rule fset_eqI) (auto simp: fmdom_mem_iff)

theorem Accept_full_witness:
  "Accept demo_codec (calm 9) (demo_request\<lparr>r_ID := ''s'', r_DeliveryID := ''e''\<rparr>) None demo1
    = (demo1, [], Captured, None, Some ErrCapacity)"
  by (rule Accept_full [OF demo1_wf]) (simp_all add: demo1_unfinished demo1_requests_dom fcard.rep_eq)

text \<open>
  C26. A call that returns an error has changed nothing a client can see, or its record did
  reach the log, the compaction that was due then failed, and the store is poisoned.
\<close>

theorem Accept_error:
  assumes "Accept cd w r jo s = (t, k, res, jo', Some x)"
  shows "view_of t = view_of s \<or> s_health t \<noteq> None"
proof -
  have a: "view_of u = view_of s \<or> s_health u \<noteq> None" if "appendLocked cd w e s = (u, Inl y)" for u y e
    using that
  proof (cases rule: appendLocked_view)
    case same
    then show ?thesis by blast
  next
    case (took b)
    then show ?thesis by blast
  qed
  show ?thesis
    using assms a
    by (auto simp: Accept_def accept_new_def accept_duplicate_def Let_def
        split: if_splits option.splits sum.splits prod.splits)
qed

theorem Accept_error_witness:
  "view_of (fst (Accept demo_codec (calm 9) demo_request (Some demo_leased) demo1)) = view_of demo1"
proof -
  have a: "Accept demo_codec (calm 9) demo_request (Some demo_leased) demo1
      = (demo1, [], Captured, None, Some (ErrText ''invalid capture forwarding intent''))"
    by (simp add: Accept_def demo_leased_def lease_job_def)
  from Accept_error [OF this] show ?thesis by (simp add: a)
qed

end
