(* ===== verification/App_Props_Policy.thy ===== *)
theory App_Props_Policy
  imports Store_Props_Calls App_System
begin

text \<open>
  The properties of the application's policies: which headers are sensitive, what is forwarded,
  which addresses are dialled, which signatures and credentials are accepted.
\<close>

section \<open>Sensitive headers\<close>




definition demo_header :: header where
  "demo_header = fmap_of_list [(''Content-Type'', [''text/plain'']), (''X-Api-Key'', [REDACTED]),
     (''Connection'', [''close, X-Hop'']), (''X-Hop'', [''1''])]"

definition demo_config :: config where
  "demo_config = config_defaults \<lparr>c_Secret = ''k'', c_ForwardURL = ''u'', c_OperatorToken = ''op'',
     c_ForwardAuthorization = [], c_SensitiveHeaders = [], c_MaxBody = 0, c_Attempts = 0,
     c_Concurrency = 0, c_QueueSize = 0, c_MaxInFlight = 0, c_BaseBackoff = 0, c_MaxBackoff = 0,
     c_LeaseDuration = 0, c_PollInterval = 0, c_SearchTimeout = 0, c_AllowPrivateTargets = False,
     c_SecureCookies = False\<rparr>"


section \<open>Targets\<close>






section \<open>Credentials\<close>



end
