(* ===== verification/App_Props_Http.thy ===== *)
theory App_Props_Http
  imports App_Props_Policy
begin

text \<open>
  The properties of the HTTP surface: who may use the API, what the inbox accepts and stores,
  what its responses show, and the invariants of the running application.
\<close>

section \<open>The API\<close>

text \<open>
  The credentials of the API: the operator token as a bearer token, or its session cookie when
  no bearer token is presented.
\<close>

definition by_bearer :: "config \<Rightarrow> http_request \<Rightarrow> bool" where
  "by_bearer c q \<longleftrightarrow> header_get (q_Headers q) ''Authorization'' = ''Bearer '' @ c_OperatorToken c"

definition by_cookie :: "config \<Rightarrow> http_request \<Rightarrow> bool" where
  "by_cookie c q \<longleftrightarrow> \<not> HasPrefix (header_get (q_Headers q) ''Authorization'') ''Bearer ''
     \<and> q_Cookie q = Some (sessionToken (c_OperatorToken c))"

definition authenticated :: "config \<Rightarrow> http_request \<Rightarrow> bool" where
  "authenticated c q \<longleftrightarrow> c_OperatorToken c \<noteq> [] \<and> (by_bearer c q \<or> by_cookie c q)"

lemma TrimPrefix_same: "p \<noteq> [] \<Longrightarrow> TrimPrefix s p = s \<longleftrightarrow> \<not> HasPrefix s p"
proof -
  assume "p \<noteq> []"
  moreover have "length (drop (length p) s) < length s" if "HasPrefix s p" "p \<noteq> []"
    using that by (auto simp: HasPrefix_iff)
  ultimately show ?thesis by (metis TrimPrefix_def less_irrefl)
qed

lemma credential_iff:
  assumes "credential c q = (got, expected, usedCookie)" "c_OperatorToken c \<noteq> []"
  shows "got = expected \<longleftrightarrow> by_bearer c q \<or> by_cookie c q"
    "got = expected \<Longrightarrow> usedCookie \<longleftrightarrow> by_cookie c q"
proof -
  let ?h = "header_get (q_Headers q) ''Authorization''" and ?p = "''Bearer ''"
  have p: "?p \<noteq> []" by simp
  have "(got = expected \<longleftrightarrow> by_bearer c q \<or> by_cookie c q)
      \<and> (got = expected \<longrightarrow> usedCookie \<longleftrightarrow> by_cookie c q)"
  proof (cases "HasPrefix ?h ?p")
    case True
    then obtain t where t: "?h = ?p @ t" unfolding HasPrefix_iff by blast
    have "TrimPrefix ?h ?p = t" unfolding t by (rule TrimPrefix_append)
    moreover have "TrimPrefix ?h ?p \<noteq> ?h" using TrimPrefix_same [OF p] True by blast
    ultimately have "got = t" "expected = c_OperatorToken c" "\<not> usedCookie"
      using assms(1) by (simp_all add: credential_def Let_def)
    moreover have "by_bearer c q \<longleftrightarrow> t = c_OperatorToken c"
      unfolding by_bearer_def t by (rule same_append_eq)
    ultimately show ?thesis using True by (simp add: by_cookie_def)
  next
    case False
    then have "TrimPrefix ?h ?p = ?h" using TrimPrefix_same [OF p] by blast
    moreover have "\<not> by_bearer c q"
      using False unfolding by_bearer_def HasPrefix_iff by blast
    ultimately show ?thesis
      using assms False by (auto simp: credential_def Let_def by_cookie_def split: option.splits)
  qed
  then show "got = expected \<longleftrightarrow> by_bearer c q \<or> by_cookie c q"
    "got = expected \<Longrightarrow> usedCookie \<longleftrightarrow> by_cookie c q" by blast+
qed

lemma operator_eq:
  "operator x nxt h q a =
     (let c = a_config a; h' = header_set ''Cache-Control'' ''no-store'' h;
          origin = header_get (q_Headers q) ''Origin''
      in if \<not> authenticated c q then
           (a, http_error (header_set ''WWW-Authenticate'' ''Bearer realm=\"relaybox\"'' h')
                ''operator token required'' 401)
         else if is_get (q_Method q) then nxt h' q a
         else if by_cookie c q \<and> origin = [] then
           (a, http_error h' ''origin required for cookie-authenticated request'' 403)
         else if origin \<noteq> [] \<and> \<not> sameOrigin x c q origin then
           (a, http_error h' ''cross-origin request denied'' 403)
         else nxt h' q a)"
proof -
  obtain got expected used where c: "credential (a_config a) q = (got, expected, used)"
    by (metis prod_cases3)
  show ?thesis
  proof (cases "c_OperatorToken (a_config a) = []")
    case True
    then show ?thesis by (simp add: operator_def c authenticated_def Let_def)
  next
    case False
    have a: "authenticated (a_config a) q \<longleftrightarrow> got = expected"
      using credential_iff(1) [OF c False] False by (simp add: authenticated_def)
    show ?thesis
    proof (cases "got = expected")
      case True
      then have "used \<longleftrightarrow> by_cookie (a_config a) q" by (rule credential_iff(2) [OF c False])
      then show ?thesis
        using True a False by (simp add: operator_def c Let_def is_get_def)
    next
      case ne: False
      then show ?thesis using a by (simp add: operator_def c Let_def)
    qed
  qed
qed

lemma serve_api:
  assumes "q_Segments q = ''api'' # segs"
  obtains (none) b where "serve cd x q a = (a, b)" "z_Cookie b = None" "z_Body b = StaticFile \<or> (\<exists>m. z_Body b = Text m)"
  | (guarded) nxt h where "serve cd x q a = operator x nxt h q a"
proof -
  define p where "p = routes (q_Method q) (q_Segments q)"
  have "p \<notin> {Inbox, Healthz, Readyz}"
    unfolding p_def assms routes_def
    by (auto split: list.splits if_splits)
  then show ?thesis
    using that unfolding serve_def p_def [symmetric]
    by (cases p) (auto simp: http_error_def)
qed

text \<open>
  C12. No request to the API that is not authenticated changes anything, sets a cookie or gets
  anything but a text or a static file: only the operator token as a bearer token or its session
  cookie opens the API, and without an operator token it is closed to everyone.
\<close>

theorem api_needs_operator:
  assumes "serve cd x q a = (b, r)" "q_Segments q = ''api'' # segs" "\<not> authenticated (a_config a) q"
  shows "b = a \<and> z_Cookie r = None \<and> (z_Body r = StaticFile \<or> (\<exists>m. z_Body r = Text m))"
  using assms(2)
proof (cases rule: serve_api [of _ _ cd x a])
  case (none b')
  then show ?thesis using assms(1) by simp
next
  case (guarded nxt h)
  then show ?thesis using assms(1,3) by (auto simp: operator_eq Let_def http_error_def)
qed

definition demo_get :: http_request where
  "demo_get = \<lparr>q_Method = ''GET'', q_Path = ''/api/requests'', q_Segments = [''api'', ''requests''],
     q_Query = (\<lambda>_. []), q_Headers = fmempty, q_Cookie = None, q_Host = ''h'', q_RemoteAddr = [],
     q_TLS = False, q_Body = [], q_BodyFails = False, q_Flusher = True\<rparr>"

definition demo_world :: world where
  "demo_world = \<lparr>x_env = (\<lambda>_. calm 7), x_now = (\<lambda>_. 7), x_id = (\<lambda>n. Some (if n = 0 then ''r'' else ''j'')),
     x_url = (\<lambda>s. Inr \<lparr>l_Scheme = ''http'', l_User = False, l_Host = ''h'', l_Hostname = ''h'',
       l_Path = [], l_RawQuery = [], l_Fragment = []\<rparr>), x_addr = (\<lambda>_. None), x_date = (\<lambda>_. None),
     x_do = (\<lambda>_. (None, None)), x_done = (\<lambda>_. False), x_int64 = 0\<rparr>"

definition demo_app :: "store \<Rightarrow> app" where
  "demo_app s = \<lparr>a_config = demo_config, a_store = s, a_wake = 0, a_accepting = True, a_ingest = 0,
     a_cancelled = False, a_sensitive = sensitiveHeaderPolicy []\<rparr>"

lemma demo_get_unauthenticated: "\<not> authenticated c demo_get"
  by (simp add: authenticated_def by_bearer_def by_cookie_def demo_get_def header_get_def
      header_values_def)

theorem api_needs_operator_witness:
  "fst (serve demo_codec demo_world demo_get (demo_app demo1)) = demo_app demo1"
proof -
  obtain b r where s: "serve demo_codec demo_world demo_get (demo_app demo1) = (b, r)" by fastforce
  have "q_Segments demo_get = ''api'' # [''requests'']" by (simp add: demo_get_def)
  from api_needs_operator [OF s this demo_get_unauthenticated] show ?thesis by (simp add: s)
qed



end
