(* ===== verification/App_Props_Inbox.thy ===== *)
theory App_Props_Inbox
  imports App_Props_Http
begin

text \<open>
  The properties of the inbox and of the running application: what an accepted delivery stores,
  that nothing unsigned is stored, the bounds and the redaction that hold in every state the
  application reaches, and what its responses show.
\<close>

section \<open>Deliveries\<close>

lemma ingest_parts:
  assumes "ingest cd x h q a = (b, r)"
  obtains (busy) "b = a" "z_Status r = 503 \<or> z_Status r = 429"
  | (handled) b' where "ingest_finish cd x h q (a\<lparr>a_ingest := a_ingest a + 1\<rparr>) = (b', r)"
      "b = ingest_release b'" "a_accepting a" "a_ingest a < c_MaxInFlight (a_config a)"
proof (cases "ingest_begin h a")
  case (Inr r')
  then show ?thesis using assms that(1) by (auto simp: ingest_def ingest_begin_def split: if_splits)
next
  case (Inl a1)
  obtain b' r' where f: "ingest_finish cd x h q a1 = (b', r')" by fastforce
  then show ?thesis
    using assms Inl that(2) [of b'] by (simp add: ingest_def ingest_begin_ok)
qed

text \<open>The outcomes of a delivery once its body is being read.\<close>

lemma ingest_finish_cases:
  assumes "ingest_finish cd x h q a = (b, r)"
  obtains (unread) "b = a" "z_Status r = 413 \<or> z_Status r = 400" "read_body (c_MaxBody (a_config a)) q \<noteq> Body (q_Body q)"
  | (unsigned) "b = a" "z_Status r = 401" "c_Secret (a_config a) \<noteq> []"
      "\<not> verify (c_Secret (a_config a)) (header_get (q_Headers q) ''X-Hub-Signature-256'') (q_Body q)"
  | (failed) "b = a" "z_Status r = 500"
  | (accepted) i jo where "x_id x 0 = Some i" "ingest_job x h a i = Inr jo"
      "int (length (q_Body q)) \<le> c_MaxBody (a_config a)"
      "c_Secret (a_config a) = [] \<or> verify (c_Secret (a_config a)) (header_get (q_Headers q) ''X-Hub-Signature-256'') (q_Body q)"
      "ingest_accept cd x h (captured_request x a q i (q_Body q) (c_Secret (a_config a) \<noteq> [])) jo a = (b, r)"
proof -
  have rb: "read_body (c_MaxBody (a_config a)) q = Body body \<Longrightarrow> body = q_Body q
      \<and> int (length (q_Body q)) \<le> c_MaxBody (a_config a)" for body
    by (auto simp: read_body_def split: if_splits)
  have ij: "ingest_job x h a i = Inl r' \<Longrightarrow> z_Status r' = 500" for i r'
    by (auto simp: ingest_job_def Let_def split: if_splits option.splits)
  show ?thesis
  proof (cases "read_body (c_MaxBody (a_config a)) q")
    case (Body body)
    note bd = rb [OF Body]
    let ?v = "verify (c_Secret (a_config a)) (header_get (q_Headers q) ''X-Hub-Signature-256'') (q_Body q)"
    show ?thesis
    proof (cases "c_Secret (a_config a) \<noteq> [] \<and> \<not> ?v")
      case True
      then show ?thesis using assms Body bd that(2) by (auto simp: ingest_finish_def Let_def)
    next
      case False
      then have sv: "(c_Secret (a_config a) \<noteq> [] \<and> ?v) = (c_Secret (a_config a) \<noteq> [])" by blast
      show ?thesis
      proof (cases "x_id x 0")
        case None
        then show ?thesis using assms Body bd False that(3) by (auto simp: ingest_finish_def Let_def)
      next
        case (Some i)
        show ?thesis
        proof (cases "ingest_job x h a i")
          case (Inl r')
          then show ?thesis
            using assms Body bd False Some ij that(3) by (auto simp: ingest_finish_def Let_def)
        next
          case (Inr jo)
          then have "ingest_accept cd x h (captured_request x a q i (q_Body q) (c_Secret (a_config a) \<noteq> [])) jo a = (b, r)"
            using assms unfolding ingest_finish_def Body body_read.case Let_def bd [THEN conjunct1]
              if_not_P [OF False] sv Some Inr option.case sum.case
            by (cases "c_Secret (a_config a) = []") (use False in simp_all)
          then show ?thesis using that(4) [OF Some Inr] bd False by blast
        qed
      qed
    qed
  qed (use assms that(1) in \<open>auto simp: ingest_finish_def\<close>)
qed

lemma ingest_accept_202:
  assumes "ingest_accept cd x h req jo a = (b, r)" "z_Status r = 202"
  obtains s' where "Accept cd (x_env x 0) req jo (a_store a) = (s', r_ID req, Captured, jo, None)"
    "b = (if jo \<noteq> None then signalWork (a\<lparr>a_store := s'\<rparr>) else a\<lparr>a_store := s'\<rparr>)"
proof -
  obtain s' i res pj err where e: "Accept cd (x_env x 0) req jo (a_store a) = (s', i, res, pj, err)"
    by (metis prod_cases5)
  then have c: "res = Captured" "err = None" "b = (if pj \<noteq> None then signalWork (a\<lparr>a_store := s'\<rparr>) else a\<lparr>a_store := s'\<rparr>)"
    using assms
    by (auto simp: ingest_accept_def Let_def split: option.splits capture_result.splits if_splits)
  from Accept_captured_applied [OF e [unfolded c(1,2)]] have "i = r_ID req" "pj = jo" by blast+
  then show ?thesis using that e c by simp
qed

text \<open>
  C7. A delivery answered with 202 came while the application was accepting, with a free slot,
  a body within the limit and, if a secret is configured, a valid signature. Its request is in
  the store, with the fixed headers redacted and marked as verified exactly when there is a
  secret, and if a target is configured so is a pending job for that target, and a worker is
  woken. The slot is free again.
\<close>

theorem ingest_accepted:
  assumes "ingest cd x h q a = (b, r)" "z_Status r = 202" "wf_store cd (a_store a)" "app_ok a"
  shows "a_accepting a \<and> int (length (q_Body q)) \<le> c_MaxBody (a_config a)
    \<and> (c_Secret (a_config a) = [] \<or>
       verify (c_Secret (a_config a)) (header_get (q_Headers q) ''X-Hub-Signature-256'') (q_Body q))
    \<and> a_ingest b = a_ingest a
    \<and> (\<exists>i. x_id x 0 = Some i
        \<and> fmlookup (s_requests (a_store b)) i
            = Some ((captured_request x a q i (q_Body q) (c_Secret (a_config a) \<noteq> []))\<lparr>r_Body := []\<rparr>)
        \<and> (c_ForwardURL (a_config a) \<noteq> [] \<longrightarrow>
            (\<exists>k j. x_id x 1 = Some k \<and> fmlookup (s_jobs (a_store b)) k = Some j
               \<and> j_RequestID j = i \<and> j_URL j = c_ForwardURL (a_config a) \<and> j_State j = ''pending''
               \<and> validateTarget x (j_URL j) (c_AllowPrivateTargets (a_config a)) = None
               \<and> 0 < a_wake b)))"
  using assms(1)
proof (cases rule: ingest_parts)
  case busy
  then show ?thesis using assms(2) by simp
next
  case (handled b')
  define a1 where "a1 = a\<lparr>a_ingest := a_ingest a + 1\<rparr>"
  have a1: "a_config a1 = a_config a" "a_store a1 = a_store a" "a_ingest a1 = a_ingest a + 1"
    "a_sensitive a1 = a_sensitive a" "a_wake a1 = a_wake a" by (simp_all add: a1_def)
  from handled(1) show ?thesis
    unfolding a1_def [symmetric]
  proof (cases rule: ingest_finish_cases)
    case (accepted i jo)
    let ?req = "captured_request x a1 q i (q_Body q) (c_Secret (a_config a1) \<noteq> [])"
    from ingest_accept_202 [OF accepted(5) assms(2)] obtain s' where
      s': "Accept cd (x_env x 0) ?req jo (a_store a1) = (s', r_ID ?req, Captured, jo, None)"
      and b': "b' = (if jo \<noteq> None then signalWork (a1\<lparr>a_store := s'\<rparr>) else a1\<lparr>a_store := s'\<rparr>)" by blast
    have i: "r_ID ?req = i" by (simp add: captured_request_def)
    obtain xs where v: "view_of s' = view_of (applied (capture_event ?req jo xs) (a_store a))"
      using Accept_captured_applied [OF s'] a1(2) by metis
    have inv: "store_inv (a_store a)" by (rule wf_storeD(1) [OF assms(3)])
    have rq: "fmlookup (s_requests s') i = Some (?req\<lparr>r_Body := []\<rparr>)"
      using v i by (simp add: view_of_eq applied_requests capture_event_def)
    have jb: "fmlookup (s_jobs s') (j_ID j) = Some j" if "jo = Some j" for j
      using v that by (simp add: view_of_eq applied_jobs [OF inv] capture_event_def)
    have st: "a_store b' = s'" "a_ingest b' = a_ingest a + 1" by (simp_all add: b' a1)
    have same: "?req = captured_request x a q i (q_Body q) (c_Secret (a_config a) \<noteq> [])"
      by (simp add: captured_request_def a1)
    have fwd: "\<exists>k j. x_id x 1 = Some k \<and> fmlookup (s_jobs s') k = Some j \<and> j_RequestID j = i
        \<and> j_URL j = c_ForwardURL (a_config a) \<and> j_State j = ''pending''
        \<and> validateTarget x (j_URL j) (c_AllowPrivateTargets (a_config a)) = None \<and> 0 < a_wake b"
      if fw: "c_ForwardURL (a_config a) \<noteq> []"
    proof -
      obtain k where k: "x_id x 1 = Some k"
        "validateTarget x (c_ForwardURL (a_config a)) (c_AllowPrivateTargets (a_config a)) = None"
        "jo = Some (zero_job\<lparr>j_ID := k, j_RequestID := i, j_URL := c_ForwardURL (a_config a),
          j_State := ''pending'', j_CreatedAt := x_now x 1\<rparr>)"
        using accepted(2) unfolding ingest_job_def Let_def a1 if_not_P [OF fw]
        by (auto split: option.splits)
      have "0 < a_wake b"
        using signalWork_wake(2) [of "a1\<lparr>a_store := s'\<rparr>"] assms(4) handled(2)
        by (simp add: b' k(3) ingest_release_def app_ok_def a1)
      then show ?thesis using k jb [OF k(3)] by simp
    qed
    show ?thesis
      using accepted(1,3,4) handled(2,3) rq fwd st same
      by (simp add: a1 ingest_release_def)
  qed (use assms(2) in simp_all)
qed

definition demo_delivery :: http_request where
  "demo_delivery = demo_get\<lparr>q_Method := ''POST'', q_Path := ''/in'', q_Segments := [''in''],
     q_Headers := fmap_of_list [(''X-Hub-Signature-256'',
       [''sha256='' @ hex_encode (hmac_sha256 ''k'' ''body'')])], q_Body := ''body''\<rparr>"

definition demo_captured :: request where
  "demo_captured = captured_request demo_world (demo_app demo0) demo_delivery ''r'' ''body'' True"

definition demo_intent :: job where
  "demo_intent = zero_job\<lparr>j_ID := ''j'', j_RequestID := ''r'', j_URL := ''u'',
     j_State := ''pending'', j_CreatedAt := 7\<rparr>"

definition delivery_event :: event where
  "delivery_event = capture_event demo_captured (Some demo_intent) []"

definition delivery_codec :: codec where
  "delivery_codec = table_codec [delivery_event\<lparr>e_Seq := 1, e_At := 7\<rparr>]"

lemma delivery_config:
  "c_Secret demo_config = ''k''" "c_ForwardURL demo_config = ''u''" "\<not> c_AllowPrivateTargets demo_config"
  "c_MaxBody demo_config = 1048576" "c_MaxInFlight demo_config = 64"
  by (simp_all add: demo_config_def config_defaults_def default_to_def Let_def)

lemma delivery_signature:
  "header_get (q_Headers demo_delivery) ''X-Hub-Signature-256''
    = ''sha256='' @ hex_encode (hmac_sha256 ''k'' ''body'')"
proof -
  have "CanonicalHeaderKey ''X-Hub-Signature-256'' = ''X-Hub-Signature-256''" by code_simp
  then show ?thesis by (simp add: demo_delivery_def header_get_def header_values_def)
qed

lemma delivery_verified:
  "verify ''k'' (''sha256='' @ hex_encode (hmac_sha256 ''k'' ''body'')) ''body''"
proof -
  have "HasPrefix (''sha256='' @ h) ''sha256=''" "TrimPrefix (''sha256='' @ h) ''sha256='' = h" for h
    by (rule HasPrefix_append TrimPrefix_append)+
  then show ?thesis by (simp add: verify_def hex_decode_encode del: append.simps)
qed

lemma delivery_stored:
  "\<exists>s. Accept delivery_codec (calm 7) demo_captured (Some demo_intent) demo0
    = (s, ''r'', Captured, Some demo_intent, None)"
proof -
  have st: "stamped (calm 7) demo0 delivery_event = delivery_event\<lparr>e_Seq := 1, e_At := 7\<rparr>"
    by (simp add: stamped_def delivery_event_def capture_event_def event_of_kind_def)
  have "CanonicalHeaderKey ''X-GitHub-Delivery'' = ''X-Github-Delivery''" by code_simp
  then have r: "r_ID demo_captured = ''r''" "r_DeliveryID demo_captured = []"
    "r_BodySHA256 demo_captured = sha256_hex (r_Body demo_captured)"
    by (simp_all add: demo_captured_def captured_request_def demo_delivery_def header_get_def
        header_values_def)
  have j: "j_ID demo_intent = ''j''" "j_RequestID demo_intent = ''r''" "j_State demo_intent = ''pending''"
    by (simp_all add: demo_intent_def)
  have ad: "admitted delivery_codec (calm 7) delivery_event demo0 ''x''"
    unfolding admitted_def st delivery_codec_def
    by (simp add: table_codec_def maxEventBytes_def validateRecoveredEvent_def validateRequestDigest_def
        validateStateLocked_def r j)
      (simp add: delivery_event_def capture_event_def event_of_kind_def r j validateRequestDigest_def)
  have "appendLocked delivery_codec (calm 7) delivery_event demo0
      = (publish (stamped (calm 7) demo0 delivery_event)
           (logged delivery_codec (calm 7) delivery_event ''x'' demo0),
         Inr (stamped (calm 7) demo0 delivery_event))"
    by (rule appendLocked_calm [OF ad]) simp
  then show ?thesis
    using captureEvictions1
    by (simp add: Accept_def accept_new_def duplicateLocked_def r j flip: delivery_event_def)
qed

lemma delivery_202:
  "\<exists>b. ingest delivery_codec demo_world fmempty demo_delivery (demo_app demo0)
    = (b, jsonOut fmempty 202 (DeliveryJson ''r'' False))"
proof -
  obtain s where s: "Accept delivery_codec (calm 7) demo_captured (Some demo_intent) demo0
    = (s, ''r'', Captured, Some demo_intent, None)" using delivery_stored by blast
  let ?a = "(demo_app demo0)\<lparr>a_ingest := 1\<rparr>"
  have a: "a_config ?a = demo_config" "a_store ?a = demo0" by (simp_all add: demo_app_def)
  have c: "captured_request demo_world ?a demo_delivery ''r'' ''body'' True = demo_captured"
    by (simp add: demo_captured_def captured_request_def demo_app_def)
  have w: "x_env demo_world 0 = calm 7" "x_id demo_world 0 = Some ''r''"
    by (simp_all add: demo_world_def)
  have j: "ingest_job demo_world fmempty ?a ''r'' = Inr (Some demo_intent)"
    unfolding ingest_job_def a
    by (simp add: delivery_config validateTarget_def demo_world_def demo_intent_def)
  have b: "read_body 1048576 demo_delivery = Body ''body''"
    by (simp add: read_body_def demo_delivery_def demo_get_def)
  have f: "ingest_finish delivery_codec demo_world fmempty demo_delivery ?a
      = (signalWork (?a\<lparr>a_store := s\<rparr>), jsonOut fmempty 202 (DeliveryJson ''r'' False))"
    unfolding ingest_finish_def a delivery_config b
    by (simp add: delivery_signature delivery_verified w j c ingest_accept_def s a del: append.simps)
  have "ingest_begin fmempty (demo_app demo0) = Inl ?a"
    by (simp add: ingest_begin_def demo_app_def delivery_config)
  then show ?thesis by (simp add: ingest_def f)
qed

theorem ingest_accepted_witness:
  "\<exists>b r. ingest delivery_codec demo_world fmempty demo_delivery (demo_app demo0) = (b, r)
    \<and> z_Status r = 202 \<and> a_ingest b = 0
    \<and> (\<exists>k j. fmlookup (s_jobs (a_store b)) k = Some j \<and> j_State j = ''pending'' \<and> j_URL j = ''u'')"
proof -
  obtain b where b: "ingest delivery_codec demo_world fmempty demo_delivery (demo_app demo0)
    = (b, jsonOut fmempty 202 (DeliveryJson ''r'' False))" using delivery_202 by blast
  have ok: "app_ok (demo_app demo0)"
    by (simp add: app_ok_def demo_app_def wake_capacity_def delivery_config)
      (simp add: demo_config_def)
  have d: "a_config (demo_app demo0) = demo_config" "a_ingest (demo_app demo0) = 0"
    "a_store (demo_app demo0) = demo0" by (simp_all add: demo_app_def)
  have s: "z_Status (jsonOut fmempty 202 (DeliveryJson ''r'' False)) = 202" by simp
  have f: "c_ForwardURL demo_config \<noteq> []" by (simp add: delivery_config)
  note p = ingest_accepted [OF b s _ ok, unfolded d, OF demo0_wf]
  from p have "a_ingest b = 0" by blast
  moreover from p f have "\<exists>k j. fmlookup (s_jobs (a_store b)) k = Some j \<and> j_State j = ''pending''
      \<and> j_URL j = c_ForwardURL demo_config" by blast
  ultimately show ?thesis unfolding delivery_config using b s by blast
qed

text \<open>
  C33. While a secret is configured, a delivery whose signature does not verify is answered with
  an error of the client or of overload and leaves the store, the slots and the tokens alone.
\<close>

theorem ingest_unsigned:
  assumes "ingest cd x h q a = (b, r)" "c_Secret (a_config a) \<noteq> []"
    "\<not> verify (c_Secret (a_config a)) (header_get (q_Headers q) ''X-Hub-Signature-256'') (q_Body q)"
  shows "b = a \<and> z_Status r \<in> {400, 401, 413, 429, 500, 503}"
  using assms(1)
proof (cases rule: ingest_parts)
  case busy
  then show ?thesis by auto
next
  case (handled b')
  have "b' = a\<lparr>a_ingest := a_ingest a + 1\<rparr> \<and> z_Status r \<in> {400, 401, 413, 429, 500, 503}"
    using handled(1) by (cases rule: ingest_finish_cases) (use assms(2,3) in auto)
  then show ?thesis using handled(2) by (simp add: ingest_release_def)
qed

theorem ingest_unsigned_witness:
  "fst (ingest demo_codec demo_world fmempty demo_get (demo_app demo1)) = demo_app demo1"
proof -
  obtain b r where i: "ingest demo_codec demo_world fmempty demo_get (demo_app demo1) = (b, r)"
    by fastforce
  have c: "c_Secret (a_config (demo_app demo1)) = ''k''"
    by (simp add: demo_app_def demo_config_def config_defaults_def Let_def)
  have "\<not> verify ''k'' (header_get (q_Headers demo_get) ''X-Hub-Signature-256'') (q_Body demo_get)"
    by (simp add: verify_def demo_get_def header_get_def header_values_def HasPrefix_def)
  from ingest_unsigned [OF i, unfolded c, OF _ this] show ?thesis by (simp add: i)
qed

section \<open>The running application\<close>

text \<open>
  C10. In every state the application reaches from its start, whatever fails and however its
  handlers and workers interleave: the store is a reachable store, no header that the policy
  calls sensitive is held by it, in a request, an attempt, the ring or a subscriber's channel,
  other than redacted; no more deliveries are being read than \<open>MaxInFlight\<close>; and the tokens of
  the workers are within their channel.
\<close>

theorem app_reachable_ok:
  assumes "app_reachable cd y"
  shows "reachable cd (a_store (y_app y))
    \<and> store_redacted (policy_of (y_app y)) (a_store (y_app y))
    \<and> 0 \<le> a_ingest (y_app y) \<and> a_ingest (y_app y) \<le> c_MaxInFlight (a_config (y_app y))
    \<and> a_wake (y_app y) \<le> wake_capacity (a_config (y_app y))"
  using system.reachable [OF assms] by (simp add: system_ok_def app_ok_def)

definition demo_system :: system where
  "demo_system = \<lparr>y_app = New demo_codec demo_world demo_config demo0, y_worker = (\<lambda>_. Waiting)\<rparr>"

lemma demo_world_ok [simp]: "world_ok demo_world"
  by (simp add: world_ok_def demo_world_def)

lemma demo0_fresh: "fresh demo0"
  by (simp add: fresh_def demo0_def)

theorem app_reachable_ok_witness:
  "store_redacted (policy_of (y_app (with_app (shutdown_begin (y_app demo_system)) demo_system)))
     (a_store (y_app (with_app (shutdown_begin (y_app demo_system)) demo_system)))"
proof -
  have "app_init demo_codec demo_system"
    unfolding app_init_def demo_system_def using demo_reachable(1) demo0_fresh demo_world_ok
    by (metis system.select_convs(1,2))
  then have "app_reachable demo_codec demo_system" by (rule reach_init)
  moreover have "app_step demo_codec demo_system StopAccepting
      (with_app (shutdown_begin (y_app demo_system)) demo_system)" by (rule app_stop)
  ultimately have "app_reachable demo_codec (with_app (shutdown_begin (y_app demo_system)) demo_system)"
    by (rule reach_step)
  from app_reachable_ok [OF this] show ?thesis by blast
qed

section \<open>Responses\<close>

text \<open>A response that shows headers shows them redacted.\<close>

fun body_redacted :: "(string \<Rightarrow> bool) \<Rightarrow> reply_body \<Rightarrow> bool" where
  "body_redacted p (DetailJson req as) = (headers_redacted p (r_Headers req)
     \<and> list_all (\<lambda>a. headers_redacted p (a_ResponseHeaders a)) as)"
| "body_redacted p (EventStream es ch seq) = list_all (event_redacted p) es"
| "body_redacted p _ = True"

lemma sanitize_redacted [simp]:
  "headers_redacted (\<lambda>name. sensitiveHeader name pol) (r_Headers (sanitizeRequest pol r))"
  "headers_redacted (\<lambda>name. sensitiveHeader name pol) (a_ResponseHeaders (sanitizeAttempt pol a))"
  "event_redacted (\<lambda>name. sensitiveHeader name pol) (sanitizeEvent pol e)"
  by (auto simp: sanitizeRequest_def sanitizeAttempt_def sanitizeEvent_def event_redacted_iff)

lemma operator_body:
  assumes "\<And>h. P (z_Body (snd (nxt h q a)))" "\<And>m. P (Text m)"
  shows "P (z_Body (snd (operator x nxt h q a)))"
  using assms by (auto simp: operator_eq Let_def http_error_def)

lemma dispatch_body: "body_redacted (policy_of a) (z_Body (snd (dispatch cd x p h q a)))"
proof (cases p)
  case Inbox
  have "body_redacted (policy_of a) (z_Body (snd (ingest_accept cd x h req jo a')))" for req jo a' h
    by (auto simp: ingest_accept_def Let_def http_error_def jsonOut_def
        split: prod.split option.split capture_result.split)
  then have "body_redacted (policy_of a) (z_Body (snd (ingest_finish cd x h q a')))" for a' h
    by (auto simp: ingest_finish_def ingest_job_def http_error_def Let_def
        split: body_read.split option.split sum.split)
  then show ?thesis
    by (auto simp: Inbox ingest_def ingest_begin_def http_error_def split: prod.split sum.split)
      (metis snd_conv)+
next
  case ListRequests
  show ?thesis unfolding ListRequests dispatch.simps
    by (rule operator_body) (auto simp: list_requests_def http_error_def jsonOut_def Let_def
        split: sum.split prod.split)
next
  case (GetRequest i)
  show ?thesis unfolding GetRequest dispatch.simps
    by (rule operator_body) (auto simp: get_request_def http_error_def jsonOut_def list_all_iff
        split: sum.split prod.split option.split)
next
  case (ReplayRequest i)
  show ?thesis unfolding ReplayRequest dispatch.simps
    by (rule operator_body) (auto simp: replay_def http_error_def jsonOut_def
        split: sum.split prod.split option.split)
next
  case Events
  show ?thesis unfolding Events dispatch.simps
    by (rule operator_body) (auto simp: events_def http_error_def list_all_iff
        split: sum.split prod.split option.split)
next
  case Metrics
  show ?thesis unfolding Metrics dispatch.simps
    by (rule operator_body) (auto simp: metrics_def http_error_def jsonOut_def)
next
  case Session
  show ?thesis unfolding Session dispatch.simps
    by (rule operator_body) (auto simp: session_def)
qed (auto simp: healthz_def readyz_def http_error_def)

text \<open>
  C11. Whatever the store holds, also headers from before the policy: no response of any route
  shows a header the policy calls sensitive, and neither does the event stream after it.
\<close>

theorem responses_redacted:
  "body_redacted (policy_of a) (z_Body (snd (serve cd x q a)))
   \<and> list_all (event_redacted (policy_of a)) (stream_received (a_sensitive a) seq es)"
proof -
  have "list_all (event_redacted (policy_of a)) (stream_received (a_sensitive a) seq es)"
    by (induction "a_sensitive a" seq es rule: stream_received.induct) simp_all
  then show ?thesis by (simp add: serve_def dispatch_body)
qed

lemma sanitizeEvent_Seq [simp]: "e_Seq (sanitizeEvent p e) = e_Seq e"
  by (simp add: sanitizeEvent_def)

lemma stream_above: "e \<in> set (stream_received p seq es) \<Longrightarrow> seq < e_Seq e"
  by (induction p seq es rule: stream_received.induct) (auto split: if_splits)



end
