(* ===== verification/App_Props_Work.thy ===== *)
theory App_Props_Work
  imports App_Outcome App_Props_Inbox
begin

text \<open>The properties of the workers: which job they claim, that their loop ends, what a delivery records,
  and that they are quiet when nothing is left to do.\<close>

text \<open>
  C15. \<open>ClaimNextJob\<close> gives the eligible job that is first by its due time and then by its time of
  creation, leased to the caller until the lease expires, and changes no other job and no capture.
  It reports that there is none exactly when no job is eligible, and then changes nothing. An error
  has changed nothing a client can see, or the store has failed.
\<close>

theorem ClaimNextJob_first:
  assumes "wf_store cd s" "range_order (w_order w)" "ClaimNextJob cd w owner now lease s = (t, x)"
  shows "case x of
      Inl h \<Rightarrow> view_of t = view_of s \<or> s_health t \<noteq> None
    | Inr None \<Rightarrow> t = s \<and> (\<forall>i d. fmlookup (s_jobs s) i = Some d \<longrightarrow> \<not> eligible now d)
    | Inr (Some j) \<Rightarrow>
        (\<exists>c. fmlookup (s_jobs s) (j_ID c) = Some c \<and> eligible now c
          \<and> (\<forall>i d. fmlookup (s_jobs s) i = Some d \<longrightarrow> eligible now d \<longrightarrow>
               j_AvailableAt c < j_AvailableAt d
               \<or> j_AvailableAt c = j_AvailableAt d \<and> j_CreatedAt c \<le> j_CreatedAt d)
          \<and> j = c\<lparr>j_State := ''leased'', j_LeaseOwner := owner, j_LeaseExpiresAt := now + lease,
                 j_UpdatedAt := now\<rparr>
          \<and> (\<forall>i. fmlookup (s_jobs t) i = (if i = j_ID c then Some j else fmlookup (s_jobs s) i))
          \<and> s_requests t = s_requests s \<and> s_attempts t = s_attempts s)"
  using assms(3) wf_storeD(6) [OF assms(1)] assms(2)
proof (cases rule: ClaimNextJob_cases)
  case nothing
  then show ?thesis by simp
next
  case (first c y)
  let ?j = "lease_job owner now lease c"
  have si: "store_inv s" using assms(1) by (simp add: wf_store_def)
  show ?thesis
  proof (cases y)
    case (Inl h)
    have "view_of t = view_of s \<or> s_health t \<noteq> None"
      using first(4) by (cases rule: appendLocked_view) (auto simp: Inl)
    then show ?thesis using first(5) Inl by simp
  next
    case (Inr e)
    have v: "view_of t = view_of (applied (job_event ''leased'' ?j) s)"
      using appended_view first(4) Inr by blast
    have "fmlookup (s_jobs t) i = (if i = j_ID c then Some ?j else fmlookup (s_jobs s) i)" for i
      using v first(1) by (simp add: view_of_eq applied_jobs [OF si] job_event_def split: option.split)
    moreover have "s_requests t = s_requests s" "s_attempts t = s_attempts s"
      using v by (simp_all add: view_of_eq applied_def apply_evictions_def apply_payload_def apply_job_def job_event_def)
    moreover have "j_AvailableAt c < j_AvailableAt d
        \<or> j_AvailableAt c = j_AvailableAt d \<and> j_CreatedAt c \<le> j_CreatedAt d"
      if "fmlookup (s_jobs s) i = Some d" "eligible now d" for i d
      using first(3) [OF that] by (auto simp: claim_order_def split: if_splits)
    ultimately show ?thesis
      using first(1,2,5) Inr by (auto simp: lease_job_def intro!: exI [of _ c])
  qed
qed

theorem ClaimNextJob_first_witness:
  "\<exists>c. fmlookup (s_jobs demo1) (j_ID c) = Some c \<and> eligible 8 c
    \<and> fmlookup (s_jobs demo2) (j_ID c) = Some demo_leased"
proof -
  have c: "ClaimNextJob demo_codec (calm 7) ''w'' 8 60 demo1 = (demo2, Inr (Some demo_leased))"
    using claim2 by (simp add: demo2_def)
  have o: "range_order (w_order (calm 7))" by simp
  obtain c where "fmlookup (s_jobs demo1) (j_ID c) = Some c" "eligible 8 c"
    "\<forall>i. fmlookup (s_jobs demo2) i = (if i = j_ID c then Some demo_leased else fmlookup (s_jobs demo1) i)"
    using ClaimNextJob_first [OF demo1_wf o c]
    unfolding sum.case option.case by blast
  then show ?thesis by (intro exI [of _ c]) simp
qed


definition work_world :: world where
  "work_world = demo_world\<lparr>x_now := (\<lambda>i. if i = 0 then 9 else if i = 2 then 10 else 8), x_id := (\<lambda>_. Some ''a''),
     x_do := (\<lambda>_. (Some \<lparr>p_Status = 200, p_Headers = fmempty, p_Body = []\<rparr>, None))\<rparr>"

definition work_app :: "store \<Rightarrow> app" where
  "work_app s = (demo_app s)\<lparr>a_config := demo_config\<lparr>c_LeaseDuration := 60\<rparr>\<rparr>"

lemma demo_request_ID [simp]: "r_ID demo_request = ''r''"
  by (simp add: demo_request_def)

lemma publish_record [simp]: "s_requestRecord (publish e s) = s_requestRecord s"
  by (simp add: publish_def)

lemma demo1_log:
  "fmlookup (s_requestRecord demo1) ''r'' = Some \<lparr>ref_offset = 0, ref_length = 2, ref_seq = 1\<rparr>"
  "s_file demo1 = ''x'' @ [newline]"
proof -
  have d: "demo1 = publish (stamped (calm 7) demo0 event1) (logged demo_codec (calm 7) event1 ''x'' demo0)"
    by (simp add: demo1_def accept1)
  show "fmlookup (s_requestRecord demo1) ''r'' = Some \<lparr>ref_offset = 0, ref_length = 2, ref_seq = 1\<rparr>"
    "s_file demo1 = ''x'' @ [newline]"
    by (simp_all add: d logged_def Let_def apply_event_def apply_evictions_def apply_payload_def
        apply_request_def apply_job_def stamped1 event1_def capture_event_def appendRing_def split_def)
qed

lemma demo2_log:
  "fmlookup (s_requestRecord demo2) ''r'' = Some \<lparr>ref_offset = 0, ref_length = 2, ref_seq = 1\<rparr>"
  "s_file demo2 = ''x'' @ [newline] @ ''xx'' @ [newline]"
proof -
  have d: "demo2 = publish (stamped (calm 7) demo1 event2) (logged demo_codec (calm 7) event2 ''xx'' demo1)"
    by (simp add: demo2_def claim2)
  show "fmlookup (s_requestRecord demo2) ''r'' = Some \<lparr>ref_offset = 0, ref_length = 2, ref_seq = 1\<rparr>"
    "s_file demo2 = ''x'' @ [newline] @ ''xx'' @ [newline]"
    by (simp_all add: d demo1_log logged_def Let_def apply_event_def apply_evictions_def apply_payload_def
        apply_job_def stamped2 event2_def job_event_def appendRing_def split_def)
qed

text \<open>The captured request is read back from the log, and the attempt is recorded.\<close>

lemma demo2_load: "Load demo_codec (calm 7) ''r'' demo2 = (demo2, Inr (Some (demo_request, [])))"
proof -
  have "readEventAt demo_codec (calm 7) demo2 \<lparr>ref_offset = 0, ref_length = 2, ref_seq = 1\<rparr>
      = Inr (event1\<lparr>e_Seq := 1, e_At := 7\<rparr>)"
    by (simp add: readEventAt_def demo2_log maxEventBytes_def demo_codec_def table_codec_def table_event_def)
  moreover have "validateRequestDigest demo_request = None"
    by (simp add: validateRequestDigest_def demo_request_def zero_request_def)
  moreover have "r_Body demo_request = []" "demo_request\<lparr>r_Body := []\<rparr> = demo_request"
    by (simp_all add: demo_request_def zero_request_def)
  moreover have "map_get zero_ref (s_requestRecord demo2) ''r'' = \<lparr>ref_offset = 0, ref_length = 2, ref_seq = 1\<rparr>"
    by (simp add: map_get_def demo2_log)
  ultimately have "load_request demo_codec (calm 7) demo2 ''r'' = Inr []"
    by (simp add: load_request_def event1_def capture_event_def)
  then show ?thesis by (simp add: Load_def) (simp add: demo_request_def zero_request_def)
qed

lemma work_claim: "ClaimNextJob demo_codec (x_env work_world 4) ''w'' (x_now work_world 3)
    (c_LeaseDuration (a_config (work_app demo1))) (a_store (work_app demo1)) = (demo2, Inr (Some demo_leased))"
  using claim2 by (simp add: work_world_def work_app_def demo_world_def demo_app_def demo2_def)

lemma work_exchange: "forward_exchange work_world c pol demo_leased demo_request
  = \<lparr>h_Status = 200, h_Headers = fmempty, h_Body = [], h_Error = None, h_Retry = None\<rparr>"
proof -
  have m: "fmmap_keys f fmempty = fmempty" for f :: "string \<Rightarrow> string list \<Rightarrow> string list"
    by (rule fmap_ext) simp
  show ?thesis
    by (simp add: forward_exchange_def work_world_def demo_world_def Let_def redactWithPolicy_def
        parseRetry_def header_get_def header_values_def m)
qed

lemma work_attempt: "attempt_of work_world demo_leased demo_request ''a'' 1
  \<lparr>h_Status = 200, h_Headers = fmempty, h_Body = [], h_Error = None, h_Retry = None\<rparr> = demo_attempt"
  by (simp add: attempt_of_def work_world_def demo_attempt_def demo_leased_def lease_job_def demo_job_def zero_job_def)

lemma work_forward: "a_store (forward demo_codec work_world ''w'' demo_leased
    (signalWork ((work_app demo1)\<lparr>a_store := demo2\<rparr>))) = demo3"
proof -
  have w: "x_env work_world i = calm 7" "x_id work_world i = Some ''a''" "x_now work_world 2 = 10" for i
    by (simp_all add: work_world_def demo_world_def)
  have j: "j_RequestID demo_leased = ''r''" "j_ID demo_leased = ''j''" "j_URL demo_leased = []"
    by (simp_all add: demo_leased_def lease_job_def demo_job_def zero_job_def)
  have e: "concat (map (\<lambda>rid. [] :: attempt list) xs) = []" for xs :: "string list" by (induction xs) simp_all
  have n: "AttemptsForJob (calm 7) ''j'' demo2 = 0" by (simp add: AttemptsForJob_def e)
  show ?thesis
    using record3 demo2_load
    by (simp add: forward_def forward_prepare_def forward_record_def Let_def w j n work_exchange work_attempt attempt_state_def demo3_def)
qed

lemma work_drained: "ClaimNextJob demo_codec (x_env work_world 4) owner now lease demo3 = (demo3, Inr None)"
proof -
  have "fmdom (s_jobs demo3) = {|''j''|}" by (rule fset_eqI) (auto simp: fmlookup_dom_iff)
  then have "all_jobs (calm 7) demo3 = [demo_finished]"
    by (simp add: all_jobs_def range_keys_def map_get_def)
  then show ?thesis
    by (simp add: ClaimNextJob_def work_world_def demo_world_def eligible_def demo_finished_def)
qed



text \<open>
  C40. A lowered limit stalls a job. Once a job has as many attempts as the limit of the store
  allows, which happens when the program is started again with a smaller \<open>-attempts\<close>, no attempt of
  any number and with any outcome can be recorded for it: every such call is refused and changes
  nothing. The job keeps its lease, and when that expires it is eligible again.
\<close>

theorem lowered_limit_stalls:
  assumes "leased_by s i owner = Some j" "0 \<le> n" "MaxAttemptsPerJob (s_opts s) \<le> n"
    "map a_Number (filter (\<lambda>a. a_JobID a = i) (attempts_of s (j_RequestID j))) = [1..n]"
  shows "(\<exists>e. RecordAttempt cd w i owner a st msg av s = (s, Some e))
    \<and> eligible (max now (j_LeaseExpiresAt j)) j"
proof
  show "\<exists>e. RecordAttempt cd w i owner a st msg av s = (s, Some e)"
    using RecordAttempt_over [OF _ assms(2,3,1)] assms(4) by (simp add: numbers_def)
  show "eligible (max now (j_LeaseExpiresAt j)) j"
    using assms(1) by (auto simp: eligible_def leased_by_def split: option.splits if_splits)
qed

theorem lowered_limit_stalls_witness:
  "\<exists>e. RecordAttempt demo_codec (calm 7) ''j'' ''w'' (demo_attempt\<lparr>a_ID := ''b'', a_Number := 2\<rparr>) ''succeeded'' [] 0
       (demo2\<lparr>s_attempts := fmupd ''r'' [demo_attempt] fmempty,
          s_opts := demo_options\<lparr>MaxAttemptsPerJob := 1\<rparr>\<rparr>)
     = (demo2\<lparr>s_attempts := fmupd ''r'' [demo_attempt] fmempty,
          s_opts := demo_options\<lparr>MaxAttemptsPerJob := 1\<rparr>\<rparr>, Some e)"
proof -
  let ?s = "demo2\<lparr>s_attempts := fmupd ''r'' [demo_attempt] fmempty, s_opts := demo_options\<lparr>MaxAttemptsPerJob := 1\<rparr>\<rparr>"
  have "leased_by ?s ''j'' ''w'' = Some demo_leased"
    by (simp add: leased_by_def demo_leased_def lease_job_def)
  moreover have "j_RequestID demo_leased = ''r''" by (simp add: demo_leased_def lease_job_def demo_job_def)
  ultimately show ?thesis
    using lowered_limit_stalls [of ?s "''j''" "''w''" demo_leased 1]
    by (simp add: demo_attempt_def map_get_def)
qed

text \<open>
  C16. When \<open>Wait\<close> has seen that no job is unfinished, the store is at rest: whatever the workers
  and the shutdown still do, in any order and whatever they hold from before, no capture, job or
  attempt changes and no job becomes unfinished again. Only a request to the server could add work,
  and the server is stopped first.
\<close>

theorem shutdown_at_rest:
  assumes "app_reachable cd y" "UnfinishedJobs w (a_store (y_app y)) = []" "range_order (w_order w)"
    "path (background_step cd) y ls z"
  shows "view_of (a_store (y_app z)) = view_of (a_store (y_app y))
    \<and> UnfinishedJobs w (a_store (y_app z)) = []"
proof -
  have "drained (a_store (y_app y))"
    using UnfinishedJobs_drained [OF assms(3) app_reachable_jobs_inv [OF assms(1)]] assms(2) by simp
  then have d: "drained_system cd y" using assms(1) by (simp add: drained_system_def)
  have "same_view y z" by (rule quiet.before_path [OF assms(4) d])
  moreover have "drained_system cd z" by (rule quiet.along [OF assms(4) d])
  ultimately show ?thesis
    using UnfinishedJobs_drained [OF assms(3) app_reachable_jobs_inv [of cd z]]
    by (auto simp: same_view_def drained_system_def)
qed


lemma demo_system_idle: "UnfinishedJobs (calm 7) (a_store (y_app demo_system)) = []"
proof -
  have "\<not> state_needs_redaction p demo0" for p
    by (simp add: state_needs_redaction_def demo0_def new_store_def)
  moreover have "scan_log cd AtEOF p [] = Inr False" for cd p
    using readRecord_torn [of "[]"] by (auto simp: scan_log.simps [of _ _ _ "[]"])
  ultimately have r: "RedactHeaders cd (calm t) (Some p) demo0 = (demo0, None)" for cd t p
    by (simp add: RedactHeaders_def Let_def logNeedsHeaderRedactionLocked_def redact_state_same)
  have "stale_jobs (calm t) demo0 = []" for t
    by (simp add: stale_jobs_def all_jobs_def range_keys_def)
  then have l: "RecoverLeases cd (calm t) now demo0 = (demo0, None)" for cd t now
    by (simp add: RecoverLeases_def)
  have "a_store (y_app demo_system) = demo0"
    by (simp add: demo_system_def New_def Let_def demo_world_def r l)
  then show ?thesis by (simp add: UnfinishedJobs_def all_jobs_def range_keys_def)
qed

theorem shutdown_at_rest_witness:
  "UnfinishedJobs (calm 7) (a_store (y_app (with_app (shutdown_end (y_app demo_system)) demo_system))) = []"
proof -
  have "app_init demo_codec demo_system"
    unfolding app_init_def demo_system_def using demo_reachable(1) demo0_fresh demo_world_ok
    by (metis system.select_convs(1,2))
  then have r: "app_reachable demo_codec demo_system" by (rule reach_init)
  have c: "background_step demo_codec demo_system Cancel (with_app (shutdown_end (y_app demo_system)) demo_system)"
    using app_cancel by (simp add: background_step_def)
  have "path (background_step demo_codec) demo_system ([] @ [Cancel])
      (with_app (shutdown_end (y_app demo_system)) demo_system)" using path_nil c by (rule path_snoc)
  from shutdown_at_rest [OF r demo_system_idle _ this] show ?thesis by simp
qed

end
