(* ===== verification/Store_Replay.thy ===== *)
theory Store_Replay
  imports Store_Calls
begin

text \<open>
  The log as a list of events. \<open>log_bytes\<close> is the file that holds them, one JSON document per
  line, and \<open>replay\<close> is the loop of \<open>recover\<close> on the events themselves; \<open>recover_loop_log\<close> says
  that reading the file, with an unfinished line at its end, is replaying its events.
  \<open>refs_ok\<close> says that the references the store keeps lead to the records of what it retains.
\<close>

section \<open>The file of a list of events\<close>

definition enc :: "codec \<Rightarrow> event \<Rightarrow> string" where
  "enc cd e = (case Marshal cd e of None \<Rightarrow> [] | Some b \<Rightarrow> b @ [newline])"

definition log_bytes :: "codec \<Rightarrow> event list \<Rightarrow> string" where
  "log_bytes cd es = concat (map (enc cd) es)"

definition loggable :: "codec \<Rightarrow> event \<Rightarrow> bool" where
  "loggable cd e \<longleftrightarrow> event_ok e \<and> Marshal cd e \<noteq> None"

definition sound_line :: "codec \<Rightarrow> event \<Rightarrow> bool" where
  "sound_line cd e \<longleftrightarrow> e_Seq e \<noteq> 0 \<and> length (enc cd e) \<le> maxEventBytes"

lemma log_bytes_simps [simp]:
  "log_bytes cd [] = []" "log_bytes cd (e # es) = enc cd e @ log_bytes cd es"
  "log_bytes cd (es @ fs) = log_bytes cd es @ log_bytes cd fs"
  by (simp_all add: log_bytes_def)

lemma enc_loggable:
  assumes "codec_ok cd" "loggable cd e"
  obtains b where "Marshal cd e = Some b" "enc cd e = b @ [newline]" "newline \<notin> set b" "b \<noteq> []"
    "Unmarshal cd (enc cd e) = Some e"
  using assms codec_okD [OF assms(1)] by (auto simp: loggable_def enc_def)

fun replay :: "codec \<Rightarrow> event list \<Rightarrow> nat \<Rightarrow> bool \<Rightarrow> store \<Rightarrow> store_error + nat \<times> bool \<times> store" where
  "replay cd [] good seen s = Inr (good, seen, s)"
| "replay cd (e # es) good seen s =
     (if length (enc cd e) > maxEventBytes
        then Inl (ErrWrap ''read store'' (ErrText ''event exceeds limit''))
      else (case recover_record cd (enc cd e) good seen s of
          Inl x \<Rightarrow> Inl x
        | Inr (seen', s') \<Rightarrow> replay cd es (good + length (enc cd e)) seen' s'))"

lemma replay_append:
  "replay cd (es @ fs) good seen s =
     (case replay cd es good seen s of
       Inl x \<Rightarrow> Inl x | Inr (good', seen', s') \<Rightarrow> replay cd fs good' seen' s')"
  by (induction cd es good seen s rule: replay.induct) (auto split: sum.split)

lemma replay_good: "replay cd es good seen s = Inr (g, seen', t) \<Longrightarrow> g = good + length (log_bytes cd es)"
proof (induction es arbitrary: good seen s)
  case (Cons e es)
  then show ?case by (fastforce split: sum.splits if_splits)
qed simp

theorem recover_loop_log:
  assumes "codec_ok cd" "list_all (loggable cd) es" "newline \<notin> set torn"
  shows "recover_loop cd AtEOF (log_bytes cd es @ torn) good seen s =
     (case replay cd es good seen s of Inl x \<Rightarrow> Inl x | Inr (good', _, s') \<Rightarrow> Inr (good', s'))"
  using assms(2)
proof (induction es arbitrary: good seen s)
  case Nil
  obtain r where "readRecord AtEOF torn = Inr (r, False, [])" using readRecord_torn [OF assms(3)] by blast
  then show ?case by (simp add: recover_loop.simps [of _ _ torn])
next
  case (Cons e es)
  then have "loggable cd e" by simp
  then obtain b where b: "enc cd e = b @ [newline]" "newline \<notin> set b"
    by (rule enc_loggable [OF assms(1)])
  have "readRecord AtEOF (enc cd e @ log_bytes cd es @ torn)
      = (if length (enc cd e) > maxEventBytes then Inl (ErrText ''event exceeds limit'')
         else Inr (enc cd e, True, log_bytes cd es @ torn))"
    using readRecord_line [OF b(2), of AtEOF "log_bytes cd es @ torn"] by (simp add: b(1))
  then show ?case
    using Cons
    by (auto simp: recover_loop.simps [of _ _ "enc cd e @ log_bytes cd es @ torn"] split: sum.split)
qed

text \<open>A replay that succeeds saw sound lines only.\<close>

lemma replay_sound:
  assumes "codec_ok cd" "list_all (loggable cd) es" "replay cd es good seen s = Inr r"
  shows "list_all (sound_line cd) es"
  using assms(2,3)
proof (induction es arbitrary: good seen s)
  case (Cons e es)
  then have "loggable cd e" by simp
  then have "Unmarshal cd (enc cd e) = Some e" by (rule enc_loggable [OF assms(1)])
  then show ?case
    using Cons by (auto simp: sound_line_def recover_record_def split: if_splits option.splits sum.splits)
qed simp

section \<open>Reading records back\<close>

definition reads :: "codec \<Rightarrow> string \<Rightarrow> record_ref \<Rightarrow> event \<Rightarrow> bool" where
  "reads cd file ref e \<longleftrightarrow>
     ref_length ref \<noteq> 0 \<and> ref_offset ref + ref_length ref \<le> length file
     \<and> Unmarshal cd (take (ref_length ref) (drop (ref_offset ref) file)) = Some e
     \<and> e_Seq e = ref_seq ref"

lemma reads_unique: "reads cd file ref e \<Longrightarrow> reads cd file ref e' \<Longrightarrow> e = e'"
  by (simp add: reads_def)

lemma reads_grow: "reads cd file ref e \<Longrightarrow> reads cd (file @ suf) ref e"
  by (auto simp: reads_def)

lemma readEventAt_reads:
  assumes "readEventAt cd w s ref = Inr e"
  shows "reads cd (s_file s) ref e"
proof -
  define data where "data = take (ref_length ref) (drop (ref_offset ref) (s_file s))"
  have d: "length data = ref_length ref" "ref_length ref \<noteq> 0" "Unmarshal cd data = Some e"
      "e_Seq e = ref_seq ref"
    using assms unfolding readEventAt_def data_def [symmetric] Let_def
    by (auto split: if_splits option.splits)
  then have "ref_offset ref + ref_length ref \<le> length (s_file s)" by (simp add: data_def)
  then show ?thesis using d by (simp add: reads_def data_def)
qed

lemma reads_written:
  assumes "codec_ok cd" "loggable cd e"
  shows "reads cd (pre @ enc cd e @ post)
    \<lparr>ref_offset = length pre, ref_length = length (enc cd e), ref_seq = e_Seq e\<rparr> e"
proof -
  obtain b where "Unmarshal cd (enc cd e) = Some e" "enc cd e = b @ [newline]"
    using enc_loggable [OF assms] by metis
  then show ?thesis by (simp add: reads_def)
qed

text \<open>
  What a reference leads to: the request or the attempt as it was captured. The headers kept may
  be redacted since.
\<close>

definition request_at :: "codec \<Rightarrow> string \<Rightarrow> options \<Rightarrow> record_ref \<Rightarrow> request \<Rightarrow> int \<Rightarrow> string \<Rightarrow> bool" where
  "request_at cd file oo ref r n index \<longleftrightarrow>
     (\<exists>e q. reads cd file ref e \<and> e_Request e = Some q \<and> validateRequestDigest q = None
        \<and> q\<lparr>r_Body := [], r_Headers := r_Headers r\<rparr> = r
        \<and> n = int (length (r_Body q)) \<and> index = search_index oo q)"

definition attempt_at :: "codec \<Rightarrow> string \<Rightarrow> record_ref \<Rightarrow> attempt \<Rightarrow> bool" where
  "attempt_at cd file ref a \<longleftrightarrow>
     (\<exists>e b. reads cd file ref e \<and> e_Attempt e = Some b
        \<and> b\<lparr>a_ResponseBody := [], a_ResponseHeaders := a_ResponseHeaders a\<rparr> = a)"

definition refs_ok :: "codec \<Rightarrow> string \<Rightarrow> store \<Rightarrow> bool" where
  "refs_ok cd file s \<longleftrightarrow>
     (\<forall>i r. fmlookup (s_requests s) i = Some r \<longrightarrow>
        (\<exists>ref n index. fmlookup (s_requestRecord s) i = Some ref
           \<and> fmlookup (s_requestBytes s) i = Some n \<and> fmlookup (s_search s) i = Some index
           \<and> request_at cd file (s_opts s) ref r n index))
     \<and> (\<forall>rid a. a \<in> set (attempts_of s rid) \<longrightarrow>
        (\<exists>ref. fmlookup (s_attemptRecord s) (a_ID a) = Some ref \<and> attempt_at cd file ref a))"

lemma refs_ok_cong:
  assumes "s_requests s = s_requests t" "s_requestRecord s = s_requestRecord t"
    "s_requestBytes s = s_requestBytes t" "s_search s = s_search t" "s_attempts s = s_attempts t"
    "s_attemptRecord s = s_attemptRecord t" "s_opts s = s_opts t"
  shows "refs_ok cd file s = refs_ok cd file t"
  unfolding refs_ok_def assms by (rule refl)

lemma refs_ok_retained:
  "retained_of s = retained_of t \<Longrightarrow> s_opts s = s_opts t \<Longrightarrow> refs_ok cd file s = refs_ok cd file t"
  by (rule refs_ok_cong) (simp_all add: retained_of_def)

lemma refs_ok_new [simp]: "refs_ok cd file (new_store oo f)"
  by (simp add: refs_ok_def)

lemma refs_ok_grow: "refs_ok cd file s \<Longrightarrow> refs_ok cd (file @ suf) s"
  unfolding refs_ok_def request_at_def attempt_at_def using reads_grow by meson

lemma refs_ok_redact:
  assumes "refs_ok cd file s"
  shows "refs_ok cd file (redact_state p s)"
proof -
  have q: "request_at cd file oo ref (redact_request p r) n ix" if at: "request_at cd file oo ref r n ix" for oo ref r n ix
  proof -
    obtain e q where q: "reads cd file ref e" "e_Request e = Some q" "validateRequestDigest q = None"
      "q\<lparr>r_Body := [], r_Headers := r_Headers r\<rparr> = r" "n = int (length (r_Body q))"
      "ix = search_index oo q" using at unfolding request_at_def by blast
    let ?h = "redact_header p (r_Headers r)"
    have "q\<lparr>r_Body := [], r_Headers := ?h\<rparr> = q\<lparr>r_Body := [], r_Headers := r_Headers r\<rparr>\<lparr>r_Headers := ?h\<rparr>"
      by simp
    also have "\<dots> = redact_request p r" by (simp only: q(4) redact_request_def)
    finally show ?thesis
      unfolding request_at_def using q
      by (intro exI [of _ e] exI [of _ q]) (simp add: redact_request_def)
  qed
  have a: "attempt_at cd file ref (redact_attempt p a)" if at: "attempt_at cd file ref a" for ref a
  proof -
    obtain e b where b: "reads cd file ref e" "e_Attempt e = Some b"
      "b\<lparr>a_ResponseBody := [], a_ResponseHeaders := a_ResponseHeaders a\<rparr> = a"
      using at unfolding attempt_at_def by blast
    let ?h = "redact_header p (a_ResponseHeaders a)"
    have "b\<lparr>a_ResponseBody := [], a_ResponseHeaders := ?h\<rparr>
        = b\<lparr>a_ResponseBody := [], a_ResponseHeaders := a_ResponseHeaders a\<rparr>\<lparr>a_ResponseHeaders := ?h\<rparr>"
      by simp
    also have "\<dots> = redact_attempt p a" by (simp only: b(3) redact_attempt_def)
    finally show ?thesis
      unfolding attempt_at_def using b
      by (intro exI [of _ e] exI [of _ b]) (simp add: redact_attempt_def)
  qed
  show ?thesis
    using assms q a unfolding refs_ok_def redact_state_attempts_of
    by (auto simp: redact_state_sel) (metis option.inject)+
qed

section \<open>References after an event\<close>

lemma removeJob_attemptRecord_lookup:
  assumes "attempts_inv s" "a \<in> set (attempts_of (removeJob i s) rid)"
  shows "fmlookup (s_attemptRecord (removeJob i s)) (a_ID a) = fmlookup (s_attemptRecord s) (a_ID a)"
proof -
  have "a_ID a |\<in>| s_attemptIDs (removeJob i s)"
    using removeJob_attemptIDs [OF assms(1)] assms(2) by blast
  then show ?thesis
    by (auto simp: removeJob_def Let_def split: option.splits)
qed

lemma refs_ok_removeJob:
  assumes "refs_ok cd file s" "store_inv s"
  shows "refs_ok cd file (removeJob i s)"
proof -
  have a: "attempts_inv s" using assms(2) by (simp add: store_inv_def)
  show ?thesis
    using assms(1) removeJob_attemptRecord_lookup [OF a]
    unfolding refs_ok_def by (simp add: removeJob_attempts_of [OF a]) metis
qed

lemma refs_ok_fold_removeJob:
  "refs_ok cd file s \<Longrightarrow> store_inv s \<Longrightarrow> refs_ok cd file (fold removeJob xs s)"
  by (induction xs arbitrary: s) (simp_all add: refs_ok_removeJob removeJob_inv)

lemma refs_ok_removeRequest:
  assumes "refs_ok cd file s" "store_inv s"
  shows "refs_ok cd file (removeRequest i s)"
proof (cases "fmlookup (s_requests s) i")
  case None
  then show ?thesis using assms(1) by (simp add: removeRequest_None)
next
  case (Some r)
  define t where t: "t = fold removeJob (sorted_list_of_fset (jobs_of s i)) (forget_key i r s)"
  have "refs_ok cd file (forget_key i r s)"
    using assms(1) refs_ok_cong [of "forget_key i r s" s] by (simp add: forget_key_def)
  moreover have "store_inv (forget_key i r s)"
    using forget_key_inv assms(2) Some by blast
  ultimately have rt: "refs_ok cd file t" unfolding t by (rule refs_ok_fold_removeJob)
  have "attempts_of t i = []" using cleared_attempts_of [OF assms(2) Some t, of i] by simp
  then have at: "attempts_of (removeRequest i s) rid = attempts_of t rid" for rid
    by (auto simp: removeRequest_eq [OF assms(2) Some t] map_get_drop)
  have same: "s_requests t = s_requests s" "s_requestRecord t = s_requestRecord s"
    "s_requestBytes t = s_requestBytes s" "s_search t = s_search s" by (simp_all add: t)
  show ?thesis
    using rt unfolding refs_ok_def at by (simp add: removeRequest_eq [OF assms(2) Some t] same)
qed

lemma refs_ok_evictions:
  assumes "refs_ok cd file s" "store_inv s"
  shows "refs_ok cd file (apply_evictions e s)"
proof -
  have "refs_ok cd file t \<Longrightarrow> store_inv t \<Longrightarrow> refs_ok cd file (fold removeRequest xs t)" for xs t
    by (induction xs arbitrary: t) (simp_all add: refs_ok_removeRequest removeRequest_inv)
  then show ?thesis
    unfolding apply_evictions_def
    using refs_ok_fold_removeJob [OF assms] fold_removeJob_inv [OF assms(2)] by blast
qed

lemma refs_ok_request:
  assumes "refs_ok cd file s" "reads cd file ref e" "e_Request e = Some r" "validateRequestDigest r = None"
  shows "refs_ok cd file (apply_request r ref s)"
proof -
  have "request_at cd file oo ref (r\<lparr>r_Body := []\<rparr>) (int (length (r_Body r))) (search_index oo r)" for oo
    unfolding request_at_def using assms(2-4) by (intro exI [of _ e] exI [of _ r]) simp
  then show ?thesis using assms(1) by (simp add: refs_ok_def apply_request_def)
qed

lemma refs_ok_attempt:
  assumes "refs_ok cd file s" "reads cd file ref e" "e_Attempt e = Some a" "attempts_inv s"
    "a_ID a |\<notin>| s_attemptIDs s"
  shows "refs_ok cd file (apply_attempt a ref s)"
proof -
  have new: "attempt_at cd file ref (a\<lparr>a_ResponseBody := []\<rparr>)"
    unfolding attempt_at_def using assms(2,3) by (intro exI [of _ e] exI [of _ a]) simp
  have old: "a_ID b \<noteq> a_ID a" if "b \<in> set (attempts_of s rid)" for b rid
    using attempts_invD(5) [OF assms(4) that] assms(5) by auto
  show ?thesis
    using assms(1) new old unfolding refs_ok_def
    by (simp add: apply_attempt_def map_get_upd) (metis old)
qed

lemma refs_ok_job: "refs_ok cd file (apply_job j s) = refs_ok cd file s"
  by (rule refs_ok_cong) (simp_all add: apply_job_def)

lemma digest_checked:
  "validateRecoveredEvent e = None \<Longrightarrow> e_Request e = Some r \<Longrightarrow> validateRequestDigest r = None"
  by (auto simp: validateRecoveredEvent_def split: option.splits if_splits)

lemma refs_ok_event:
  assumes "refs_ok cd file s" "store_inv s" "event_fits s e" "reads cd file ref e"
    "validateRecoveredEvent e = None"
  shows "refs_ok cd file (apply_event cd e ref s)"
proof -
  define s0 where "s0 = (if e_Seq e > s_seq s then s\<lparr>s_seq := e_Seq e\<rparr> else s)"
  define s1 where "s1 = apply_evictions e s0"
  define s2 where "s2 = (case e_Request e of None \<Rightarrow> s1 | Some r \<Rightarrow> apply_request r ref s1)"
  define s3 where "s3 = (case e_Attempt e of None \<Rightarrow> s2 | Some a \<Rightarrow> apply_attempt a ref s2)"
  have r0: "retained_of s0 = retained_of s" "s_opts s0 = s_opts s" by (simp_all add: s0_def retained_of_def)
  then have i0: "store_inv s0" "refs_ok cd file s0" and f0: "event_fits s0 e"
    using assms store_inv_retained [OF r0(1)] refs_ok_retained [OF r0] event_fits_retained [OF r0(1)]
    by simp_all
  have i1: "store_inv s1" "refs_ok cd file s1"
    unfolding s1_def using i0 refs_ok_evictions apply_evictions_inv by blast+
  have r2: "refs_ok cd file s2"
    using i1 refs_ok_request [OF i1(2) assms(4)] digest_checked [OF assms(5)]
    by (simp add: s2_def split: option.split)
  have a2: "attempts_inv s2" "s_attemptIDs s2 = s_attemptIDs s1"
    using i1(1) f0
    by (auto simp: s2_def s1_def event_fits_def store_inv_def apply_request_def attempts_inv_def
        split: option.splits)
  have r3: "refs_ok cd file s3"
  proof (cases "e_Attempt e")
    case (Some a)
    then have "a_ID a |\<notin>| s_attemptIDs s0" using f0 by (simp add: event_fits_def)
    then have "a_ID a |\<notin>| s_attemptIDs s2"
      using apply_evictions_attemptIDs [OF i0(1), of "a_ID a" e] a2(2) by (auto simp: s1_def)
    then show ?thesis using refs_ok_attempt [OF r2 assms(4) Some a2(1)] by (simp add: s3_def Some)
  qed (simp add: s3_def r2)
  then have "refs_ok cd file (apply_payload e ref s1)"
    by (simp add: apply_payload_def Let_def refs_ok_job flip: s2_def s3_def split: option.split)
  moreover have "apply_event cd e ref s = appendRing cd e (apply_payload e ref s1)"
    by (simp add: apply_event_def Let_def s1_def s0_def)
  ultimately show ?thesis
    using refs_ok_cong [of "appendRing cd e (apply_payload e ref s1)" "apply_payload e ref s1"] by simp
qed

section \<open>The text of the store\<close>

text \<open>What the store holds is text that the codec writes without loss.\<close>

definition store_text :: "store \<Rightarrow> bool" where
  "store_text s \<longleftrightarrow>
     (\<forall>i r. fmlookup (s_requests s) i = Some r \<longrightarrow> request_ok r)
     \<and> (\<forall>i j. fmlookup (s_jobs s) i = Some j \<longrightarrow> job_ok j)
     \<and> (\<forall>rid a. a \<in> set (attempts_of s rid) \<longrightarrow> attempt_ok a)"

lemma store_text_view: "view_of s = view_of t \<Longrightarrow> store_text s = store_text t"
  by (simp add: store_text_def view_of_eq)

lemma store_text_new [simp]: "store_text (new_store oo f)"
  by (simp add: store_text_def)

lemma text_body [simp]:
  "request_ok (r\<lparr>r_Body := b\<rparr>) = request_ok r" "attempt_ok (a\<lparr>a_ResponseBody := b\<rparr>) = attempt_ok a"
  by (simp_all add: request_ok_def attempt_ok_def)

lemma store_text_applied:
  assumes "store_text s" "store_inv s" "event_ok e"
  shows "store_text (applied e s)"
proof -
  note l = applied_requests applied_jobs [OF assms(2)] applied_attempts_of [OF assms(2)]
  show ?thesis
    using assms(1,3) unfolding store_text_def l event_ok_def Let_def
    by (auto split: option.splits if_splits)
qed

lemma store_text_redact: "store_text s \<Longrightarrow> store_text (redact_state p s)"
proof -
  have v: "utf8_valid REDACTED" by code_simp
  have h: "header_ok h \<Longrightarrow> header_ok (redact_header p h)" for h
    using v by (auto simp: header_ok_def redact_header_def fmpred_iff)
  assume "store_text s"
  then show ?thesis
    unfolding store_text_def redact_state_attempts_of
    by (auto simp: redact_request_def redact_attempt_def request_ok_def attempt_ok_def h)
qed

section \<open>Replays\<close>

text \<open>
  A list of events replays to a state: from an empty store it gives a well-formed store with the
  view of that state, whose references lead into the file and whose number is that of the state.
\<close>

definition replays :: "codec \<Rightarrow> event list \<Rightarrow> store \<Rightarrow> bool" where
  "replays cd es s \<longleftrightarrow>
     (\<forall>f. \<exists>g seen t. replay cd es 0 False (new_store (s_opts s) f) = Inr (g, seen, t)
        \<and> view_of t = view_of s \<and> wf_store cd t \<and> refs_ok cd (log_bytes cd es) t
        \<and> s_seq t = (if es = [] then 0 else s_seq s))"

lemma replays_cong:
  assumes "view_of s = view_of t" "s_seq s = s_seq t" "replays cd es s"
  shows "replays cd es t"
proof -
  have "s_opts s = s_opts t" using assms(1) by (simp add: view_of_eq)
  then show ?thesis using assms(3) unfolding replays_def assms(1,2) by simp
qed

lemma key_fresh_view: "view_of s = view_of t \<Longrightarrow> key_fresh s e = key_fresh t e"
proof -
  assume "view_of s = view_of t"
  then have "key_free s = key_free t" by (simp add: fun_eq_iff key_free_def view_of_eq)
  then show ?thesis by (simp add: key_fresh_def)
qed

text \<open>A record that validation accepts is replayed as it was applied.\<close>

lemma recover_record_fits:
  assumes "codec_ok cd" "loggable cd e" "e_Seq e \<noteq> 0" "s_seq t = 0 \<or> e_Seq e = s_seq t + 1"
    "validateRecoveredEvent e = None" "validateStateLocked t e = None" "\<not> (e_Snapshot e \<and> seen)"
    "wf_store cd t" "event_fits t e" "key_fresh t e" "refs_ok cd pre t" "length pre = good"
    "s_seq t < e_Seq e"
  obtains t' where "recover_record cd (enc cd e) good seen t = Inr (seen \<or> \<not> e_Snapshot e, t')"
    "view_of t' = view_of (applied e t)" "wf_store cd t'" "refs_ok cd (pre @ enc cd e) t'"
    "s_seq t' = e_Seq e"
proof -
  define t1 where "t1 = (if e_Snapshot e then t else t\<lparr>s_eventCount := s_eventCount t + 1\<rparr>)"
  define ref where "ref = \<lparr>ref_offset = good, ref_length = length (enc cd e), ref_seq = e_Seq e\<rparr>"
  have u: "Unmarshal cd (enc cd e) = Some e" by (rule enc_loggable [OF assms(1,2)])
  have same: "retained_of t1 = retained_of t" "s_opts t1 = s_opts t" "s_ring t1 = s_ring t"
    "s_ringBytes t1 = s_ringBytes t" "s_seq t1 = s_seq t"
    by (simp_all add: t1_def retained_of_def)
  have w1: "wf_store cd t1" using assms(8) wf_store_cong same by blast
  have f1: "event_fits t1 e" using assms(9) event_fits_retained [OF same(1)] by simp
  have "view_of t1 = view_of t" by (rule view_of_retained [OF same(1,2)])
  then have k1: "key_fresh t1 e" using assms(10) key_fresh_view by blast
  have "recover_record cd (enc cd e) good seen t = Inr (seen \<or> \<not> e_Snapshot e, apply_event cd e ref t1)"
    using assms(3-7) u by (auto simp: recover_record_def t1_def ref_def)
  moreover have "view_of (apply_event cd e ref t1) = view_of (applied e t)"
  proof -
    define t2 where "t2 = (if e_Seq e > s_seq t1 then t1\<lparr>s_seq := e_Seq e\<rparr> else t1)"
    have "view_of t2 = view_of t" by (simp add: t2_def t1_def view_of_eq)
    then have "view_of (apply_payload e ref (apply_evictions e t2)) = view_of (applied e t)"
      by (rule applied_view_cong)
    moreover have "view_of (appendRing cd e v) = view_of v" for v by (simp add: view_of_eq)
    ultimately show ?thesis unfolding apply_event_def Let_def t2_def [symmetric] by simp
  qed
  moreover have "wf_store cd (apply_event cd e ref t1)"
    using w1 f1 k1 apply_event_inv apply_event_dedup apply_event_ring_inv by (simp add: wf_store_def)
  moreover have "refs_ok cd (pre @ enc cd e) (apply_event cd e ref t1)"
  proof (rule refs_ok_event)
    show "refs_ok cd (pre @ enc cd e) t1"
      using refs_ok_grow [OF assms(11)] refs_ok_retained [OF same(1,2)] by simp
    show "store_inv t1" using w1 by (simp add: wf_store_def)
    show "reads cd (pre @ enc cd e) ref e"
      using reads_written [OF assms(1,2), of pre "[]"] assms(12) by (simp add: ref_def)
  qed (fact f1 assms(5))+
  moreover have "s_seq (apply_event cd e ref t1) = e_Seq e" using assms(13) same(5) by simp
  ultimately show ?thesis using that by blast
qed

lemma word_less_inc: "x + 1 \<noteq> 0 \<Longrightarrow> x < x + (1 :: 64 word)"
  by (auto simp: inc_less_eq_self_iff_eq simp flip: not_le)

text \<open>The record of an append is replayed after those before it.\<close>

lemma replays_snoc:
  assumes "codec_ok cd" "loggable cd e" "sound_line cd e" "replays cd es s" "wf_store cd s"
    "validateRecoveredEvent e = None" "validateStateLocked s e = None" "self_contained e"
    "key_fresh s e" "\<not> e_Snapshot e" "e_Seq e = s_seq s + 1"
    "view_of u = view_of (applied e s)" "s_seq u = e_Seq e"
  shows "replays cd (es @ [e]) u"
  unfolding replays_def
proof
  fix f
  obtain g seen t where t: "replay cd es 0 False (new_store (s_opts s) f) = Inr (g, seen, t)"
    "view_of t = view_of s" "wf_store cd t" "refs_ok cd (log_bytes cd es) t"
    "s_seq t = (if es = [] then 0 else s_seq s)"
    using assms(4) unfolding replays_def by blast
  have g: "length (log_bytes cd es) = g" using replay_good [OF t(1)] by simp
  have v: "validateStateLocked t e = None"
    using assms(7) validateStateLocked_cong [of t s e] t(2) by (simp add: view_of_eq)
  have fits: "event_fits t e" using t(3) assms(6,8) v by (intro validated_fits) (auto simp: wf_store_def)
  have nz: "e_Seq e \<noteq> 0" "\<not> length (enc cd e) > maxEventBytes"
    using assms(3) by (auto simp: sound_line_def)
  then have "s_seq s < e_Seq e" using word_less_inc [of "s_seq s"] assms(11) by simp
  moreover have "0 < e_Seq e" using nz(1) by (simp add: word_gt_0)
  ultimately have sq: "s_seq t < e_Seq e" "s_seq t = 0 \<or> e_Seq e = s_seq t + 1"
    using t(5) assms(11) by auto
  have k: "key_fresh t e" using assms(9) key_fresh_view [OF t(2)] by simp
  obtain t' where t': "recover_record cd (enc cd e) g seen t = Inr (seen \<or> \<not> e_Snapshot e, t')"
    "view_of t' = view_of (applied e t)" "wf_store cd t'" "refs_ok cd (log_bytes cd es @ enc cd e) t'"
    "s_seq t' = e_Seq e"
    by (rule recover_record_fits [OF assms(1,2) nz(1) sq(2) assms(6) v _ t(3) fits k t(4) g sq(1)])
      (use assms(10) in simp_all)
  have o: "s_opts u = s_opts s" using assms(12) applied_opts by (simp add: view_of_eq)
  have "replay cd (es @ [e]) 0 False (new_store (s_opts u) f)
      = Inr (g + length (enc cd e), seen \<or> \<not> e_Snapshot e, t')"
    using t(1) t'(1) nz(2) by (simp add: replay_append o)
  moreover have "view_of t' = view_of u"
    using t'(2) assms(12) applied_view_cong [OF t(2), of e zero_ref] by (simp add: applied_def)
  ultimately show "\<exists>g seen t. replay cd (es @ [e]) 0 False (new_store (s_opts u) f) = Inr (g, seen, t)
      \<and> view_of t = view_of u \<and> wf_store cd t \<and> refs_ok cd (log_bytes cd (es @ [e])) t
      \<and> s_seq t = (if es @ [e] = [] then 0 else s_seq u)"
    using t'(3-5) assms(13) by simp
qed

lemma withDefaults_twice: "withDefaults oo = o' \<Longrightarrow> new_store oo f = new_store o' f"
  using withDefaults_idem [OF options_ok_withDefaults] by (auto simp: new_store_def)

lemma replays_Nil: "s_opts s = withDefaults oo \<Longrightarrow> view_of s = view_of (new_store oo f) \<Longrightarrow> replays cd [] s"
proof -
  assume o: "s_opts s = withDefaults oo" and v: "view_of s = view_of (new_store oo f)"
  have "view_of (new_store (s_opts s) f') = view_of s" for f'
    using v withDefaults_idem [OF options_ok_withDefaults, of oo] by (simp add: view_of_eq o)
  then show ?thesis unfolding replays_def
    by (auto simp: wf_store_new intro: exI [of _ False])
qed

end
