(* ===== verification/Store_Snapshot.thy ===== *)
theory Store_Snapshot
  imports Store_Replay
begin

text \<open>
  A snapshot replays to the state it was taken of. \<open>hydrated\<close> relates a record of
  \<open>snapshotRecordsLocked\<close> to the event written for it, \<open>in_order\<close> says that records come after
  what they refer to, and \<open>snap_state\<close> is the part of the state that the records so far hold.
\<close>

section \<open>Records and the events written for them\<close>

definition snap_record :: "store \<Rightarrow> event \<Rightarrow> bool" where
  "snap_record s e \<longleftrightarrow>
     (\<exists>i r. fmlookup (s_requests s) i = Some r \<and> e = snapshot_request s i)
     \<or> (\<exists>i j. fmlookup (s_jobs s) i = Some j \<and> e = snapshot_job s i)
     \<or> (\<exists>rid a. a \<in> set (attempts_of s rid) \<and> e = snapshot_attempt a)"

definition hydrated :: "store \<Rightarrow> event \<Rightarrow> event \<Rightarrow> bool" where
  "hydrated s e h \<longleftrightarrow>
     e_Kind h = e_Kind e \<and> e_At h = e_At e \<and> e_Snapshot h \<and> e_Job h = e_Job e
     \<and> e_EvictedRequestIDs h = [] \<and> e_EvictedJobIDs h = []
     \<and> (case e_Request e of None \<Rightarrow> e_Request h = None
        | Some r \<Rightarrow> \<exists>q. e_Request h = Some q \<and> q\<lparr>r_Body := []\<rparr> = r \<and> validateRequestDigest q = None
            \<and> fmlookup (s_requestBytes s) (r_ID r) = Some (int (length (r_Body q)))
            \<and> fmlookup (s_search s) (r_ID r) = Some (search_index (s_opts s) q))
     \<and> (case e_Attempt e of None \<Rightarrow> e_Attempt h = None
        | Some a \<Rightarrow> \<exists>b. e_Attempt h = Some b \<and> b\<lparr>a_ResponseBody := []\<rparr> = a)"

lemma snapshot_kinds [simp]:
  "e_Kind (snapshot_job s i) = forward_kind (j_State (map_get zero_job (s_jobs s) i))"
  "e_Kind (snapshot_attempt a) = ''attempt.finished''"
  by (simp_all add: snapshot_job_def snapshot_attempt_def Let_def)

lemma snapshot_evictions [simp]:
  "e_EvictedRequestIDs (snapshot_request s i) = []" "e_EvictedJobIDs (snapshot_request s i) = []"
  "e_EvictedRequestIDs (snapshot_job s i) = []" "e_EvictedJobIDs (snapshot_job s i) = []"
  "e_EvictedRequestIDs (snapshot_attempt a) = []" "e_EvictedJobIDs (snapshot_attempt a) = []"
  by (simp_all add: snapshot_request_def snapshot_job_def snapshot_attempt_def Let_def)

lemma snapshot_time_not_zero: "snapshot_time t \<noteq> zero_time"
  by (simp add: snapshot_time_def unix_0_1_def)

lemma snapshot_at [simp]:
  "e_At (snapshot_request s i) \<noteq> zero_time" "e_At (snapshot_job s i) \<noteq> zero_time"
  "e_At (snapshot_attempt a) \<noteq> zero_time"
  by (simp_all add: snapshot_request_def snapshot_job_def snapshot_attempt_def Let_def
      snapshot_time_not_zero)

text \<open>What a record may be.\<close>

lemma snap_record_cases:
  assumes "snap_record s e" "store_inv s"
  obtains (request) r where "fmlookup (s_requests s) (r_ID r) = Some r" "r_ID r \<noteq> []" "r_Body r = []"
      "e_Kind e = ''request.received''" "e_Request e = Some r" "e_Job e = None" "e_Attempt e = None"
  | (job) j where "fmlookup (s_jobs s) (j_ID j) = Some j" "j_ID j \<noteq> []" "job_state_ok (j_State j)"
      "e_Kind e = forward_kind (j_State j)" "e_Request e = None" "e_Job e = Some j" "e_Attempt e = None"
  | (attempt) a where "a \<in> set (attempts_of s (a_RequestID a))" "validateAttempt a = None"
      "a_ResponseBody a = []"
      "e_Kind e = ''attempt.finished''" "e_Request e = None" "e_Job e = None" "e_Attempt e = Some a"
proof -
  have inv: "requests_inv s" "jobs_inv s" "attempts_inv s" using assms(2) by (simp_all add: store_inv_def)
  from assms(1) consider (r) i r where "fmlookup (s_requests s) i = Some r" "e = snapshot_request s i"
    | (j) i j where "fmlookup (s_jobs s) i = Some j" "e = snapshot_job s i"
    | (a) rid a where "a \<in> set (attempts_of s rid)" "e = snapshot_attempt a"
    unfolding snap_record_def by blast
  then show ?thesis
  proof cases
    case (r i r)
    then show ?thesis
      using request [of r] requests_invD [OF inv(1) r(1)] by (simp add: map_get_def)
  next
    case (j i j)
    then show ?thesis using job [of j] jobs_invD [OF inv(2) j(1)] by (simp add: map_get_def)
  next
    case (a rid a)
    then show ?thesis using attempt [of a] attempts_invD [OF inv(3) a(1)] by simp
  qed
qed

lemma snap_record_at: "snap_record s e \<Longrightarrow> e_At e \<noteq> zero_time"
  by (auto simp: snap_record_def)

lemma snap_record_evictions:
  "snap_record s e \<Longrightarrow> e_EvictedRequestIDs e = [] \<and> e_EvictedJobIDs e = []"
  by (auto simp: snap_record_def)

lemma event_ok_kinds:
  "utf8_valid ''request.received''" "utf8_valid ''attempt.finished''"
  "job_state_ok st \<Longrightarrow> utf8_valid (forward_kind st)"
proof -
  show "utf8_valid ''request.received''" "utf8_valid ''attempt.finished''" by code_simp+
  have "list_all utf8_valid job_kinds" by code_simp
  then show "job_state_ok st \<Longrightarrow> utf8_valid (forward_kind st)"
    by (simp add: job_state_ok_def list_all_iff)
qed

lemma hydrate_hydrated:
  assumes "hydrateSnapshotEventLocked cd w s e = Inr h" "snap_record s e" "store_inv s"
    "refs_ok cd (s_file s) s" "store_text s"
  shows "hydrated s e (h\<lparr>e_Seq := n, e_Snapshot := True\<rparr>)" "event_ok (h\<lparr>e_Seq := n, e_Snapshot := True\<rparr>)"
proof -
  note same = hydrateSnapshotEventLocked_same [OF assms(1)] and ev = snap_record_evictions [OF assms(2)]
  have kind: "utf8_valid (e_Kind e)"
    using assms(2,3) by (cases rule: snap_record_cases) (simp_all only: event_ok_kinds)
  have "hydrated s e (h\<lparr>e_Seq := n, e_Snapshot := True\<rparr>) \<and> event_ok (h\<lparr>e_Seq := n, e_Snapshot := True\<rparr>)"
    using assms(2,3)
  proof (cases rule: snap_record_cases)
    case (request r)
    then obtain q where q: "hydrate_request cd w s r = Inr q" "e_Request h = Some q" "e_Attempt h = None"
      using assms(1) by (auto simp: hydrateSnapshotEventLocked_def split: sum.splits)
    then obtain stored r0 where st: "readEventAt cd w s (map_get zero_ref (s_requestRecord s) (r_ID r)) = Inr stored"
      "e_Request stored = Some r0" "q = r\<lparr>r_Body := r_Body r0\<rparr>" "validateRequestDigest q = None"
      by (auto simp: hydrate_request_def Let_def split: sum.splits option.splits if_splits)
    obtain ref m ix where ref: "fmlookup (s_requestRecord s) (r_ID r) = Some ref"
      "fmlookup (s_requestBytes s) (r_ID r) = Some m" "fmlookup (s_search s) (r_ID r) = Some ix"
      "request_at cd (s_file s) (s_opts s) ref r m ix"
      using assms(4) request(1) unfolding refs_ok_def by blast
    have "reads cd (s_file s) ref stored" using readEventAt_reads [OF st(1)] ref(1) by (simp add: map_get_def)
    then obtain q0 where q0: "e_Request stored = Some q0" "q0\<lparr>r_Body := [], r_Headers := r_Headers r\<rparr> = r"
      "m = int (length (r_Body q0))" "ix = search_index (s_opts s) q0"
      using ref(4) reads_unique unfolding request_at_def by metis
    then have bq: "r_Body q = r_Body q0" "q\<lparr>r_Body := []\<rparr> = r" using st(2,3) q0(1) request(3) by simp_all
    have "r_ID q0 = r_ID q" "r_Path q0 = r_Path q" "r_DeliveryID q0 = r_DeliveryID q"
      using arg_cong [OF q0(2), of r_ID] arg_cong [OF q0(2), of r_Path]
        arg_cong [OF q0(2), of r_DeliveryID] st(3) by simp_all
    then have "ix = search_index (s_opts s) q" by (simp add: search_index_def q0(4) bq(1))
    then have "\<exists>q. e_Request h = Some q \<and> q\<lparr>r_Body := []\<rparr> = r \<and> validateRequestDigest q = None
        \<and> fmlookup (s_requestBytes s) (r_ID r) = Some (int (length (r_Body q)))
        \<and> fmlookup (s_search s) (r_ID r) = Some (search_index (s_opts s) q)"
      using q(2) bq st(4) ref(2,3) q0(3) by (intro exI [of _ q]) (simp only: bq(1))
    then have "hydrated s e (h\<lparr>e_Seq := n, e_Snapshot := True\<rparr>)"
      unfolding hydrated_def request(5,7) option.case using same(3-7) ev q(3) by simp
    moreover have "request_ok q" using assms(5) request(1) by (simp add: store_text_def st(3))
    then have "event_ok (h\<lparr>e_Seq := n, e_Snapshot := True\<rparr>)"
      using kind same(3-7) ev q(2,3) request(6) unfolding event_ok_def by simp
    ultimately show ?thesis by (rule conjI)
  next
    case (job j)
    then have "job_ok j" using assms(5) by (simp add: store_text_def)
    then show ?thesis
      using job(5-7) kind same ev by (simp add: hydrated_def event_ok_def)
  next
    case (attempt a)
    then obtain b where b: "hydrate_attempt cd w s a = Inr b" "e_Attempt h = Some b" "e_Request h = None"
      using assms(1) by (auto simp: hydrateSnapshotEventLocked_def split: sum.splits)
    then obtain body where "b = a\<lparr>a_ResponseBody := body\<rparr>"
      by (auto simp: hydrate_attempt_def split: sum.splits option.splits if_splits)
    moreover have "attempt_ok a" using assms(5) attempt(1) by (simp add: store_text_def)
    ultimately show ?thesis
      using attempt(3,5-7) kind same ev b by (simp add: hydrated_def event_ok_def)
  qed
  then show "hydrated s e (h\<lparr>e_Seq := n, e_Snapshot := True\<rparr>)" "event_ok (h\<lparr>e_Seq := n, e_Snapshot := True\<rparr>)"
    by simp_all
qed

text \<open>The file of a snapshot and the references into it.\<close>

lemma write_snapshot_events:
  assumes "write_snapshot cd w s start i p es = Inr p'" "list_all (snap_record s) es"
    "codec_ok cd" "store_inv s" "refs_ok cd (s_file s) s" "store_text s"
  shows "\<exists>hs. list_all2 (hydrated s) es hs \<and> list_all (loggable cd) hs
    \<and> map e_Seq hs = map (\<lambda>k. start + of_nat k) [i..<i + length es]
    \<and> p_bytes p' = p_bytes p @ log_bytes cd hs
    \<and> (\<forall>k ref. fmlookup (p_requestRecord p') k = Some ref \<longrightarrow> fmlookup (p_requestRecord p) k = Some ref
        \<or> (\<exists>e h r. e \<in> set es \<and> hydrated s e h \<and> e_Request e = Some r \<and> r_ID r = k
             \<and> reads cd (p_bytes p') ref h))
    \<and> (\<forall>k ref. fmlookup (p_attemptRecord p') k = Some ref \<longrightarrow> fmlookup (p_attemptRecord p) k = Some ref
        \<or> (\<exists>e h a. e \<in> set es \<and> hydrated s e h \<and> e_Attempt e = Some a \<and> a_ID a = k
             \<and> reads cd (p_bytes p') ref h))"
  using assms(1,2)
proof (induction es arbitrary: i p)
  case Nil
  then show ?case by simp
next
  case (Cons e es)
  then obtain h b where h: "hydrateSnapshotEventLocked cd w s e = Inr h"
    "Marshal cd (h\<lparr>e_Seq := start + of_nat i, e_Snapshot := True\<rparr>) = Some b"
    by (auto simp: Let_def split: sum.splits option.splits)
  define h' where "h' = h\<lparr>e_Seq := start + of_nat i, e_Snapshot := True\<rparr>"
  have hy: "hydrated s e h'" "event_ok h'"
    unfolding h'_def using hydrate_hydrated [OF h(1)] Cons.prems(2) assms(4-6) by simp_all
  have en: "enc cd h' = b @ [newline]" and lg: "loggable cd h'"
    using h(2) hy(2) by (simp_all add: enc_def loggable_def flip: h'_def)
  define ref where "ref = \<lparr>ref_offset = length (p_bytes p), ref_length = length (enc cd h'), ref_seq = e_Seq h'\<rparr>"
  define p1 where "p1 = \<lparr>p_bytes = p_bytes p @ enc cd h',
    p_requestRecord = (case e_Request h' of None \<Rightarrow> p_requestRecord p
      | Some r \<Rightarrow> fmupd (r_ID r) ref (p_requestRecord p)),
    p_attemptRecord = (case e_Attempt h' of None \<Rightarrow> p_attemptRecord p
      | Some a \<Rightarrow> fmupd (a_ID a) ref (p_attemptRecord p))\<rparr>"
  have "write_snapshot cd w s start (Suc i) p1 es = Inr p'"
    using Cons.prems(1) h unfolding p1_def ref_def en
    by (auto simp: Let_def h'_def split: option.splits)
  from Cons.IH [OF this] Cons.prems(2) obtain hs where hs:
    "list_all2 (hydrated s) es hs" "list_all (loggable cd) hs"
    "map e_Seq hs = map (\<lambda>k. start + of_nat k) [Suc i..<Suc i + length es]"
    "p_bytes p' = p_bytes p1 @ log_bytes cd hs"
    "\<And>k ref. fmlookup (p_requestRecord p') k = Some ref \<Longrightarrow> fmlookup (p_requestRecord p1) k = Some ref
      \<or> (\<exists>e h r. e \<in> set es \<and> hydrated s e h \<and> e_Request e = Some r \<and> r_ID r = k \<and> reads cd (p_bytes p') ref h)"
    "\<And>k ref. fmlookup (p_attemptRecord p') k = Some ref \<Longrightarrow> fmlookup (p_attemptRecord p1) k = Some ref
      \<or> (\<exists>e h a. e \<in> set es \<and> hydrated s e h \<and> e_Attempt e = Some a \<and> a_ID a = k \<and> reads cd (p_bytes p') ref h)"
    by auto
  have bytes: "p_bytes p' = p_bytes p @ enc cd h' @ log_bytes cd hs" by (simp add: hs(4) p1_def)
  have rd: "reads cd (p_bytes p') ref h'"
    unfolding bytes ref_def by (rule reads_written [OF assms(3) lg])
  have q: "fmlookup (p_requestRecord p1) k = Some rf \<Longrightarrow> fmlookup (p_requestRecord p) k = Some rf
      \<or> (\<exists>r. e_Request e = Some r \<and> r_ID r = k \<and> rf = ref)" for k rf
    using hy(1) by (auto simp: p1_def hydrated_def split: option.splits if_splits)
  have a: "fmlookup (p_attemptRecord p1) k = Some rf \<Longrightarrow> fmlookup (p_attemptRecord p) k = Some rf
      \<or> (\<exists>a. e_Attempt e = Some a \<and> a_ID a = k \<and> rf = ref)" for k rf
    using hy(1) by (auto simp: p1_def hydrated_def split: option.splits if_splits)
  have upt: "[i..<i + length (e # es)] = i # [Suc i..<Suc i + length es]" by (simp add: upt_rec)
  show ?case
  proof (intro exI conjI allI impI)
    show "list_all2 (hydrated s) (e # es) (h' # hs)" "list_all (loggable cd) (h' # hs)"
      "map e_Seq (h' # hs) = map (\<lambda>k. start + of_nat k) [i..<i + length (e # es)]"
      "p_bytes p' = p_bytes p @ log_bytes cd (h' # hs)"
      unfolding upt using hs(1-3) hy lg bytes by (simp_all add: h'_def)
    show "fmlookup (p_requestRecord p) k = Some rf \<or> (\<exists>e' h r. e' \<in> set (e # es) \<and> hydrated s e' h
        \<and> e_Request e' = Some r \<and> r_ID r = k \<and> reads cd (p_bytes p') rf h)"
      if "fmlookup (p_requestRecord p') k = Some rf" for k rf
      using hs(5) [OF that] q [of k rf] rd hy(1) by auto
    show "fmlookup (p_attemptRecord p) k = Some rf \<or> (\<exists>e' h a. e' \<in> set (e # es) \<and> hydrated s e' h
        \<and> e_Attempt e' = Some a \<and> a_ID a = k \<and> reads cd (p_bytes p') rf h)"
      if "fmlookup (p_attemptRecord p') k = Some rf" for k rf
      using hs(6) [OF that] a [of k rf] rd hy(1) by auto
  qed
qed

section \<open>The order of the records\<close>

definition job_ids :: "event list \<Rightarrow> string fset" where
  "job_ids es = fset_of_list (List.map_filter (\<lambda>e. map_option j_ID (e_Job e)) es)"

definition atts :: "event list \<Rightarrow> attempt list" where
  "atts es = List.map_filter e_Attempt es"

lemma lists_simps [simp]:
  "job_ids [] = {||}" "atts [] = []"
  "job_ids (e # es) = (case e_Job e of None \<Rightarrow> job_ids es | Some j \<Rightarrow> finsert (j_ID j) (job_ids es))"
  "atts (e # es) = (case e_Attempt e of None \<Rightarrow> atts es | Some a \<Rightarrow> a # atts es)"
  by (auto simp: job_ids_def atts_def map_filter_simps split: option.split)

lemma lists_append [simp]:
  "request_ids (es @ fs) = request_ids es |\<union>| request_ids fs"
  "attempt_ids (es @ fs) = attempt_ids es |\<union>| attempt_ids fs"
  "job_ids (es @ fs) = job_ids es |\<union>| job_ids fs" "atts (es @ fs) = atts es @ atts fs"
  by (induction es) (auto split: option.split)

lemma attempt_ids_atts: "x |\<in>| attempt_ids es \<longleftrightarrow> x \<in> a_ID ` set (atts es)"
  by (induction es) (auto split: option.split)

definition next_ok :: "event list \<Rightarrow> event \<Rightarrow> bool" where
  "next_ok ps e \<longleftrightarrow>
     (\<forall>r. e_Request e = Some r \<longrightarrow> r_ID r |\<notin>| request_ids ps)
     \<and> (\<forall>j. e_Job e = Some j \<longrightarrow> j_RequestID j |\<in>| request_ids ps)
     \<and> (\<forall>a. e_Attempt e = Some a \<longrightarrow> a_RequestID a |\<in>| request_ids ps
          \<and> a_JobID a |\<in>| job_ids ps \<and> a_ID a |\<notin>| attempt_ids ps)"

fun in_order :: "event list \<Rightarrow> event list \<Rightarrow> bool" where
  "in_order ps [] = True"
| "in_order ps (e # es) = (next_ok ps e \<and> in_order (ps @ [e]) es)"

lemma in_order_append: "in_order ps (es @ fs) \<longleftrightarrow> in_order ps es \<and> in_order (ps @ es) fs"
  by (induction ps es rule: in_order.induct) auto

lemma in_order_jobs:
  assumes "\<And>i. i \<in> set js \<Longrightarrow> j_RequestID (map_get zero_job (s_jobs s) i) |\<in>| request_ids ps"
  shows "in_order ps (map (snapshot_job s) js)"
  using assms by (induction js arbitrary: ps) (auto simp: next_ok_def)

lemma in_order_attempts:
  assumes "\<And>a. a \<in> set as \<Longrightarrow> a_RequestID a |\<in>| request_ids ps \<and> a_JobID a |\<in>| job_ids ps
      \<and> a_ID a |\<notin>| attempt_ids ps" "distinct (map a_ID as)"
  shows "in_order ps (map snapshot_attempt as)"
  using assms
proof (induction as arbitrary: ps)
  case (Cons a as)
  have "in_order (ps @ [snapshot_attempt a]) (map snapshot_attempt as)"
    using Cons.prems by (intro Cons.IH) (auto simp: image_iff)
  then show ?case using Cons.prems by (simp add: next_ok_def)
qed simp

lemma snapshot_lists [simp]:
  "request_ids (map (snapshot_job s) js) = {||}" "request_ids (map snapshot_attempt as) = {||}"
  "attempt_ids (map (snapshot_job s) js) = {||}" "job_ids (map snapshot_attempt as) = {||}"
  "attempt_ids (map snapshot_attempt as) = fset_of_list (map a_ID as)"
  "atts (map (snapshot_job s) js) = []" "atts (map snapshot_attempt as) = as"
  "job_ids (map (snapshot_job s) js) = fset_of_list (map (\<lambda>i. j_ID (map_get zero_job (s_jobs s) i)) js)"
  by (induction js; induction as; simp)+

text \<open>The records of one request.\<close>

lemma snapshot_block:
  assumes "store_inv s" "range_order (w_order w)" "fmlookup (s_requests s) i = Some r"
  shows "request_ids (snapshot_of_request w s i) = {|i|}" "job_ids (snapshot_of_request w s i) = jobs_of s i"
    "atts (snapshot_of_request w s i) = attempts_of s i"
    "attempt_ids (snapshot_of_request w s i) = fset_of_list (map a_ID (attempts_of s i))"
    "list_all (snap_record s) (snapshot_of_request w s i)"
    "i |\<notin>| request_ids ps \<Longrightarrow> (\<And>a. a \<in> set (attempts_of s i) \<Longrightarrow> a_ID a |\<notin>| attempt_ids ps) \<Longrightarrow>
      in_order ps (snapshot_of_request w s i)"
proof -
  have inv: "requests_inv s" "jobs_inv s" "attempts_inv s" using assms(1) by (simp_all add: store_inv_def)
  define js where "js = sort (range_fset (w_order w) (jobs_of s i))"
  have js: "set js = fset (jobs_of s i)" using assms(2) by (simp add: js_def)
  have r: "r_ID (map_get zero_request (s_requests s) i) = i"
    using requests_invD(1) [OF inv(1) assms(3)] assms(3) by (simp add: map_get_def)
  have job: "\<exists>j. fmlookup (s_jobs s) k = Some j \<and> j_RequestID j = i" if "k |\<in>| jobs_of s i" for k
    using that jobs_of_iff [OF inv(2)] by simp
  have jid: "j_ID (map_get zero_job (s_jobs s) k) = k" "j_RequestID (map_get zero_job (s_jobs s) k) = i"
    if "k |\<in>| jobs_of s i" for k
    using job [OF that] jobs_invD(1) [OF inv(2)] by (auto simp: map_get_def)
  have eq: "snapshot_of_request w s i
      = snapshot_request s i # map (snapshot_job s) js @ map snapshot_attempt (attempts_of s i)"
    by (simp add: snapshot_of_request_def js_def)
  have ids: "map (\<lambda>k. j_ID (map_get zero_job (s_jobs s) k)) js = js"
    using jid(1) js by (intro map_idI) simp
  have jf: "fset_of_list js = jobs_of s i" by (rule fset_eqI) (simp add: fset_of_list.rep_eq js)
  show "request_ids (snapshot_of_request w s i) = {|i|}" "job_ids (snapshot_of_request w s i) = jobs_of s i"
    "atts (snapshot_of_request w s i) = attempts_of s i"
    "attempt_ids (snapshot_of_request w s i) = fset_of_list (map a_ID (attempts_of s i))"
    by (simp_all add: eq r ids jf)
  have "snap_record s (snapshot_request s i)" unfolding snap_record_def using assms(3) by blast
  moreover have "snap_record s (snapshot_job s k)" if "k |\<in>| jobs_of s i" for k
    unfolding snap_record_def using job [OF that] by blast
  moreover have "snap_record s (snapshot_attempt a)" if "a \<in> set (attempts_of s i)" for a
    unfolding snap_record_def using that by blast
  ultimately show "list_all (snap_record s) (snapshot_of_request w s i)"
    by (auto simp: eq list_all_iff js)
  assume new: "i |\<notin>| request_ids ps" "\<And>a. a \<in> set (attempts_of s i) \<Longrightarrow> a_ID a |\<notin>| attempt_ids ps"
  let ?q = "ps @ [snapshot_request s i]"
  have "in_order ?q (map (snapshot_job s) js)" by (rule in_order_jobs) (simp add: r js jid(2))
  moreover have "in_order (?q @ map (snapshot_job s) js) (map snapshot_attempt (attempts_of s i))"
  proof (rule in_order_attempts)
    show "distinct (map a_ID (attempts_of s i))" using inv(3) by (simp add: attempts_inv_def)
    fix a
    assume a: "a \<in> set (attempts_of s i)"
    then have "a_JobID a |\<in>| jobs_of s i"
      using attempts_invD(4) [OF inv(3) a] jobs_of_iff [OF inv(2)] by simp
    then show "a_RequestID a |\<in>| request_ids (?q @ map (snapshot_job s) js)
        \<and> a_JobID a |\<in>| job_ids (?q @ map (snapshot_job s) js)
        \<and> a_ID a |\<notin>| attempt_ids (?q @ map (snapshot_job s) js)"
      using attempts_invD(1) [OF inv(3) a] new(2) [OF a] by (simp add: r ids jf)
  qed
  ultimately show "in_order ps (snapshot_of_request w s i)"
    using new(1) by (simp add: eq in_order_append next_ok_def r)
qed

lemma snapshot_blocks:
  assumes "store_inv s" "range_order (w_order w)" "distinct xs"
    and found: "\<forall>i \<in> set xs. fmlookup (s_requests s) i \<noteq> None"
  shows "\<forall>i \<in> set xs. i |\<notin>| request_ids ps
      \<and> (\<forall>a \<in> set (attempts_of s i). a_ID a |\<notin>| attempt_ids ps) \<Longrightarrow>
      in_order ps (concat (map (snapshot_of_request w s) xs))"
    and "list_all (snap_record s) (concat (map (snapshot_of_request w s) xs))"
    and "filter (\<lambda>a. a_RequestID a = rid) (atts (concat (map (snapshot_of_request w s) xs)))
      = (if rid \<in> set xs then attempts_of s rid else [])"
    and "k |\<in>| job_ids (concat (map (snapshot_of_request w s) xs)) \<longleftrightarrow> (\<exists>i \<in> set xs. k |\<in>| jobs_of s i)"
proof -
  have a: "attempts_inv s" using assms(1) by (simp add: store_inv_def)
  note block = snapshot_block [OF assms(1,2)]
  show "in_order ps (concat (map (snapshot_of_request w s) xs))"
    if new: "\<forall>i \<in> set xs. i |\<notin>| request_ids ps
      \<and> (\<forall>a \<in> set (attempts_of s i). a_ID a |\<notin>| attempt_ids ps)"
    using assms(3) found new
  proof (induction xs arbitrary: ps)
    case (Cons i xs)
    obtain r where r: "fmlookup (s_requests s) i = Some r" using Cons.prems(2) by auto
    have "in_order (ps @ snapshot_of_request w s i) (concat (map (snapshot_of_request w s) xs))"
    proof (rule Cons.IH, use Cons.prems in simp, use Cons.prems in simp, rule ballI)
      fix j
      assume j: "j \<in> set xs"
      then have "j \<noteq> i" using Cons.prems(1) by auto
      then have "a_ID ` set (attempts_of s j) \<inter> a_ID ` set (attempts_of s i) = {}"
        using a by (simp add: attempts_inv_def)
      then have "a_ID b |\<notin>| fset_of_list (map a_ID (attempts_of s i))" if "b \<in> set (attempts_of s j)" for b
        using that by (auto simp: fset_of_list.rep_eq)
      then show "j |\<notin>| request_ids (ps @ snapshot_of_request w s i)
          \<and> (\<forall>a \<in> set (attempts_of s j). a_ID a |\<notin>| attempt_ids (ps @ snapshot_of_request w s i))"
        using j Cons.prems(1,3) by (auto simp: block [OF r])
    qed
    then show ?case using Cons.prems(3) block(6) [OF r] by (simp add: in_order_append)
  qed simp
  have "list_all (snap_record s) (concat (map (snapshot_of_request w s) xs))
    \<and> filter (\<lambda>a. a_RequestID a = rid) (atts (concat (map (snapshot_of_request w s) xs)))
      = (if rid \<in> set xs then attempts_of s rid else [])
    \<and> (k |\<in>| job_ids (concat (map (snapshot_of_request w s) xs)) \<longleftrightarrow> (\<exists>i \<in> set xs. k |\<in>| jobs_of s i))"
    using assms(3) found
  proof (induction xs)
    case (Cons i xs)
    obtain r where r: "fmlookup (s_requests s) i = Some r" using Cons.prems(2) by auto
    have "filter (\<lambda>a. a_RequestID a = rid) (attempts_of s i) = (if rid = i then attempts_of s i else [])"
      using attempts_invD(1) [OF a] by (auto simp: filter_empty_conv intro!: filter_True)
    then show ?case using Cons by (auto simp: block [OF r])
  qed simp
  then show "list_all (snap_record s) (concat (map (snapshot_of_request w s) xs))"
    "filter (\<lambda>a. a_RequestID a = rid) (atts (concat (map (snapshot_of_request w s) xs)))
      = (if rid \<in> set xs then attempts_of s rid else [])"
    "k |\<in>| job_ids (concat (map (snapshot_of_request w s) xs)) \<longleftrightarrow> (\<exists>i \<in> set xs. k |\<in>| jobs_of s i)"
    by simp_all
qed

text \<open>The records of a snapshot.\<close>

lemma snapshotRecordsLocked_records:
  assumes "store_inv s" "range_order (w_order w)"
  shows "in_order [] (snapshotRecordsLocked w s)" "list_all (snap_record s) (snapshotRecordsLocked w s)"
    "filter (\<lambda>a. a_RequestID a = rid) (atts (snapshotRecordsLocked w s)) = attempts_of s rid"
    "request_ids (snapshotRecordsLocked w s) = fmdom (s_requests s)"
    "job_ids (snapshotRecordsLocked w s) = fmdom (s_jobs s)"
proof -
  define xs where "xs = sort_slice (by_ReceivedAt s) (range_keys (w_order w) (s_requests s))"
  have eq: "snapshotRecordsLocked w s = concat (map (snapshot_of_request w s) xs)"
    by (simp add: snapshotRecordsLocked_def xs_def)
  have xs: "distinct xs" "set xs = fset (fmdom (s_requests s))"
    using assms(2) by (simp_all add: xs_def)
  have found: "\<forall>i \<in> set xs. fmlookup (s_requests s) i \<noteq> None"
    using xs(2) by (auto simp: fmlookup_dom_iff)
  note blocks = snapshot_blocks [OF assms xs(1) found]
  show "in_order [] (snapshotRecordsLocked w s)" "list_all (snap_record s) (snapshotRecordsLocked w s)"
    unfolding eq using blocks(1) [of "[]"] blocks(2) by simp_all
  have inv: "jobs_inv s" "attempts_inv s" using assms(1) by (simp_all add: store_inv_def)
  have "attempts_of s rid = []" if "rid \<notin> set xs"
  proof (rule ccontr)
    assume "attempts_of s rid \<noteq> []"
    then obtain a where "a \<in> set (attempts_of s rid)" by (meson list.set_sel(1))
    then have "fmlookup (s_requests s) rid \<noteq> None"
      using attempts_invD(4) [OF inv(2)] jobs_invD(3) [OF inv(1)] by fastforce
    then show False using that xs(2) by (auto simp: fmlookup_dom_iff)
  qed
  then show "filter (\<lambda>a. a_RequestID a = rid) (atts (snapshotRecordsLocked w s)) = attempts_of s rid"
    unfolding eq using blocks(3) [of rid] by auto
  show "request_ids (snapshotRecordsLocked w s) = fmdom (s_requests s)" by (rule snapshot_ids(1) [OF assms])
  have "(\<exists>i \<in> set xs. k |\<in>| jobs_of s i) \<longleftrightarrow> k |\<in>| fmdom (s_jobs s)" for k
    using jobs_of_iff [OF inv(1)] jobs_invD(3) [OF inv(1)] xs(2) by (fastforce simp: fmlookup_dom_iff)
  then show "job_ids (snapshotRecordsLocked w s) = fmdom (s_jobs s)"
    unfolding eq by (intro fset_eqI) (simp add: blocks(4))
qed

section \<open>Replaying a snapshot\<close>

definition snap_state :: "store \<Rightarrow> event list \<Rightarrow> store \<Rightarrow> bool" where
  "snap_state s ps t \<longleftrightarrow> s_opts t = s_opts s
     \<and> (\<forall>k. fmlookup (s_requests t) k = (if k |\<in>| request_ids ps then fmlookup (s_requests s) k else None))
     \<and> (\<forall>k. fmlookup (s_requestBytes t) k = (if k |\<in>| request_ids ps then fmlookup (s_requestBytes s) k else None))
     \<and> (\<forall>k. fmlookup (s_search t) k = (if k |\<in>| request_ids ps then fmlookup (s_search s) k else None))
     \<and> (\<forall>k. fmlookup (s_jobs t) k = (if k |\<in>| job_ids ps then fmlookup (s_jobs s) k else None))
     \<and> (\<forall>rid. attempts_of t rid = filter (\<lambda>a. a_RequestID a = rid) (atts ps))"

lemma snap_state_cong:
  assumes "view_of t = view_of u" "snap_state s ps u"
  shows "snap_state s ps t"
proof -
  have "s_opts t = s_opts u" "s_requests t = s_requests u" "s_requestBytes t = s_requestBytes u"
    "s_search t = s_search u" "s_jobs t = s_jobs u" "s_attempts t = s_attempts u"
    using assms(1) by (simp_all add: view_of_eq)
  then show ?thesis using assms(2) by (simp add: snap_state_def)
qed

lemma applied_plain:
  assumes "e_EvictedRequestIDs h = []" "e_EvictedJobIDs h = []"
  shows "applied h t = apply_payload h zero_ref t"
  by (simp add: applied_def apply_evictions_def assms)

lemma snap_state_step:
  assumes "snap_state s ps t" "hydrated s e h" "snap_record s e" "store_inv s"
  shows "snap_state s (ps @ [e]) (applied h t)"
proof -
  have ev: "applied h t = apply_payload h zero_ref t"
    using assms(2) by (intro applied_plain) (simp_all add: hydrated_def)
  from assms(3,4) show ?thesis
  proof (cases rule: snap_record_cases)
    case (request r)
    then obtain q where q: "e_Request h = Some q" "q\<lparr>r_Body := []\<rparr> = r" "e_Job h = None" "e_Attempt h = None"
      "fmlookup (s_requestBytes s) (r_ID r) = Some (int (length (r_Body q)))"
      "fmlookup (s_search s) (r_ID r) = Some (search_index (s_opts s) q)"
      using assms(2) by (auto simp: hydrated_def)
    have i: "r_ID q = r_ID r" using arg_cong [OF q(2), of r_ID] by simp
    have "applied h t = apply_request q zero_ref t" by (simp add: ev apply_payload_def q)
    then show ?thesis
      using assms(1) request q(2,5,6) i unfolding snap_state_def
      by (simp add: apply_request_def)
  next
    case (job j)
    then have "applied h t = apply_job j t"
      using assms(2) by (simp add: ev hydrated_def apply_payload_def)
    then show ?thesis using assms(1) job unfolding snap_state_def by (simp add: apply_job_def)
  next
    case (attempt a)
    then obtain b where b: "e_Attempt h = Some b" "b\<lparr>a_ResponseBody := []\<rparr> = a" "e_Job h = None"
      "e_Request h = None"
      using assms(2) by (auto simp: hydrated_def)
    have i: "a_RequestID b = a_RequestID a" using arg_cong [OF b(2), of a_RequestID] by simp
    have "applied h t = apply_attempt b zero_ref t" by (simp add: ev apply_payload_def b)
    then show ?thesis
      using assms(1) attempt b(2) i unfolding snap_state_def
      by (simp add: apply_attempt_def map_get_upd)
  qed
qed

lemma records_retained:
  assumes "list_all (snap_record s) ps" "store_inv s"
  shows "k |\<in>| request_ids ps \<Longrightarrow> fmlookup (s_requests s) k \<noteq> None"
    "k |\<in>| job_ids ps \<Longrightarrow> fmlookup (s_jobs s) k \<noteq> None"
proof -
  have "(k |\<in>| request_ids ps \<longrightarrow> fmlookup (s_requests s) k \<noteq> None)
      \<and> (k |\<in>| job_ids ps \<longrightarrow> fmlookup (s_jobs s) k \<noteq> None)"
    using assms(1)
  proof (induction ps)
    case (Cons e ps)
    then have "snap_record s e" by simp
    then show ?case using assms(2)
      by (cases rule: snap_record_cases) (use Cons in auto)
  qed simp
  then show "k |\<in>| request_ids ps \<Longrightarrow> fmlookup (s_requests s) k \<noteq> None"
    "k |\<in>| job_ids ps \<Longrightarrow> fmlookup (s_jobs s) k \<noteq> None" by simp_all
qed

lemma snap_attemptIDs:
  assumes "snap_state s ps t" "store_inv t"
  shows "x |\<in>| s_attemptIDs t \<longleftrightarrow> x |\<in>| attempt_ids ps"
proof -
  have "x |\<in>| s_attemptIDs t \<longleftrightarrow> (\<exists>rid. x \<in> a_ID ` set (attempts_of t rid))"
    using assms(2) by (simp add: store_inv_def attempts_inv_def)
  also have "\<dots> \<longleftrightarrow> x \<in> a_ID ` set (atts ps)" using assms(1) by (auto simp: snap_state_def)
  finally show ?thesis by (simp add: attempt_ids_atts)
qed

text \<open>The key of a record to come is not in use yet.\<close>

lemma snap_key_free:
  assumes "snap_state s ps t" "store_inv t" "dedup_inv s" "fmlookup (s_requests s) (r_ID q) = Some r"
    "r_DeliveryID q = r_DeliveryID r" "r_BodySHA256 q = r_BodySHA256 r" "r_ID q |\<notin>| request_ids ps"
  shows "key_free t q"
proof -
  have keys: "keys_inv t" using assms(2) by (simp add: store_inv_def)
  have t: "i \<noteq> r_ID q \<and> fmlookup (s_requests s) i = Some q'" if "fmlookup (s_requests t) i = Some q'" for i q'
    using that assms(1,7) by (auto simp: snap_state_def split: if_splits)
  have d: "if r_DeliveryID p \<noteq> [] then fmlookup (s_delivery s) (r_DeliveryID p) = Some i
      else fmlookup (s_body s) (r_BodySHA256 p) = Some i" if "fmlookup (s_requests s) i = Some p" for i p
    using assms(3) that by (simp add: dedup_inv_def)
  show ?thesis
  proof (cases "r_DeliveryID q = []")
    case True
    have "fmlookup (s_body t) (r_BodySHA256 q) \<noteq> Some i" for i
    proof
      assume "fmlookup (s_body t) (r_BodySHA256 q) = Some i"
      then obtain p where "fmlookup (s_requests t) i = Some p" "r_DeliveryID p = []" "r_BodySHA256 p = r_BodySHA256 q"
        using keys unfolding keys_inv_def by blast
      then show False using t [of i p] d [of i p] d [OF assms(4)] True assms(5,6) by simp
    qed
    then have "fmlookup (s_body t) (r_BodySHA256 q) = None" by (metis option.exhaust)
    then show ?thesis using True by (simp add: key_free_def)
  next
    case False
    have "fmlookup (s_delivery t) (r_DeliveryID q) \<noteq> Some i" for i
    proof
      assume "fmlookup (s_delivery t) (r_DeliveryID q) = Some i"
      then obtain p where "fmlookup (s_requests t) i = Some p" "r_DeliveryID p = r_DeliveryID q"
        using keys unfolding keys_inv_def by blast
      then show False using t [of i p] d [of i p] d [OF assms(4)] False assms(5) by simp
    qed
    then have "fmlookup (s_delivery t) (r_DeliveryID q) = None" by (metis option.exhaust)
    then show ?thesis using False by (simp add: key_free_def)
  qed
qed

lemma snap_fits:
  assumes "snap_state s ps t" "hydrated s e h" "snap_record s e" "next_ok ps e" "wf_store cd s" "wf_store cd t"
    "list_all (snap_record s) ps"
  shows "validateRecoveredEvent h = None" "validateStateLocked t h = None" "event_fits t h" "key_fresh t h"
proof -
  have inv: "store_inv s" "store_inv t" "jobs_inv s" "attempts_inv s"
    using assms(5,6) by (simp_all add: wf_store_def store_inv_def)
  have at: "e_At h \<noteq> zero_time" "e_Kind h = e_Kind e" "e_Job h = e_Job e"
      "e_EvictedRequestIDs h = []" "e_EvictedJobIDs h = []"
    using assms(2) snap_record_at [OF assms(3)] by (simp_all add: hydrated_def)
  note kept = records_retained [OF assms(7) inv(1)]
  have "validateRecoveredEvent h = None \<and> validateStateLocked t h = None \<and> event_fits t h \<and> key_fresh t h"
    using assms(3) inv(1)
  proof (cases rule: snap_record_cases)
    case (request r)
    then obtain q where q: "e_Request h = Some q" "q\<lparr>r_Body := []\<rparr> = r" "e_Attempt h = None"
      "validateRequestDigest q = None"
      using assms(2) by (auto simp: hydrated_def)
    have f: "r_ID q = r_ID r" "r_DeliveryID q = r_DeliveryID r" "r_BodySHA256 q = r_BodySHA256 r"
      using arg_cong [OF q(2), of r_ID] arg_cong [OF q(2), of r_DeliveryID]
        arg_cong [OF q(2), of r_BodySHA256] by simp_all
    have new: "r_ID q |\<notin>| request_ids ps" using assms(4) request(5) f(1) by (simp add: next_ok_def)
    then have none: "fmlookup (s_requests t) (r_ID q) = None" using assms(1) by (simp add: snap_state_def)
    have "key_free t q"
      using snap_key_free [OF assms(1) inv(2), of q r] assms(5) request(1) f new by (simp add: wf_store_def)
    moreover have "validateRecoveredEvent h = None"
      using request(2,4,6) q at f(1) by (simp add: validateRecoveredEvent_def)
    ultimately show ?thesis
      using request(2,6) q(1,3) at f(1) none
      by (simp add: validateStateLocked_def event_fits_def key_fresh_def)
  next
    case (job j)
    then have h: "e_Request h = None" "e_Attempt h = None" "e_Job h = Some j"
      using assms(2) by (simp_all add: hydrated_def)
    have "j_RequestID j |\<in>| request_ids ps" using assms(4) job(6) by (simp add: next_ok_def)
    then have there: "fmlookup (s_requests t) (j_RequestID j) \<noteq> None"
      using assms(1) kept(1) by (simp add: snap_state_def)
    have old: "j0 = j" if "fmlookup (s_jobs t) (j_ID j) = Some j0" for j0
      using that assms(1) job(1) by (auto simp: snap_state_def split: if_splits)
    have "j_RequestID j \<noteq> []" using jobs_invD(3) [OF inv(3) job(1)] requests_invD(2) inv(1)
      by (auto simp: store_inv_def)
    moreover have "forward_kind (j_State j) \<in> set job_kinds" using job(3) by (simp add: job_state_ok_def)
    ultimately have "validateRecoveredEvent h = None"
      using job(2,4) h at(1,2,4,5) by (simp add: validateRecoveredEvent_def forward_kind_simps)
    moreover have "validateStateLocked t h = None"
      using h there old by (auto simp: validateStateLocked_def split: option.splits)
    moreover have "event_fits t h"
      using h there old job(2,3) at(4) by (auto simp: event_fits_def)
    ultimately show ?thesis using h by (simp add: key_fresh_def)
  next
    case (attempt a)
    then obtain b where b: "e_Attempt h = Some b" "b\<lparr>a_ResponseBody := []\<rparr> = a" "e_Job h = None"
      "e_Request h = None"
      using assms(2) by (auto simp: hydrated_def)
    have f: "a_RequestID b = a_RequestID a" "a_JobID b = a_JobID a" "a_ID b = a_ID a" "a_Number b = a_Number a"
      using arg_cong [OF b(2), of a_RequestID] arg_cong [OF b(2), of a_JobID]
        arg_cong [OF b(2), of a_ID] arg_cong [OF b(2), of a_Number] by simp_all
    have va: "validateAttempt b = None" using attempt(2) f by (simp add: validateAttempt_def)
    have n: "a_RequestID a |\<in>| request_ids ps" "a_JobID a |\<in>| job_ids ps" "a_ID a |\<notin>| attempt_ids ps"
      using assms(4) attempt(7) by (simp_all add: next_ok_def)
    have there: "fmlookup (s_requests t) (a_RequestID a) \<noteq> None"
      using assms(1) n(1) kept(1) by (simp add: snap_state_def)
    obtain j where j: "fmlookup (s_jobs t) (a_JobID a) = Some j" "j_RequestID j = a_RequestID a"
      using attempts_invD(4) [OF inv(4) attempt(1)] assms(1) n(2) by (auto simp: snap_state_def)
    have id: "a_ID a |\<notin>| s_attemptIDs t" using snap_attemptIDs [OF assms(1) inv(2)] n(3) by simp
    have "validateRecoveredEvent h = None"
      using attempt(4) b va at(1,2,4,5) by (simp add: validateRecoveredEvent_def)
    moreover have "validateStateLocked t h = None"
      using b f there j id by (auto simp: validateStateLocked_def)
    moreover have "event_fits t h" using b f va id j at(4,5) by (simp add: event_fits_def)
    ultimately show ?thesis using b by (simp add: key_fresh_def)
  qed
  then show "validateRecoveredEvent h = None" "validateStateLocked t h = None" "event_fits t h" "key_fresh t h"
    by simp_all
qed

lemma replay_snapshot:
  assumes "codec_ok cd" "wf_store cd s" "list_all (snap_record s) ps" "list_all (snap_record s) es"
    "in_order ps es" "list_all2 (hydrated s) es hs" "list_all (loggable cd) hs" "list_all (sound_line cd) hs"
    "map e_Seq hs = map (\<lambda>k. start + of_nat k) [length ps..<length ps + length es]"
    "snap_state s ps t" "wf_store cd t" "refs_ok cd pre t"
    "s_seq t = (if ps = [] then 0 else start + of_nat (length ps) - 1)"
  shows "\<exists>t'. replay cd hs (length pre) False t = Inr (length pre + length (log_bytes cd hs), False, t')
    \<and> snap_state s (ps @ es) t' \<and> wf_store cd t' \<and> refs_ok cd (pre @ log_bytes cd hs) t'
    \<and> s_seq t' = (if ps @ es = [] then 0 else start + of_nat (length (ps @ es)) - 1)"
  using assms(3-13)
proof (induction es arbitrary: ps hs t pre)
  case Nil
  then show ?case by simp
next
  case (Cons e es)
  then obtain h hs' where hs: "hs = h # hs'" "hydrated s e h" "list_all2 (hydrated s) es hs'"
    by (auto simp: list_all2_Cons1)
  have sr: "snap_record s e" "next_ok ps e" and lg: "loggable cd h" "sound_line cd h"
    using Cons.prems hs(1) by simp_all
  have upt: "[length ps..<length ps + length (e # es)] = length ps # [length (ps @ [e])..<length (ps @ [e]) + length es]"
    by (simp add: upt_rec)
  have sq: "e_Seq h = start + of_nat (length ps)"
    "map e_Seq hs' = map (\<lambda>k. start + of_nat k) [length (ps @ [e])..<length (ps @ [e]) + length es]"
    using Cons.prems(7) unfolding upt hs(1) list.map list.inject by blast+
  have nz: "e_Seq h \<noteq> 0" "\<not> length (enc cd h) > maxEventBytes" using lg(2) by (simp_all add: sound_line_def)
  have "ps \<noteq> [] \<Longrightarrow> e_Seq h = s_seq t + 1" using Cons.prems(11) sq(1) by simp
  moreover have "ps = [] \<Longrightarrow> s_seq t = 0" using Cons.prems(11) by simp
  ultimately have seq: "s_seq t = 0 \<or> e_Seq h = s_seq t + 1" "s_seq t < e_Seq h"
    using nz(1) word_less_inc [of "s_seq t"] by (cases "ps = []"; simp add: word_gt_0)+
  note fits = snap_fits [OF Cons.prems(8) hs(2) sr assms(2) Cons.prems(9) Cons.prems(1)]
  obtain t' where t': "recover_record cd (enc cd h) (length pre) False t = Inr (False \<or> \<not> e_Snapshot h, t')"
    "view_of t' = view_of (applied h t)" "wf_store cd t'" "refs_ok cd (pre @ enc cd h) t'" "s_seq t' = e_Seq h"
    by (rule recover_record_fits [where seen = False, OF assms(1) lg(1) nz(1) seq(1) fits(1,2) _
          Cons.prems(9) fits(3,4) Cons.prems(10) refl seq(2)]) simp_all
  have snap: "e_Snapshot h" using hs(2) by (simp add: hydrated_def)
  have inv: "store_inv s" using assms(2) by (simp add: wf_store_def)
  have st: "snap_state s (ps @ [e]) t'"
    using snap_state_step [OF Cons.prems(8) hs(2) sr(1) inv] snap_state_cong [OF t'(2)] by blast
  have IH: "\<exists>u. replay cd hs' (length (pre @ enc cd h)) False t'
      = Inr (length (pre @ enc cd h) + length (log_bytes cd hs'), False, u)
    \<and> snap_state s ((ps @ [e]) @ es) u \<and> wf_store cd u \<and> refs_ok cd ((pre @ enc cd h) @ log_bytes cd hs') u
    \<and> s_seq u = (if (ps @ [e]) @ es = [] then 0 else start + of_nat (length ((ps @ [e]) @ es)) - 1)"
    by (rule Cons.IH [OF _ _ _ hs(3) _ _ sq(2) st t'(3,4)]) (use Cons.prems hs(1) sr t'(5) sq(1) in simp_all)
  have "replay cd hs (length pre) False t = replay cd hs' (length (pre @ enc cd h)) False t'"
    using t'(1) nz(2) snap by (simp add: hs(1))
  moreover have "length (pre @ enc cd h) + length (log_bytes cd hs') = length pre + length (log_bytes cd hs)"
    "(ps @ [e]) @ es = ps @ e # es" "(pre @ enc cd h) @ log_bytes cd hs' = pre @ log_bytes cd hs"
    by (simp_all add: hs(1))
  ultimately show ?case using IH by (simp only:)
qed

text \<open>A state that holds all the records of another has its view.\<close>

lemma fmap_get_ext:
  assumes "\<And>k. map_get d m k = map_get d n k" "\<And>k. fmlookup m k \<noteq> Some d" "\<And>k. fmlookup n k \<noteq> Some d"
  shows "m = n"
proof (rule fmap_ext)
  fix k
  show "fmlookup m k = fmlookup n k"
    using assms(1) [of k] assms(2,3) [of k]
    by (cases "fmlookup m k"; cases "fmlookup n k") (auto simp: map_get_def)
qed

lemma keys_determined:
  assumes "keys_inv s" "dedup_inv s"
  shows "fmlookup (s_delivery s) d = Some i \<longleftrightarrow>
      d \<noteq> [] \<and> (\<exists>r. fmlookup (s_requests s) i = Some r \<and> r_DeliveryID r = d)"
    "fmlookup (s_body s) h = Some i \<longleftrightarrow>
      (\<exists>r. fmlookup (s_requests s) i = Some r \<and> r_DeliveryID r = [] \<and> r_BodySHA256 r = h)"
proof -
  have k: "fmlookup (s_delivery s) d = Some i \<Longrightarrow>
        d \<noteq> [] \<and> (\<exists>r. fmlookup (s_requests s) i = Some r \<and> r_DeliveryID r = d)"
      "fmlookup (s_body s) h = Some i \<Longrightarrow>
        \<exists>r. fmlookup (s_requests s) i = Some r \<and> r_DeliveryID r = [] \<and> r_BodySHA256 r = h" for d h
    using assms(1) unfolding keys_inv_def by blast+
  have u: "if r_DeliveryID r \<noteq> [] then fmlookup (s_delivery s) (r_DeliveryID r) = Some i
      else fmlookup (s_body s) (r_BodySHA256 r) = Some i" if "fmlookup (s_requests s) i = Some r" for r
    using assms(2) that unfolding dedup_inv_def by blast
  show "fmlookup (s_delivery s) d = Some i \<longleftrightarrow>
      d \<noteq> [] \<and> (\<exists>r. fmlookup (s_requests s) i = Some r \<and> r_DeliveryID r = d)"
    using k(1) [of d] u by auto
  show "fmlookup (s_body s) h = Some i \<longleftrightarrow>
      (\<exists>r. fmlookup (s_requests s) i = Some r \<and> r_DeliveryID r = [] \<and> r_BodySHA256 r = h)"
    using k(2) [of h] u by auto
qed

lemma lookup_ext: "(\<And>i. fmlookup m k = Some i \<longleftrightarrow> fmlookup n k = Some i) \<Longrightarrow> fmlookup m k = fmlookup n k"
  by (metis option.exhaust)

lemma view_determined:
  assumes "wf_store cd s" "wf_store cd t" "s_opts t = s_opts s" "s_requests t = s_requests s"
    "s_requestBytes t = s_requestBytes s" "s_search t = s_search s" "s_jobs t = s_jobs s"
    "\<And>rid. attempts_of t rid = attempts_of s rid"
  shows "view_of t = view_of s"
proof -
  have inv: "jobs_inv s" "jobs_inv t" "attempts_inv s" "attempts_inv t" "keys_inv s" "keys_inv t"
    "dedup_inv s" "dedup_inv t"
    using assms(1,2) by (simp_all add: wf_store_def store_inv_def)
  have "s_attempts t = s_attempts s"
    using assms(8) inv(3,4) by (intro fmap_get_ext [of "[]"]) (simp_all add: attempts_inv_def)
  moreover have "s_attemptIDs t = s_attemptIDs s"
    using assms(8) inv(3,4) by (intro fset_eqI) (simp add: attempts_inv_def)
  moreover have "s_jobsByRequest t = s_jobsByRequest s"
  proof (rule fmap_get_ext [of "{||}"])
    show "jobs_of t rid = jobs_of s rid" for rid
      by (rule fset_eqI) (simp add: jobs_of_iff [OF inv(1)] jobs_of_iff [OF inv(2)] assms(7))
  qed (use inv(1,2) in \<open>simp_all add: jobs_inv_def\<close>)
  moreover have "s_delivery t = s_delivery s"
    by (rule fmap_ext, rule lookup_ext)
      (simp only: keys_determined(1) [OF inv(6,8)] keys_determined(1) [OF inv(5,7)] assms(4))
  moreover have "s_body t = s_body s"
    by (rule fmap_ext, rule lookup_ext)
      (simp only: keys_determined(2) [OF inv(6,8)] keys_determined(2) [OF inv(5,7)] assms(4))
  ultimately show ?thesis using assms(3-7) by (simp add: view_of_eq)
qed

lemma snap_complete:
  assumes "snap_state s ps t" "wf_store cd s" "wf_store cd t" "request_ids ps = fmdom (s_requests s)"
    "job_ids ps = fmdom (s_jobs s)" "\<And>rid. filter (\<lambda>a. a_RequestID a = rid) (atts ps) = attempts_of s rid"
  shows "view_of t = view_of s"
proof (rule view_determined [OF assms(2,3)])
  have dom: "fmdom (s_requestBytes s) = fmdom (s_requests s)" "fmdom (s_search s) = fmdom (s_requests s)"
    using assms(2) by (simp_all add: wf_store_def store_inv_def requests_inv_def)
  show "s_opts t = s_opts s" using assms(1) by (simp add: snap_state_def)
  have same: "m = n" if "\<And>k. fmlookup m k = (if k |\<in>| fmdom n then fmlookup n k else None)"
    for m n :: "(string, 'v) fmap"
    using that by (intro fmap_ext) (simp add: fmdom_notD)
  note st = assms(1) [unfolded snap_state_def assms(4,5)]
  show "s_requests t = s_requests s" "s_jobs t = s_jobs s" using st by (auto intro!: same)
  show "s_requestBytes t = s_requestBytes s" using st unfolding dom(1) [symmetric] by (auto intro!: same)
  show "s_search t = s_search s" using st unfolding dom(2) [symmetric] by (auto intro!: same)
  show "attempts_of t rid = attempts_of s rid" for rid using assms(1,6) by (simp add: snap_state_def)
qed

section \<open>The file of a compaction\<close>

theorem snapshot_replays:
  assumes "codec_ok cd" "wf_store cd s" "store_text s" "refs_ok cd (s_file s) s" "range_order (w_order w)"
    "write_snapshot cd w s (snapshot_start s (snapshotRecordsLocked w s)) 0
       \<lparr>p_bytes = [], p_requestRecord = fmempty, p_attemptRecord = fmempty\<rparr>
       (snapshotRecordsLocked w s) = Inr p"
  obtains hs where "p_bytes p = log_bytes cd hs" "list_all (loggable cd) hs"
    "\<And>u. list_all (sound_line cd) hs \<Longrightarrow> view_of u = view_of s \<Longrightarrow>
       s_seq u = s_seq s + of_nat (length (snapshotRecordsLocked w s)) \<Longrightarrow> replays cd hs u"
    "\<And>u. view_of u = view_of s \<Longrightarrow> s_requestRecord u = p_requestRecord p \<Longrightarrow>
       s_attemptRecord u = p_attemptRecord p \<Longrightarrow> refs_ok cd (p_bytes p) u"
proof -
  define es where "es = snapshotRecordsLocked w s"
  define start where "start = snapshot_start s es"
  have inv: "store_inv s" "attempts_inv s" "requests_inv s" using assms(2) by (simp_all add: wf_store_def store_inv_def)
  note recs = snapshotRecordsLocked_records [OF inv(1) assms(5), folded es_def]
  obtain hs where hs: "list_all2 (hydrated s) es hs" "list_all (loggable cd) hs"
    "map e_Seq hs = map (\<lambda>k. start + of_nat k) [0..<0 + length es]" "p_bytes p = log_bytes cd hs"
    "\<And>k ref. fmlookup (p_requestRecord p) k = Some ref \<Longrightarrow>
      \<exists>e h r. e \<in> set es \<and> hydrated s e h \<and> e_Request e = Some r \<and> r_ID r = k \<and> reads cd (p_bytes p) ref h"
    "\<And>k ref. fmlookup (p_attemptRecord p) k = Some ref \<Longrightarrow>
      \<exists>e h a. e \<in> set es \<and> hydrated s e h \<and> e_Attempt e = Some a \<and> a_ID a = k \<and> reads cd (p_bytes p) ref h"
    using write_snapshot_events [OF assms(6) [folded es_def, folded start_def] recs(2) assms(1) inv(1) assms(4,3)]
    by auto
  have len: "hs = [] \<longleftrightarrow> es = []" using list_all2_lengthD [OF hs(1)] by auto
  have "replays cd hs u" if sound: "list_all (sound_line cd) hs"
    and u: "view_of u = view_of s" "s_seq u = s_seq s + of_nat (length es)" for u
    unfolding replays_def
  proof
    fix f
    have o: "s_opts u = s_opts s" using u(1) by (simp add: view_of_eq)
    have wd: "withDefaults (s_opts s) = s_opts s" using assms(2) withDefaults_idem by (simp add: wf_store_def)
    let ?t = "new_store (s_opts s) f"
    have "snap_state s [] ?t" by (simp add: snap_state_def wd)
    then obtain t where t: "replay cd hs (length []) False ?t = Inr (length [] + length (log_bytes cd hs), False, t)"
      "snap_state s ([] @ es) t" "wf_store cd t" "refs_ok cd ([] @ log_bytes cd hs) t"
      "s_seq t = (if [] @ es = [] then 0 else start + of_nat (length ([] @ es)) - 1)"
      using replay_snapshot [OF assms(1,2) _ recs(2,1) hs(1,2) sound, of start ?t "[]"] hs(3)
      by (auto simp: wf_store_new)
    have "view_of t = view_of u"
      using snap_complete [OF _ assms(2) t(3) recs(4,5,3)] t(2) u(1) by simp
    moreover have "s_seq t = (if hs = [] then 0 else s_seq u)"
      using t(5) u(2) len by (simp add: start_def snapshot_start_def)
    ultimately show "\<exists>g seen t. replay cd hs 0 False (new_store (s_opts u) f) = Inr (g, seen, t)
        \<and> view_of t = view_of u \<and> wf_store cd t \<and> refs_ok cd (log_bytes cd hs) t
        \<and> s_seq t = (if hs = [] then 0 else s_seq u)"
      using t(1,3,4) by (auto simp: o intro: exI [of _ False])
  qed
  moreover have "refs_ok cd (p_bytes p) u" if u: "view_of u = view_of s"
    "s_requestRecord u = p_requestRecord p" "s_attemptRecord u = p_attemptRecord p" for u
  proof -
    have same: "s_opts u = s_opts s" "s_requests u = s_requests s" "s_requestBytes u = s_requestBytes s"
      "s_search u = s_search s" "s_attempts u = s_attempts s"
      using u(1) by (simp_all add: view_of_eq)
    note doms = write_snapshot_doms [OF assms(6) [folded es_def, folded start_def]]
      snapshot_ids [OF inv(1) assms(5), folded es_def]
    have "\<exists>ref n index. fmlookup (p_requestRecord p) i = Some ref \<and> fmlookup (s_requestBytes s) i = Some n
        \<and> fmlookup (s_search s) i = Some index \<and> request_at cd (p_bytes p) (s_opts s) ref r n index"
      if r: "fmlookup (s_requests s) i = Some r" for i r
    proof -
      have "i |\<in>| fmdom (p_requestRecord p)" using doms r by (simp add: fmdomI)
      then obtain ref where ref: "fmlookup (p_requestRecord p) i = Some ref" by (auto simp: fmlookup_dom_iff)
      then obtain e h r' where e: "e \<in> set es" "hydrated s e h" "e_Request e = Some r'" "r_ID r' = i"
        "reads cd (p_bytes p) ref h" using hs(5) by blast
      then have "snap_record s e" using recs(2) by (simp add: list_all_iff)
      then have "r' = r" using inv(1)
        by (cases rule: snap_record_cases) (use e(3,4) r in auto)
      then obtain q where q: "e_Request h = Some q" "q\<lparr>r_Body := []\<rparr> = r" "validateRequestDigest q = None"
        "fmlookup (s_requestBytes s) (r_ID r) = Some (int (length (r_Body q)))"
        "fmlookup (s_search s) (r_ID r) = Some (search_index (s_opts s) q)"
        using e(2,3) by (auto simp: hydrated_def)
      have i: "r_ID r = i" using \<open>r' = r\<close> e(4) by simp
      have "q\<lparr>r_Body := [], r_Headers := r_Headers r\<rparr> = r" using q(2) by (metis request.surjective request.update_convs(8) request.select_convs(8))
      then have "request_at cd (p_bytes p) (s_opts s) ref r (int (length (r_Body q))) (search_index (s_opts s) q)"
        unfolding request_at_def using e(5) q(1,3) by blast
      then show ?thesis using ref q(4,5) unfolding i by blast
    qed
    moreover have "\<exists>ref. fmlookup (p_attemptRecord p) (a_ID a) = Some ref \<and> attempt_at cd (p_bytes p) ref a"
      if a: "a \<in> set (attempts_of s rid)" for rid a
    proof -
      have "a_ID a |\<in>| fmdom (p_attemptRecord p)" using doms attempts_invD(5) [OF inv(2) a] by simp
      then obtain ref where ref: "fmlookup (p_attemptRecord p) (a_ID a) = Some ref" by (auto simp: fmlookup_dom_iff)
      then obtain e h a' where e: "e \<in> set es" "hydrated s e h" "e_Attempt e = Some a'" "a_ID a' = a_ID a"
        "reads cd (p_bytes p) ref h" using hs(6) by blast
      then have "snap_record s e" using recs(2) by (simp add: list_all_iff)
      then have "a' \<in> set (attempts_of s (a_RequestID a'))" using inv(1)
        by (cases rule: snap_record_cases) (use e(3) in auto)
      then have "a' = a" using a_ID_unique [OF inv(2) _ a e(4)] by blast
      then obtain b where b: "e_Attempt h = Some b" "b\<lparr>a_ResponseBody := []\<rparr> = a"
        using e(2,3) by (auto simp: hydrated_def)
      have "b\<lparr>a_ResponseBody := [], a_ResponseHeaders := a_ResponseHeaders a\<rparr> = a" using b(2) by auto
      then show ?thesis using ref e(5) b(1) unfolding attempt_at_def by blast
    qed
    ultimately show ?thesis unfolding refs_ok_def same u(2,3) by blast
  qed
  ultimately show ?thesis using that hs(2,4) unfolding es_def by blast
qed

end
