(* ===== verification/Store_Durable.thy ===== *)
theory Store_Durable
  imports Store_Snapshot
begin

text \<open>
  Durability: what the file of the store holds at any time. \<open>durable_inv\<close> says that the log of a
  healthy store replays to its view, and that the log of a store that has failed replays, after
  the unfinished line at its end is cut off, to its view, to the view with the event that was being
  written, or to the view before a redaction. \<open>text_step\<close> is a call of an operation with valid
  text, or a restart of the program on the file that is there.
\<close>

section \<open>The invariant\<close>

definition live_log :: "codec \<Rightarrow> store \<Rightarrow> bool" where
  "live_log cd s \<longleftrightarrow> s_replaced s = None \<and> refs_ok cd (s_file s) s
     \<and> (\<exists>es. s_file s = log_bytes cd es \<and> list_all (loggable cd) es
          \<and> (list_all (sound_line cd) es \<longrightarrow> replays cd es s))"

definition durable_view :: "store \<Rightarrow> store \<Rightarrow> bool" where
  "durable_view s u \<longleftrightarrow> view_of u = view_of s
     \<or> (\<exists>e. validated s e \<and> view_of u = view_of (applied e s))
     \<or> (\<exists>p. view_of s = view_of (redact_state p u))"

definition dead_log :: "codec \<Rightarrow> store \<Rightarrow> bool" where
  "dead_log cd s \<longleftrightarrow>
     (\<exists>es torn. disk s = log_bytes cd es @ torn \<and> newline \<notin> set torn \<and> list_all (loggable cd) es
        \<and> (list_all (sound_line cd) es \<longrightarrow> (\<exists>u. replays cd es u \<and> store_text u \<and> durable_view s u)))"

definition durable_inv :: "codec \<Rightarrow> store \<Rightarrow> bool" where
  "durable_inv cd s \<longleftrightarrow> wf_store cd s \<and> store_text s
     \<and> (if s_health s = None then live_log cd s else dead_log cd s)"

lemma durable_invD:
  assumes "durable_inv cd s" "s_health s = None"
  shows "wf_store cd s" "store_inv s" "store_text s" "s_replaced s = None" "refs_ok cd (s_file s) s"
    "\<exists>es. s_file s = log_bytes cd es \<and> list_all (loggable cd) es
       \<and> (list_all (sound_line cd) es \<longrightarrow> replays cd es s)"
  using assms by (auto simp: durable_inv_def live_log_def wf_store_def)

lemma disk_live [simp]: "s_replaced s = None \<Longrightarrow> disk s = s_file s"
  by (simp add: disk_def)

lemma validate_seq [simp]:
  "validateRecoveredEvent (e\<lparr>e_Seq := n\<rparr>) = validateRecoveredEvent e"
  "validateStateLocked s (e\<lparr>e_Seq := n\<rparr>) = validateStateLocked s e"
  by (simp_all add: validateRecoveredEvent_def validateStateLocked_def cong: option.case_cong if_cong)

lemma validated_view: "view_of s = view_of t \<Longrightarrow> validated s e = validated t e"
proof -
  assume v: "view_of s = view_of t"
  have "validateStateLocked s f = validateStateLocked t f" for f
    using v by (intro validateStateLocked_cong) (simp_all add: view_of_eq)
  moreover have "stamped w t e = (stamped w s e)\<lparr>e_Seq := s_seq t + 1\<rparr>" for w
    by (simp add: stamped_def)
  ultimately show ?thesis unfolding validated_def by simp
qed

text \<open>The invariant reads the retained state, the ring, the file, the number and the health.\<close>

lemma durable_frame:
  assumes "durable_inv cd s" "retained_of t = retained_of s" "s_opts t = s_opts s" "s_ring t = s_ring s"
    "s_ringBytes t = s_ringBytes s" "s_file t = s_file s" "s_replaced t = s_replaced s" "s_seq t = s_seq s"
    "s_health t = s_health s"
  shows "durable_inv cd t"
proof -
  have v: "view_of s = view_of t" using view_of_retained assms(2,3) by metis
  have "wf_store cd t" "store_text t"
    using assms(1) wf_store_cong [OF assms(2-5)] store_text_view [OF v] by (simp_all add: durable_inv_def)
  moreover have "live_log cd t" if "live_log cd s"
    using that replays_cong [OF v assms(8) [symmetric]] refs_ok_retained [OF assms(2,3)]
    unfolding live_log_def assms(6,7) by blast
  moreover have "dead_log cd t" if "dead_log cd s"
  proof -
    have "durable_view t u" if "durable_view s u" for u
    proof -
      have "view_of (applied e s) = view_of (applied e t)" for e
        using applied_view_cong [OF v, of e zero_ref] by (simp add: applied_def)
      then show ?thesis using that v validated_view [OF v] unfolding durable_view_def by metis
    qed
    moreover have "disk t = disk s" unfolding disk_def assms(6,7) by (rule refl)
    ultimately show ?thesis using that unfolding dead_log_def by metis
  qed
  ultimately show ?thesis using assms(1,9) by (simp add: durable_inv_def)
qed

text \<open>A store whose file replays to what it holds stays durable when it is poisoned.\<close>

lemma dead_log_intro:
  assumes "disk t = log_bytes cd es @ torn" "newline \<notin> set torn" "list_all (loggable cd) es"
    "list_all (sound_line cd) es \<Longrightarrow> replays cd es u" "store_text u" "durable_view t u"
  shows "dead_log cd t"
  using assms unfolding dead_log_def by blast

lemma durable_poisoned:
  assumes "durable_inv cd s" "s_health s = None"
  shows "durable_inv cd (s\<lparr>s_health := Some h\<rparr>)"
proof -
  let ?t = "s\<lparr>s_health := Some h\<rparr>"
  obtain es where es: "s_file s = log_bytes cd es" "list_all (loggable cd) es"
    "list_all (sound_line cd) es \<Longrightarrow> replays cd es s" using durable_invD(6) [OF assms] by blast
  have v: "view_of ?t = view_of s" by (simp add: view_of_eq)
  have "dead_log cd ?t"
    using durable_invD(3,4) [OF assms] es v
    by (intro dead_log_intro [of ?t cd es "[]" s]) (simp_all add: disk_def durable_view_def)
  moreover have "wf_store cd ?t" "store_text ?t"
    using durable_invD(1,3) [OF assms] wf_store_cong [of ?t s] store_text_view [OF v]
    by (simp_all add: retained_of_def)
  ultimately show ?thesis by (simp add: durable_inv_def)
qed

section \<open>Compaction\<close>

lemma compactLocked_disk:
  assumes "compactLocked cd w s = (t, x)" "s_replaced s = None"
  obtains (old) "disk t = s_file s" "x \<noteq> None"
  | (new) p where "disk t = p_bytes p" "write_snapshot cd w s (snapshot_start s (snapshotRecordsLocked w s)) 0
       \<lparr>p_bytes = [], p_requestRecord = fmempty, p_attemptRecord = fmempty\<rparr> (snapshotRecordsLocked w s) = Inr p"
proof -
  let ?rs = "snapshotRecordsLocked w s"
  show ?thesis
  proof (cases "disk t = s_file s \<and> x \<noteq> None")
    case False
    then obtain p where p: "write_snapshot cd w s (snapshot_start s ?rs) 0
        \<lparr>p_bytes = [], p_requestRecord = fmempty, p_attemptRecord = fmempty\<rparr> ?rs = Inr p"
      "install_snapshot w ?rs p s = (t, x)"
      using assms by (auto simp: compactLocked_def Let_def disk_def split: if_splits option.splits sum.splits)
    have fe: "w_fails w RenameTemp \<noteq> None \<Longrightarrow> first_error w [RenameTemp] \<noteq> None"
      by (auto simp: first_error_def sys_error_def)
    have "disk t = p_bytes p"
      using p(2) False assms(2) fe unfolding install_snapshot_def Let_def
      by (auto simp: disk_def sys_error_def split: if_splits option.splits)
    then show ?thesis using new p(1) by blast
  qed (use old in blast)
qed

lemma compacted_live:
  assumes "compactLocked cd w s = (t, None)" "codec_ok cd" "wf_store cd s" "store_text s"
    "refs_ok cd (s_file s) s" "range_order (w_order w)"
  shows "live_log cd t"
  using assms(1)
proof (cases rule: compactLocked_cases)
  case (installed p)
  then have t: "s_file t = p_bytes p" "s_replaced t = None" "s_requestRecord t = p_requestRecord p"
    "s_attemptRecord t = p_attemptRecord p" "view_of t = view_of s"
    "s_seq t = s_seq s + of_nat (length (snapshotRecordsLocked w s))"
    by (simp_all add: snapshot_installed_def view_of_eq)
  show ?thesis
    by (rule snapshot_replays [OF assms(2-6)]) (use installed t in \<open>auto simp: snapshot_installed_def live_log_def\<close>)
qed simp

lemma compacted_dead:
  assumes "compactLocked cd w s = (t, Some h)" "codec_ok cd" "wf_store cd s" "store_text s"
    "refs_ok cd (s_file s) s" "range_order (w_order w)" "s_replaced s = None"
    "s_file s = log_bytes cd es" "list_all (loggable cd) es"
    "list_all (sound_line cd) es \<Longrightarrow> replays cd es u" "store_text u" "durable_view s u"
  shows "dead_log cd (poisoned x t)"
proof -
  have v: "view_of t = view_of s" by (rule compactLocked_view [OF assms(1)])
  have vp: "view_of (poisoned x t) = view_of s" using v by (simp add: poisoned_def view_of_eq)
  have dp: "disk (poisoned x t) = disk t" by (simp add: poisoned_def disk_def split: option.split)
  from assms(1,7) show ?thesis
  proof (cases rule: compactLocked_disk)
    case old
    have "view_of (applied e s) = view_of (applied e (poisoned x t))" for e
      using applied_view_cong [OF vp [symmetric], of e zero_ref] by (simp add: applied_def)
    then have "durable_view (poisoned x t) u"
      using assms(12) vp validated_view [OF vp] unfolding durable_view_def by metis
    then show ?thesis
      using old assms(8-11) by (intro dead_log_intro [of _ cd es "[]" u]) (simp_all add: dp)
  next
    case (new p)
    define u' where "u' = s\<lparr>s_seq := s_seq s + of_nat (length (snapshotRecordsLocked w s))\<rparr>"
    have u': "view_of u' = view_of s" "s_seq u' = s_seq s + of_nat (length (snapshotRecordsLocked w s))"
      by (simp_all add: u'_def view_of_eq)
    obtain hs where "p_bytes p = log_bytes cd hs" "list_all (loggable cd) hs"
      "list_all (sound_line cd) hs \<Longrightarrow> replays cd hs u'"
      by (rule snapshot_replays [OF assms(2-6) new(2)]) (use u' in blast)
    then show ?thesis
      using new(1) u'(1) vp store_text_view [OF u'(1)] assms(4)
      by (intro dead_log_intro [of _ cd hs "[]" u']) (simp_all add: dp durable_view_def)
  qed
qed

section \<open>An append\<close>

lemma logged_log:
  assumes "admitted cd w e s b"
  shows "s_file (logged cd w e b s) = s_file s @ enc cd (stamped w s e)" "s_seq (logged cd w e b s) =
    (if s_seq s + 1 > s_seq s then s_seq s + 1 else s_seq s + 1)"
  using assms by (simp_all add: admitted_def enc_def logged_def Let_def)

lemma append_durable:
  assumes "appendLocked cd w e s = (t, x)" "codec_ok cd" "durable_inv cd s" "self_contained e"
    "key_fresh s e" "event_ok e" "range_order (w_order w)"
  shows "durable_inv cd t"
proof (cases "s_health s")
  case (Some h)
  then have "t = s" using assms(1) by (auto simp: appendLocked_def split: if_splits)
  then show ?thesis using assms(3) by simp
next
  case None
  note live = durable_invD [OF assms(3) None]
  let ?e = "stamped w s e"
  obtain es where es: "s_file s = log_bytes cd es" "list_all (loggable cd) es"
    "list_all (sound_line cd) es \<Longrightarrow> replays cd es s" using live(6) by blast
  have wf: "wf_store cd t" using appendLocked_wf [OF assms(1) live(1) assms(4,5,7)] .
  have okE: "event_ok ?e" using assms(6) by (simp add: event_ok_def)
  have grown: "replays cd (es @ [?e]) u" if "admitted cd w e s b" "list_all (sound_line cd) (es @ [?e])"
    "view_of u = view_of (applied e s)" "s_seq u = s_seq s + 1" for b u
    using that okE assms(2,4,5) live(1) es(3)
    by (intro replays_snoc [of cd ?e es s]) (auto simp: admitted_def loggable_def key_fresh_def)
  have lg: "list_all (loggable cd) (es @ [?e])" if "admitted cd w e s b" for b
    using that es(2) okE by (auto simp: admitted_def loggable_def)
  have L: "wf_store cd (logged cd w e b s)" "store_text (logged cd w e b s)"
    "refs_ok cd (s_file (logged cd w e b s)) (logged cd w e b s)" "s_replaced (logged cd w e b s) = None"
    "s_file (logged cd w e b s) = log_bytes cd (es @ [?e])" "s_seq (logged cd w e b s) = s_seq s + 1"
    "s_health (logged cd w e b s) = None"
    if a: "admitted cd w e s b" for b
  proof -
    show "s_file (logged cd w e b s) = log_bytes cd (es @ [?e])"
      using logged_log(1) [OF a] es(1) by simp
    show "s_replaced (logged cd w e b s) = None" "s_health (logged cd w e b s) = None"
      using live(4) None by simp_all
    show "s_seq (logged cd w e b s) = s_seq s + 1" using logged_log(2) [OF a] by simp
    show "wf_store cd (logged cd w e b s)"
      using live(1) logged_inv [OF live(2) a assms(4)] logged_dedup [OF live(2) _ a assms(4,5)] logged_ring_inv
      by (simp add: wf_store_def)
    show "store_text (logged cd w e b s)"
      using store_text_view [OF logged_view] store_text_applied [OF live(3,2) assms(6)] by blast
    let ?s = "s\<lparr>s_seq := s_seq s + 1, s_file := s_file s @ b @ [newline]\<rparr>"
    let ?ref = "\<lparr>ref_offset = length (s_file s), ref_length = length b + 1, ref_seq = s_seq s + 1\<rparr>"
    have r: "retained_of ?s = retained_of s" "s_opts ?s = s_opts s" by (simp_all add: retained_of_def)
    have b: "enc cd ?e = b @ [newline]" using a by (simp add: admitted_def enc_def)
    have "refs_ok cd (s_file s @ enc cd ?e) (apply_event cd ?e ?ref ?s)"
    proof (rule refs_ok_event)
      show "refs_ok cd (s_file s @ enc cd ?e) ?s"
        using refs_ok_grow [OF live(5)] refs_ok_retained [OF r] by simp
      show "store_inv ?s" using live(2) store_inv_retained [OF r(1)] by simp
      show "event_fits ?s ?e"
        using validated_fits [OF live(2)] a assms(4) event_fits_retained [OF r(1)] by (simp add: admitted_def)
      show "reads cd (s_file s @ enc cd ?e) ?ref ?e"
        using reads_written [OF assms(2), of ?e "s_file s" "[]"] lg [OF a] by (simp add: b)
      show "validateRecoveredEvent ?e = None" using a by (simp add: admitted_def)
    qed
    then show "refs_ok cd (s_file (logged cd w e b s)) (logged cd w e b s)"
      using refs_ok_cong [of "logged cd w e b s" "apply_event cd ?e ?ref ?s"]
      by (simp add: b) (simp add: logged_def Let_def)
  qed
  from assms(1) show ?thesis
  proof (cases rule: appendLocked_cases)
    case (refused h)
    have vt: "view_of t = view_of s" using refused_same [OF refused(2)] view_of_retained by blast
    have held: "store_text t" using store_text_view [OF vt] live(3) by simp
    from refused(2) consider "t = s" | h where "t = s\<lparr>s_health := Some h\<rparr>"
      | b n h where "admitted cd w e s b" "t = s\<lparr>s_seq := s_seq s + 1,
          s_file := s_file s @ take n (b @ [newline]), s_health := Some h\<rparr>"
      unfolding refused_def by blast
    then show ?thesis
    proof cases
      case 1
      then show ?thesis using assms(3) by simp
    next
      case (2 h)
      then show ?thesis using durable_poisoned [OF assms(3) None] by simp
    next
      case (3 b n h)
      have "Marshal cd ?e = Some b" using 3(1) by (simp add: admitted_def)
      then have nl: "newline \<notin> set b" by (rule codec_okD(2) [OF assms(2)])
      have enc: "enc cd ?e = b @ [newline]" using 3(1) by (simp add: admitted_def enc_def)
      have "dead_log cd t"
      proof (cases "n \<le> length b")
        case True
        have "newline \<notin> set (take n b)" using nl by (meson in_set_takeD)
        then show ?thesis
          using 3(2) True es live(3,4) vt
          by (intro dead_log_intro [of t cd es "take n b" s]) (simp_all add: disk_def durable_view_def)
      next
        case False
        define u where "u = (applied e s)\<lparr>s_seq := s_seq s + 1\<rparr>"
        have u: "view_of u = view_of (applied e s)" "s_seq u = s_seq s + 1" by (simp_all add: u_def view_of_eq)
        have "validated s e" using 3(1) unfolding validated_def admitted_def by blast
        moreover have "view_of (applied e s) = view_of (applied e t)"
          using applied_view_cong [OF vt [symmetric], of e zero_ref] by (simp add: applied_def)
        ultimately have d: "durable_view t u"
          using validated_view [OF vt] u(1) unfolding durable_view_def by metis
        have "store_text u"
          using store_text_view [OF u(1)] store_text_applied [OF live(3,2) assms(6)] by blast
        then show ?thesis
          using d 3 False es(1) live(4) lg [OF 3(1)] grown [OF 3(1) _ u] enc
          by (intro dead_log_intro [of t cd "es @ [?e]" "[]" u]) (simp_all add: disk_def)
      qed
      then show ?thesis using wf held 3(2) by (simp add: durable_inv_def)
    qed
  next
    case (stored b)
    have "replays cd (es @ [?e]) (logged cd w e b s)" if "list_all (sound_line cd) (es @ [?e])"
      using grown [OF stored(1) that logged_view L(6) [OF stored(1)]] .
    then have "live_log cd (logged cd w e b s)"
      using L(3-5) [OF stored(1)] lg [OF stored(1)] unfolding live_log_def
      by (intro conjI exI [of _ "es @ [?e]"]) (simp_all del: list_all_append)
    then have "durable_inv cd (logged cd w e b s)"
      using L(1,2,7) [OF stored(1)] by (simp add: durable_inv_def)
    then show ?thesis unfolding stored(3) by (rule durable_frame) simp_all
  next
    case (compacted b v)
    note l = L [OF compacted(1)]
    have v: "view_of v = view_of (logged cd w e b s)" by (rule compactLocked_view [OF compacted(3)])
    have "durable_inv cd v"
      using compacted_live [OF compacted(3) assms(2) l(1-3) assms(7)] compactLocked_wf [OF compacted(3) l(1) assms(7)]
        store_text_view [OF v] l(2,7) compactLocked_same [OF compacted(3)]
      by (simp add: durable_inv_def same_but_log_def)
    then show ?thesis unfolding compacted(4) by (rule durable_frame) simp_all
  next
    case (failed b v h)
    note l = L [OF failed(1)]
    have v: "view_of v = view_of (logged cd w e b s)" by (rule compactLocked_view [OF failed(3)])
    have "dead_log cd (poisoned h v)"
      using failed(1) lg grown [OF failed(1) _ logged_view l(6)]
      by (intro compacted_dead [OF failed(3) assms(2) l(1-3) assms(7) l(4,5) _ _ l(2)]) (auto simp: durable_view_def)
    moreover have "store_text (poisoned h v)"
      using store_text_view [OF v] l(2) store_text_view [of "poisoned h v" v] by (simp add: poisoned_def view_of_eq)
    ultimately show ?thesis using wf failed(4) by (simp add: durable_inv_def poisoned_def)
  qed
qed

section \<open>The operations\<close>

text \<open>The text of the arguments of a call.\<close>

definition call_text :: "call \<Rightarrow> bool" where
  "call_text c \<longleftrightarrow>
     (case c of
       AcceptCall r jo \<Rightarrow> request_ok r \<and> pred_option job_ok jo
     | EnqueueCall j \<Rightarrow> job_ok j
     | ClaimCall owner now lease \<Rightarrow> utf8_valid owner
     | RecordCall i owner a st message availableAt \<Rightarrow> attempt_ok a \<and> utf8_valid message
     | FinishCall i owner st message \<Rightarrow> utf8_valid message
     | _ \<Rightarrow> True)"

lemma event_ok_job_event [simp]:
  "job_state_ok st \<Longrightarrow> event_ok (job_event st j) = job_ok j"
  "job_state_ok st \<Longrightarrow> event_ok ((job_event st j)\<lparr>e_EvictedJobIDs := xs\<rparr>)
    \<longleftrightarrow> job_ok j \<and> list_all utf8_valid xs"
  "job_state_ok st \<Longrightarrow> event_ok ((job_event st j)\<lparr>e_Attempt := Some a\<rparr>) \<longleftrightarrow> job_ok j \<and> attempt_ok a"
  by (auto simp: event_ok_def job_event_def event_ok_kinds(3))

lemma event_ok_capture [simp]:
  "event_ok (capture_event r jo xs) \<longleftrightarrow> request_ok r \<and> pred_option job_ok jo \<and> list_all utf8_valid xs"
proof -
  have "utf8_valid ''capture.accepted''" by code_simp
  then show ?thesis by (auto simp: event_ok_def capture_event_def simp del: utf8_valid.simps)
qed

lemma job_ok_updates [simp]:
  "job_ok j \<Longrightarrow> utf8_valid owner \<Longrightarrow> job_ok (lease_job owner now lease j)"
  "job_ok j \<Longrightarrow> job_ok (recovered_job now j)"
  "job_ok j \<Longrightarrow> st \<in> set result_states \<Longrightarrow> utf8_valid m \<Longrightarrow> job_ok (finished_job j st m now av)"
proof -
  have st: "list_all utf8_valid [''leased'', ''pending'', ''retrying'', ''succeeded'', ''fatal'', ''dead-letter'']"
    by code_simp
  have nil: "utf8_valid []" by simp
  show "job_ok j \<Longrightarrow> utf8_valid owner \<Longrightarrow> job_ok (lease_job owner now lease j)"
    "job_ok j \<Longrightarrow> job_ok (recovered_job now j)"
    "job_ok j \<Longrightarrow> st \<in> set result_states \<Longrightarrow> utf8_valid m \<Longrightarrow> job_ok (finished_job j st m now av)"
    using st nil by (auto simp: job_ok_def lease_job_def recovered_job_def finished_job_def result_states_def
        Let_def simp del: utf8_valid.simps)
qed

lemma job_ok_poison:
  "job_ok j \<Longrightarrow> utf8_valid m \<Longrightarrow> job_ok (j\<lparr>j_State := ''poison'', j_Error := m, j_UpdatedAt := now,
     j_FinishedAt := now, j_LeaseOwner := [], j_LeaseExpiresAt := zero_time\<rparr>)"
proof -
  have nil: "utf8_valid []" by simp
  have "utf8_valid ''poison''" by code_simp
  then show "job_ok j \<Longrightarrow> utf8_valid m \<Longrightarrow> job_ok (j\<lparr>j_State := ''poison'', j_Error := m, j_UpdatedAt := now,
     j_FinishedAt := now, j_LeaseOwner := [], j_LeaseExpiresAt := zero_time\<rparr>)"
    using nil by (auto simp: job_ok_def simp del: utf8_valid.simps)
qed

lemma text_ids:
  assumes "store_text s" "store_inv s"
  shows "fmlookup (s_requests s) i = Some r \<Longrightarrow> utf8_valid i" "fmlookup (s_jobs s) k = Some j \<Longrightarrow> utf8_valid k"
    "fmlookup (s_jobs s) k = Some j \<Longrightarrow> job_ok j"
  using assms requests_invD(1) [of s i r] jobs_invD(1) [of s k j]
  by (auto simp: store_text_def store_inv_def request_ok_def job_ok_def)

lemma evictions_text:
  assumes "captureEvictionsLocked w s n = Inr xs" "store_text s" "store_inv s" "range_order (w_order w)"
  shows "list_all utf8_valid xs"
proof -
  have "utf8_valid x" if x: "x \<in> set xs" for x
  proof -
    obtain i where i: "i |\<in>| fmdom (s_requests s)" "x = r_ID (map_get zero_request (s_requests s) i)"
    proof (cases "requests_len s + n \<le> MaxCaptures (s_opts s)")
      case False
      then have "xs = map r_ID (take (nat (requests_len s + n - MaxCaptures (s_opts s)))
          (sort_slice (\<lambda>a b. r_ReceivedAt a < r_ReceivedAt b) (map (map_get zero_request (s_requests s))
            (filter (\<lambda>i. requestTerminalLocked s (r_ID (map_get zero_request (s_requests s) i)))
              (range_keys (w_order w) (s_requests s))))))"
        using assms(1) by (simp add: captureEvictionsLocked_def Let_def split: if_splits)
      then show ?thesis
        using x assms(4) by (auto dest!: in_set_takeD intro: that)
    qed (use x assms(1) in \<open>simp add: captureEvictionsLocked_def\<close>)
    then obtain r where "fmlookup (s_requests s) i = Some r" by (auto simp: fmlookup_dom_iff)
    then show ?thesis
      using i(2) text_ids(1) [OF assms(2,3)] requests_invD(1) [of s i r] assms(3)
      by (simp add: map_get_def store_inv_def)
  qed
  then show ?thesis by (simp add: list_all_iff)
qed

lemma enqueue_eviction_text:
  assumes "enqueue_eviction w s rid = Inr xs" "store_text s" "store_inv s" "range_order (w_order w)"
  shows "list_all utf8_valid xs"
proof -
  have "utf8_valid x" if x: "x \<in> set xs" for x
  proof -
    obtain c cs where c: "sort_slice by_CreatedAt (filter (\<lambda>j. terminalState (j_State j))
        (map (map_get zero_job (s_jobs s)) (range_fset (w_order w) (jobs_of s rid)))) = c # cs" "x = j_ID c"
      using x assms(1) by (auto simp: enqueue_eviction_def Let_def split: if_splits list.splits)
    then have "c \<in> set (sort_slice by_CreatedAt (filter (\<lambda>j. terminalState (j_State j))
        (map (map_get zero_job (s_jobs s)) (range_fset (w_order w) (jobs_of s rid)))))" by simp
    then obtain i where i: "i |\<in>| jobs_of s rid" "c = map_get zero_job (s_jobs s) i"
      using assms(4) by auto
    then obtain j where "fmlookup (s_jobs s) i = Some j"
      using jobs_of_iff [of s i rid] assms(3) by (auto simp: store_inv_def)
    then show ?thesis
      using i(2) c(2) text_ids(2) [OF assms(2,3)] jobs_invD(1) [of s i j] assms(3)
      by (simp add: map_get_def store_inv_def)
  qed
  then show ?thesis by (simp add: list_all_iff)
qed

section \<open>Every operation keeps the store durable\<close>

named_theorems keep_durable

lemma job_state_ok_result [simp]: "st \<in> set result_states \<Longrightarrow> job_state_ok st"
  by (auto simp: result_states_def)

lemma error_only_durable:
  assumes "error_only (appendLocked cd w e s) = (t, x)" "codec_ok cd" "durable_inv cd s"
    "self_contained e" "key_fresh s e" "event_ok e" "range_order (w_order w)"
  shows "durable_inv cd t"
  using assms append_durable [of cd w e s]
  by (cases "appendLocked cd w e s") (auto simp: error_only_def split: sum.splits)

lemma durable_parts:
  assumes "durable_inv cd s"
  shows "wf_store cd s" "store_inv s" "store_text s"
  using assms by (simp_all add: durable_inv_def wf_store_def)

lemma Accept_durable [keep_durable]:
  assumes "Accept cd w r jo s = (t, out)" "codec_ok cd" "durable_inv cd s" "call_text (AcceptCall r jo)"
    "range_order (w_order w)"
  shows "durable_inv cd t"
proof -
  note d = durable_parts [OF assms(3)]
  have r: "request_ok r" "pred_option job_ok jo" using assms(4) by (simp_all add: call_text_def)
  show ?thesis
  proof (cases "duplicateLocked s r")
    case None
    then have "key_free s r" by (simp add: key_free_duplicateLocked)
    then have "durable_inv cd u" if "appendLocked cd w (capture_event r jo xs) s = (u, x)"
      "captureEvictionsLocked w s 1 = Inr xs" for u x xs
      using append_durable [OF that(1) assms(2,3)] evictions_text [OF that(2) d(3,2) assms(5)] r assms(5)
      by simp
    then show ?thesis
      using assms(1,3) None
      by (auto simp: Accept_def accept_new_def split: if_splits option.splits sum.splits prod.splits)
  next
    case (Some a)
    obtain i res where a: "a = (i, res)" by fastforce
    obtain q where "fmlookup (s_requests s) i = Some q"
      using duplicateLocked_SomeD [OF Some [unfolded a] wf_storeD(8) [OF d(1)]] by metis
    then have i: "utf8_valid i" by (rule text_ids(1) [OF d(3,2)])
    have "durable_inv cd u" if "appendLocked cd w (job_event ''pending'' (j\<lparr>j_RequestID := i\<rparr>)) s = (u, x)"
      "jo = Some j" for u x j
      using append_durable [OF that(1) assms(2,3)] r(2) that(2) i assms(5)
      by (simp add: job_ok_def)
    then show ?thesis
      using assms(1,3) Some a
      by (auto simp: Accept_def accept_duplicate_def Let_def split: if_splits option.splits sum.splits prod.splits)
  qed
qed

lemma Enqueue_durable [keep_durable]:
  assumes "Enqueue cd w j s = (t, x)" "codec_ok cd" "durable_inv cd s" "call_text (EnqueueCall j)"
    "range_order (w_order w)"
  shows "durable_inv cd t"
proof -
  note d = durable_parts [OF assms(3)]
  have "durable_inv cd t"
    if "error_only (appendLocked cd w ((job_event ''pending'' j)\<lparr>e_EvictedJobIDs := xs\<rparr>) s) = (t, x)"
      "enqueue_eviction w s (j_RequestID j) = Inr xs" for xs
    using error_only_durable [OF that(1) assms(2,3)] enqueue_eviction_text [OF that(2) d(3,2) assms(5)]
      assms(4,5) by (simp add: call_text_def)
  then show ?thesis
    using assms(1,3) by (auto simp: Enqueue_def split: if_splits sum.splits)
qed

lemma ClaimNextJob_durable [keep_durable]:
  assumes "ClaimNextJob cd w owner now lease s = (t, x)" "codec_ok cd" "durable_inv cd s"
    "call_text (ClaimCall owner now lease)" "range_order (w_order w)"
  shows "durable_inv cd t"
proof (cases "sort_slice claim_order (filter (eligible now) (all_jobs w s))")
  case Nil
  then show ?thesis using assms(1,3) by (simp add: ClaimNextJob_def)
next
  case (Cons c cs)
  note d = durable_parts [OF assms(3)]
  have "c \<in> set (sort_slice claim_order (filter (eligible now) (all_jobs w s)))" using Cons by simp
  then have "fmlookup (s_jobs s) (j_ID c) = Some c"
    using all_jobs_iff [OF assms(5) wf_storeD(6) [OF d(1)]] by auto
  then have "job_ok (lease_job owner now lease c)"
    using text_ids(3) [OF d(3,2)] assms(4) by (simp add: call_text_def)
  then have "durable_inv cd u" if "appendLocked cd w (job_event ''leased'' (lease_job owner now lease c)) s = (u, y)"
    for u y using append_durable [OF that assms(2,3)] assms(5) by simp
  then show ?thesis
    using assms(1) Cons by (auto simp: ClaimNextJob_def Let_def split: sum.splits prod.splits)
qed

lemma recover_jobs_durable:
  assumes "codec_ok cd" "range_order (w_order w)"
  shows "recover_jobs cd w now js s = (t, x) \<Longrightarrow> durable_inv cd s \<Longrightarrow> list_all job_ok js \<Longrightarrow> durable_inv cd t"
proof (induction js arbitrary: s)
  case (Cons j js)
  show ?case
  proof (cases "appendLocked cd w (job_event ''pending'' (recovered_job now j)) s")
    case (Pair u y)
    then have "durable_inv cd u"
      using append_durable [OF Pair assms(1) Cons.prems(2)] Cons.prems(3) assms(2) by simp
    then show ?thesis using Pair Cons by (auto split: sum.splits)
  qed
qed simp

lemma RecoverLeases_durable [keep_durable]:
  assumes "RecoverLeases cd w now s = (t, x)" "codec_ok cd" "durable_inv cd s" "range_order (w_order w)"
  shows "durable_inv cd t"
proof -
  note d = durable_parts [OF assms(3)]
  have "list_all job_ok (stale_jobs w s)"
    using all_jobs_iff [OF assms(4) wf_storeD(6) [OF d(1)]] text_ids(3) [OF d(3,2)]
    by (auto simp: stale_jobs_def list_all_iff)
  then show ?thesis
    using recover_jobs_durable [OF assms(2,4)] assms(1,3) unfolding RecoverLeases_def by blast
qed

lemma leased_by_lookup: "leased_by s i owner = Some j \<Longrightarrow> fmlookup (s_jobs s) i = Some j"
  by (auto simp: leased_by_def split: option.splits if_splits)

lemma RecordAttempt_durable [keep_durable]:
  assumes "RecordAttempt cd w i owner a st msg av s = (t, x)" "codec_ok cd" "durable_inv cd s"
    "call_text (RecordCall i owner a st msg av)" "range_order (w_order w)"
  shows "durable_inv cd t"
proof (cases "leased_by s i owner")
  case None
  then show ?thesis using assms by (auto simp: RecordAttempt_def)
next
  case (Some j)
  note d = durable_parts [OF assms(3)]
  have j: "job_ok j" using text_ids(3) [OF d(3,2) leased_by_lookup [OF Some]] .
  have "durable_inv cd t" if "error_only (appendLocked cd w
      ((job_event st (finished_job j st msg now av))\<lparr>e_Attempt := Some a\<rparr>) s) = (t, x)"
    "st \<in> set result_states" for now
    using error_only_durable [OF that(1) assms(2,3)] that(2) j assms(4,5) by (simp add: call_text_def)
  then show ?thesis
    using assms(1,3) by (auto simp: RecordAttempt_def Some Let_def split: if_splits)
qed

lemma FinishWithoutAttempt_durable [keep_durable]:
  assumes "FinishWithoutAttempt cd w i owner st msg s = (t, x)" "codec_ok cd" "durable_inv cd s"
    "call_text (FinishCall i owner st msg)" "range_order (w_order w)"
  shows "durable_inv cd t"
proof (cases "leased_by s i owner")
  case None
  then show ?thesis using assms by (auto simp: FinishWithoutAttempt_def)
next
  case (Some j)
  note d = durable_parts [OF assms(3)]
  have j: "job_ok j" using text_ids(3) [OF d(3,2) leased_by_lookup [OF Some]] .
  have "durable_inv cd t" if "st = ''poison''"
  proof (rule error_only_durable [OF _ assms(2,3)])
    let ?j = "j\<lparr>j_State := ''poison'', j_Error := msg, j_UpdatedAt := w_clock w, j_FinishedAt := w_clock w,
      j_LeaseOwner := [], j_LeaseExpiresAt := zero_time\<rparr>"
    show "error_only (appendLocked cd w (job_event ''poison'' ?j) s) = (t, x)"
      using assms(1) Some that by (simp add: FinishWithoutAttempt_def)
    show "event_ok (job_event ''poison'' ?j)"
      using job_ok_poison [OF j] assms(4) by (simp add: call_text_def)
  qed (use assms(5) in simp_all)
  then show ?thesis
    using assms(1,3) by (auto simp: FinishWithoutAttempt_def Some split: if_splits)
qed

lemma Load_durable [keep_durable]:
  assumes "Load cd w i s = (t, x)" "durable_inv cd s"
  shows "durable_inv cd t"
proof -
  have "durable_inv cd (poison h s)" for h
    using assms(2) durable_poisoned by (simp add: poison_def)
  then show ?thesis using assms by (auto simp: Load_def split: option.splits sum.splits)
qed

lemma SubscribeFrom_durable [keep_durable]:
  "SubscribeFrom cursor s = (t, x) \<Longrightarrow> durable_inv cd s \<Longrightarrow> durable_inv cd t"
  by (rule durable_frame [of cd s]) (auto simp: SubscribeFrom_def Let_def retained_of_def split: list.splits if_splits)

lemma cancel_durable [keep_durable]: "durable_inv cd s \<Longrightarrow> durable_inv cd (cancel_subscription c s)"
  by (rule durable_frame [of cd s]) (simp_all add: cancel_subscription_def retained_of_def)

lemma Close_durable [keep_durable]:
  "Close w s = (t, x) \<Longrightarrow> durable_inv cd s \<Longrightarrow> durable_inv cd t"
  by (rule durable_frame [of cd s]) (auto simp: Close_def retained_of_def split: if_splits)

section \<open>Redaction\<close>

text \<open>A redaction in memory: the file still holds the captures as they were.\<close>

lemma redacted_dead:
  assumes "durable_inv cd s" "s_health s = None" "view_of t = view_of (redact_state p s)"
    "disk t = s_file s"
  shows "dead_log cd t"
proof -
  obtain es where es: "s_file s = log_bytes cd es" "list_all (loggable cd) es"
    "list_all (sound_line cd) es \<Longrightarrow> replays cd es s" using durable_invD(6) [OF assms(1,2)] by blast
  have "durable_view t s" using assms(3) unfolding durable_view_def by blast
  then show ?thesis
    using es assms(4) durable_invD(3) [OF assms(1,2)]
    by (intro dead_log_intro [of t cd es "[]" s]) simp_all
qed

lemma RedactHeaders_durable [keep_durable]:
  assumes "RedactHeaders cd w policy s = (t, x)" "codec_ok cd" "durable_inv cd s" "range_order (w_order w)"
  shows "durable_inv cd t"
proof (cases "policy = None \<or> s_closed s \<or> s_health s \<noteq> None")
  case True
  then show ?thesis using assms(1,3) by (auto simp: RedactHeaders_def split: option.splits if_splits)
next
  case False
  then obtain p where p: "policy = Some p" and live: "s_health s = None" "\<not> s_closed s" by auto
  note d = durable_invD [OF assms(3) live(1)]
  define u where "u = (if state_needs_redaction p s then recountRingLocked cd (redact_state p s) else redact_state p s)"
  have u: "wf_store cd u" "view_of u = view_of (redact_state p s)"
    using d(1) redacted_wf redact_state_same by (auto simp: u_def)
  have u': "s_file u = s_file s" "s_replaced u = None" "s_health u = None"
    using d(4) live(1) by (auto simp: u_def recountRingLocked_def Let_def split_def redact_state_def)
  note u = u u'
  have tu: "store_text u" using store_text_view [OF u(2)] store_text_redact [OF d(3)] by simp
  have ru: "refs_ok cd (s_file u) u"
    using refs_ok_redact [OF d(5), of p] refs_ok_retained [of u "redact_state p s"]
    by (auto simp: u_def u(3))
  obtain es where es: "s_file s = log_bytes cd es" "list_all (loggable cd) es"
    "list_all (sound_line cd) es \<Longrightarrow> replays cd es s" using d(6) by blast
  have dv: "durable_view u s" using u(2) unfolding durable_view_def by blast
  consider (scan) h where "t = poisoned h u" | (clean) "t = u" "\<not> state_needs_redaction p s"
    | (compact) v where "compactLocked cd w u = (v, None)" "t = v"
    | (fails) v h where "compactLocked cd w u = (v, Some h)" "t = poisoned h v"
    using assms(1) live unfolding RedactHeaders_def p option.case Let_def u_def [symmetric]
    by (auto split: if_splits sum.splits bool.splits prod.splits option.splits)
  then show ?thesis
  proof cases
    case (scan h)
    have v: "view_of t = view_of u" by (simp add: scan poisoned_def view_of_eq)
    have "disk t = s_file s" using u(3,4) by (simp add: scan poisoned_def disk_def)
    then have "dead_log cd t" using redacted_dead [OF assms(3) live(1)] u(2) v by metis
    moreover have "wf_store cd t" using u(1) by (simp add: scan)
    moreover have "s_health t \<noteq> None" using scan by (simp add: poisoned_def)
    ultimately show ?thesis using tu store_text_view [OF v] by (auto simp: durable_inv_def)
  next
    case clean
    then show ?thesis using assms(3) redact_state_same by (simp add: u_def)
  next
    case (compact v)
    have "live_log cd v" by (rule compacted_live [OF compact(1) assms(2) u(1) tu ru assms(4)])
    moreover have "wf_store cd v" by (rule compactLocked_wf [OF compact(1) u(1) assms(4)])
    moreover have "s_health v = None" using compactLocked_same [OF compact(1)] u(5) by (simp add: same_but_log_def)
    moreover have "store_text v" using store_text_view [OF compactLocked_view [OF compact(1)]] tu by simp
    ultimately show ?thesis using compact(2) by (simp add: durable_inv_def)
  next
    case (fails v h)
    have v: "view_of v = view_of u" by (rule compactLocked_view [OF fails(1)])
    have "dead_log cd (poisoned h v)"
      using es u(3) d(3) dv
      by (intro compacted_dead [OF fails(1) assms(2) u(1) tu ru assms(4) u(4), of es s]) simp_all
    moreover have "store_text (poisoned h v)"
      using store_text_view [OF v] tu store_text_view [of "poisoned h v" v]
      by (simp add: poisoned_def view_of_eq)
    moreover have "wf_store cd (poisoned h v)" using compactLocked_wf [OF fails(1) u(1) assms(4)] by simp
    moreover have "s_health (poisoned h v) \<noteq> None" by (simp add: poisoned_def)
    ultimately show ?thesis using fails(2) by (auto simp: durable_inv_def)
  qed
qed

end
