(* ===== verification/Store_Restart.thy ===== *)
theory Store_Restart
  imports Store_Durable
begin

text \<open>
  Restarts. A step of \<open>text_step\<close> is a call of an operation with valid text, or the program opening
  the file that is there again with the same options. Every store reached this way is durable,
  and opening its file gives its view back.
\<close>

section \<open>The lines of a file\<close>

fun lines_from :: "string \<Rightarrow> string \<Rightarrow> string list" where
  "lines_from acc [] = []"
| "lines_from acc (c # cs) = (if c = newline then acc # lines_from [] cs else lines_from (acc @ [c]) cs)"

text \<open>The complete lines of a file, without their newlines.\<close>

definition complete_lines :: "string \<Rightarrow> string list" where
  "complete_lines xs = lines_from [] xs"

text \<open>A line the reader accepts: within the limit, and its record, if it is one, is numbered.\<close>

definition readable :: "codec \<Rightarrow> string \<Rightarrow> bool" where
  "readable cd l \<longleftrightarrow> length l < maxEventBytes
     \<and> (case Unmarshal cd (l @ [newline]) of None \<Rightarrow> True | Some e \<Rightarrow> e_Seq e \<noteq> 0)"

lemma lines_from_line: "newline \<notin> set l \<Longrightarrow> lines_from acc (l @ newline # xs) = (acc @ l) # lines_from [] xs"
  by (induction l arbitrary: acc) auto

lemma lines_from_torn: "newline \<notin> set l \<Longrightarrow> lines_from acc l = []"
  by (induction l arbitrary: acc) auto

lemma readable_sound:
  assumes "codec_ok cd" "list_all (loggable cd) es" "newline \<notin> set torn"
    "list_all (readable cd) (complete_lines (log_bytes cd es @ torn))"
  shows "list_all (sound_line cd) es"
  using assms(2,4)
proof (induction es)
  case (Cons e es)
  then have "loggable cd e" by simp
  then obtain b where b: "enc cd e = b @ [newline]" "newline \<notin> set b" "Unmarshal cd (enc cd e) = Some e"
    by (rule enc_loggable [OF assms(1)])
  then have "complete_lines (log_bytes cd (e # es) @ torn) = b # complete_lines (log_bytes cd es @ torn)"
    using lines_from_line [OF b(2), of "[]"] by (simp add: complete_lines_def)
  then show ?case using Cons b by (simp add: sound_line_def readable_def)
qed simp

section \<open>Opening a log\<close>

text \<open>A stream that ends in an error is never recovered.\<close>

lemma recover_loop_error: "recover_loop cd (ReadError m) xs good seen s \<noteq> Inr r"
proof (induction "length xs" arbitrary: xs good seen s rule: less_induct)
  case less
  show ?case
  proof (cases "readRecord (ReadError m) xs")
    case (Inl x)
    then show ?thesis by (simp add: recover_loop.simps [of _ _ xs])
  next
    case (Inr p)
    obtain l c rest where p: "readRecord (ReadError m) xs = Inr (l, c, rest)" using Inr by (metis prod_cases3)
    have c: c
    proof (cases xs rule: first_newline)
      case (line l' rest')
      then show ?thesis using p by (auto simp: readRecord_line split: if_splits)
    next
      case none
      then show ?thesis using p by (simp add: readRecord_error)
    qed
    have "length rest < length xs" using p c readRecord_shorter(1) by simp
    then show ?thesis
      using less p c by (auto simp: recover_loop.simps [of _ _ xs] split: sum.splits)
  qed
qed

lemma recover_record_file: "recover_record cd l g seen s = Inr (seen', t) \<Longrightarrow> s_file t = s_file s"
  by (auto simp: recover_record_def Let_def split: option.splits if_splits)

lemma replay_file: "replay cd es g seen s = Inr (g', seen', t) \<Longrightarrow> s_file t = s_file s"
  by (induction es arbitrary: g seen s)
    (fastforce dest: recover_record_file split: sum.splits if_splits)+

lemma open_log:
  assumes "OpenWithOptions cd w oo (log_bytes cd es @ torn) = Inr t" "codec_ok cd"
    "list_all (loggable cd) es" "newline \<notin> set torn"
  obtains g seen u where "replay cd es 0 False (new_store oo (log_bytes cd es @ torn)) = Inr (g, seen, u)"
    "t = u\<lparr>s_file := log_bytes cd es\<rparr>"
proof -
  let ?f = "log_bytes cd es @ torn"
  have r: "recover cd w (new_store oo ?f) = Inr t"
    using assms(1) by (auto simp: OpenWithOptions_def split: option.splits if_splits sum.splits)
  have eof: "w_fails w ReadFile = None"
    using r recover_loop_error by (auto simp: recover_def split: option.splits sum.splits)
  obtain g seen u where u: "replay cd es 0 False (new_store oo ?f) = Inr (g, seen, u)"
    using r eof recover_loop_log [OF assms(2-4), of 0 False "new_store oo ?f"]
    by (auto simp: recover_def split: option.splits sum.splits)
  have f: "s_file u = ?f" using replay_file [OF u] by simp
  have g: "g = length (log_bytes cd es)" using replay_good [OF u] by simp
  have "t = u\<lparr>s_file := log_bytes cd es\<rparr>"
    using r eof recover_loop_log [OF assms(2-4), of 0 False "new_store oo ?f"] u f g
    by (auto simp: recover_def split: option.splits if_splits)
  then show ?thesis using that u by blast
qed

lemma open_log_calm:
  assumes "replay cd es 0 False (new_store oo (log_bytes cd es @ torn)) = Inr (g, seen, u)" "codec_ok cd"
    "list_all (loggable cd) es" "newline \<notin> set torn"
  shows "OpenWithOptions cd (calm now) oo (log_bytes cd es @ torn) = Inr (u\<lparr>s_file := log_bytes cd es\<rparr>)"
  using recover_loop_log [OF assms(2-4), of 0 False "new_store oo (log_bytes cd es @ torn)"] assms(1)
    replay_file [OF assms(1)] replay_good [OF assms(1)]
  by (auto simp: OpenWithOptions_def recover_def)

section \<open>A restart keeps the store durable\<close>

text \<open>What the file of a durable store replays to.\<close>

lemma durable_log:
  assumes "durable_inv cd s"
  obtains es torn where "disk s = log_bytes cd es @ torn" "newline \<notin> set torn" "list_all (loggable cd) es"
    "list_all (sound_line cd) es \<longrightarrow> (\<exists>u. replays cd es u \<and> store_text u
       \<and> (if s_health s = None then view_of u = view_of s else durable_view s u))"
proof (cases "s_health s")
  case None
  obtain es where "s_file s = log_bytes cd es" "list_all (loggable cd) es"
    "list_all (sound_line cd) es \<Longrightarrow> replays cd es s" using durable_invD(6) [OF assms None] by blast
  then show ?thesis
    using that [of es "[]"] durable_invD(3,4) [OF assms None] None by auto
next
  case (Some h)
  then show ?thesis using assms that by (auto simp: durable_inv_def dead_log_def)
qed

lemma durable_opts: "durable_view s u \<Longrightarrow> s_opts u = s_opts s"
  using applied_opts by (auto simp: durable_view_def view_of_eq)

lemma replays_opened:
  assumes "replays cd es u" "s_opts u = withDefaults oo"
    "replay cd es 0 False (new_store oo f) = Inr (g, seen, v)"
  shows "view_of v = view_of u" "wf_store cd v" "refs_ok cd (log_bytes cd es) v"
    "s_seq v = (if es = [] then 0 else s_seq u)"
proof -
  have n: "new_store oo f = new_store (s_opts u) f" using withDefaults_twice assms(2) by metis
  obtain g' seen' t where "replay cd es 0 False (new_store (s_opts u) f) = Inr (g', seen', t)"
    "view_of t = view_of u \<and> wf_store cd t \<and> refs_ok cd (log_bytes cd es) t
      \<and> s_seq t = (if es = [] then 0 else s_seq u)"
    using assms(1) unfolding replays_def by blast
  then show "view_of v = view_of u" "wf_store cd v" "refs_ok cd (log_bytes cd es) v"
    "s_seq v = (if es = [] then 0 else s_seq u)"
    using assms(3) unfolding n by simp_all
qed

lemma redact_view_cong: "view_of t = view_of u \<Longrightarrow> view_of (redact_state p t) = view_of (redact_state p u)"
  by (simp add: view_of_eq redact_state_def)

definition restarted :: "store \<Rightarrow> store \<Rightarrow> bool" where
  "restarted s t \<longleftrightarrow> (if s_health s = None then view_of t = view_of s else durable_view s t)"

lemma restarted_view: "view_of t = view_of u \<Longrightarrow> restarted s u \<Longrightarrow> restarted s t"
  unfolding restarted_def durable_view_def by (metis redact_view_cong)

lemma restarted_opts: "restarted s u \<Longrightarrow> s_opts u = s_opts s"
  using durable_opts by (auto simp: restarted_def view_of_eq split: if_splits)

lemma replayed_fresh:
  "recover_record cd l g seen s = Inr (seen', t) \<Longrightarrow> s_health t = s_health s \<and> s_replaced t = s_replaced s
     \<and> s_handle t = s_handle s \<and> s_closed t = s_closed s"
  by (auto simp: recover_record_def Let_def split: option.splits if_splits)

lemma replay_fresh:
  "replay cd es g seen s = Inr (g', seen', t) \<Longrightarrow> s_health t = s_health s \<and> s_replaced t = s_replaced s
     \<and> s_handle t = s_handle s \<and> s_closed t = s_closed s"
  by (induction es arbitrary: g seen s) (fastforce dest: replayed_fresh split: sum.splits if_splits)+

lemma restart_durable:
  assumes "OpenWithOptions cd w oo (disk s) = Inr t" "codec_ok cd" "durable_inv cd s"
    "withDefaults oo = s_opts s"
  shows "durable_inv cd t" "restarted s t" "s_health t = None"
proof -
  obtain es torn where es: "disk s = log_bytes cd es @ torn" "newline \<notin> set torn" "list_all (loggable cd) es"
    "list_all (sound_line cd) es \<longrightarrow> (\<exists>u. replays cd es u \<and> store_text u
       \<and> (if s_health s = None then view_of u = view_of s else durable_view s u))"
    by (rule durable_log [OF assms(3)])
  obtain g seen v where v: "replay cd es 0 False (new_store oo (log_bytes cd es @ torn)) = Inr (g, seen, v)"
    "t = v\<lparr>s_file := log_bytes cd es\<rparr>"
    by (rule open_log [OF assms(1) [unfolded es(1)] assms(2) es(3,2)])
  have snd_ok: "list_all (sound_line cd) es" by (rule replay_sound [OF assms(2) es(3) v(1)])
  then obtain u where u: "replays cd es u" "store_text u" "restarted s u"
    using es(4) unfolding restarted_def by metis
  have o: "s_opts u = withDefaults oo" using restarted_opts [OF u(3)] assms(4) by simp
  note r = replays_opened [OF u(1) o v(1)]
  have ret: "retained_of t = retained_of v" by (simp add: v(2) retained_of_def)
  have vt: "view_of t = view_of u" using r(1) by (simp add: v(2) view_of_eq)
  then show "restarted s t" using restarted_view u(3) by blast
  have "wf_store cd t" using r(2) wf_store_cong [OF ret] by (simp add: v(2))
  moreover have "store_text t" using store_text_view [OF vt] u(2) by simp
  moreover have "live_log cd t"
  proof -
    have "replays cd es t"
    proof (cases "es = []")
      case True
      have "view_of t = view_of (new_store oo torn)" using v True by (simp add: view_of_eq)
      moreover have "s_opts t = withDefaults oo" using vt o by (simp add: view_of_eq)
      ultimately show ?thesis using True replays_Nil by blast
    next
      case False
      then have "s_seq u = s_seq t" using r(4) by (simp add: v(2))
      then show ?thesis using replays_cong [OF vt [symmetric] _ u(1)] by blast
    qed
    moreover have "refs_ok cd (s_file t) t"
      using r(3) refs_ok_retained [OF ret] by (simp add: v(2))
    moreover have "s_replaced t = None" using replay_fresh [OF v(1)] by (simp add: v(2))
    ultimately show ?thesis using es(3) unfolding live_log_def by (auto simp: v(2))
  qed
  moreover show "s_health t = None" using replay_fresh [OF v(1)] by (simp add: v(2))
  ultimately show "durable_inv cd t" by (simp add: durable_inv_def)
qed

section \<open>Calls and restarts\<close>

datatype text_label = Called call | Restarted

inductive text_step :: "codec \<Rightarrow> store \<Rightarrow> text_label \<Rightarrow> store \<Rightarrow> bool" for cd where
  text_call: "store_step cd s c t \<Longrightarrow> call_text c \<Longrightarrow> text_step cd s (Called c) t"
| text_restart: "OpenWithOptions cd w oo (disk s) = Inr t \<Longrightarrow> withDefaults oo = s_opts s \<Longrightarrow>
    text_step cd s Restarted t"

inductive_cases text_stepE: "text_step cd s l t"

lemma store_step_durable:
  assumes "store_step cd s c t" "call_text c" "codec_ok cd" "durable_inv cd s"
  shows "durable_inv cd t"
  using assms by (cases rule: store_step.cases) (auto intro: keep_durable)

lemma new_durable: "durable_inv cd (new_store oo [])"
proof -
  have "replays cd [] (new_store oo [])" by (rule replays_Nil [where oo = oo and f = "[]"]) simp_all
  moreover have "s_replaced (new_store oo []) = None" by (simp add: new_store_def)
  ultimately have "live_log cd (new_store oo [])"
    unfolding live_log_def by (intro conjI exI [of _ "[]"]) simp_all
  then show ?thesis by (simp add: durable_inv_def wf_store_new)
qed

lemma durable_invariant:
  assumes "codec_ok cd"
  shows "invariant_of (opened cd) (text_step cd) (durable_inv cd)"
proof
  show "durable_inv cd s" if "opened cd s" for s
    using opened_new [OF that] new_durable by blast
  show "durable_inv cd t" if "durable_inv cd s" "text_step cd s l t" for s l t
    using that(2,1) assms
    by (cases rule: text_step.cases) (auto intro: store_step_durable restart_durable(1))
qed

abbreviation durably_reachable :: "codec \<Rightarrow> store \<Rightarrow> bool" where
  "durably_reachable cd \<equiv> reach (opened cd) (text_step cd)"

lemma durably_reachable_inv: "codec_ok cd \<Longrightarrow> durably_reachable cd s \<Longrightarrow> durable_inv cd s"
  using invariant_of.reachable [OF durable_invariant] by blast

text \<open>In a calm environment a readable file is opened.\<close>

lemma readable_opens:
  assumes "codec_ok cd" "durable_inv cd s" "withDefaults oo = s_opts s"
    "list_all (readable cd) (complete_lines (disk s))"
  obtains t where "OpenWithOptions cd (calm now) oo (disk s) = Inr t"
proof -
  obtain es torn where es: "disk s = log_bytes cd es @ torn" "newline \<notin> set torn" "list_all (loggable cd) es"
    "list_all (sound_line cd) es \<longrightarrow> (\<exists>u. replays cd es u \<and> store_text u
       \<and> (if s_health s = None then view_of u = view_of s else durable_view s u))"
    by (rule durable_log [OF assms(2)])
  have "list_all (sound_line cd) es"
    using readable_sound [OF assms(1) es(3,2)] assms(4) es(1) by simp
  then obtain u where u: "replays cd es u" "restarted s u"
    using es(4) unfolding restarted_def by metis
  have "new_store oo (log_bytes cd es @ torn) = new_store (s_opts u) (log_bytes cd es @ torn)"
    using withDefaults_twice restarted_opts [OF u(2)] assms(3) by metis
  then obtain g seen v where "replay cd es 0 False (new_store oo (log_bytes cd es @ torn)) = Inr (g, seen, v)"
    using u(1) unfolding replays_def by metis
  then show ?thesis using that open_log_calm [OF _ assms(1) es(3,2)] es(1) by metis
qed

end
