(* ===== verification/Store_Props_Durable.thy ===== *)
theory Store_Props_Durable
  imports Store_Restart Store_Examples
begin

text \<open>
  Durability of the store: opening the file of a store again gives back what it held. The
  example is the store that has accepted one capture and its job.
\<close>


lemma demo1_disk: "disk demo1 = ''x'' @ [newline]"
proof -
  have "s_replaced demo0 = None" by (simp add: demo0_def new_store_def)
  moreover have "s_file demo1 = ''x'' @ [newline]"
    using logged_log(1) [OF admitted1] by (simp add: demo1_def accept1 enc_def stamped1 demo_marshal)
  ultimately show ?thesis by (simp add: demo1_def accept1 disk_def)
qed

text \<open>Hexadecimal digests are valid text.\<close>

lemma ascii_utf8: "list_all (in_range 0 0x7F) s \<Longrightarrow> utf8_valid s"
  by (induction s) simp_all

lemma hex_utf8: "utf8_valid (hex_encode s)"
proof (rule ascii_utf8, induction s)
  case (Cons c s)
  have "\<forall>n \<in> set [0..<16]. in_range 0 0x7F (hex_digit n)" by code_simp
  then have h: "n < 16 \<Longrightarrow> in_range 0 0x7F (hex_digit n)" for n by simp
  have "of_char c < (256 :: nat)" by (metis nat_of_char_less_256)
  then have "of_char c div 16 < (16 :: nat)" "of_char c mod 16 < (16 :: nat)" by linarith simp
  then show ?case using Cons h by (simp add: hex_encode_def hex_byte_def)
qed (simp add: hex_encode_def)

lemma demo_text: "call_text (AcceptCall demo_request (Some demo_job))"
proof -
  have "list_all utf8_valid [''r'', ''d'', ''j'', ''pending'', []]" by code_simp
  moreover have "utf8_valid (sha256_hex [])" unfolding sha256_hex_def by (rule hex_utf8)
  ultimately show ?thesis
    by (simp add: call_text_def request_ok_def job_ok_def header_ok_def demo_defs del: utf8_valid.simps)
qed


end
