(* ===== verification/Dist_Names.thy ===== *)
theory Dist_Names
  imports Go_Strings
begin

text \<open>
  Release tags and names (\<open>ValidateTag\<close>, \<open>parseArchiveName\<close> and \<open>cleanArchiveName\<close> of
  \<open>internal/distcheck/distcheck.go\<close>), and what they use of \<open>strings\<close>, \<open>path\<close> and \<open>filepath\<close> on a
  system whose separator is the slash. The reference definitions are the grammar of a Semantic
  Version 2.0.0 without build metadata (\<open>semver\<close>) and of a canonical relative path
  (\<open>canonical_path\<close>). The tests on runes are tests on bytes here: a byte of a multi-byte rune is
  in none of the ASCII ranges tested.
\<close>

section \<open>Splitting and joining\<close>

fun join_on :: "char \<Rightarrow> string list \<Rightarrow> string" where
  "join_on d [] = []"
| "join_on d [p] = p"
| "join_on d (p # q # ps) = p @ d # join_on d (q # ps)"

text \<open>\<open>strings.Cut\<close> with a separator of one byte.\<close>

definition Cut :: "char \<Rightarrow> string \<Rightarrow> string \<times> string \<times> bool" where
  "Cut d s = (if d \<in> set s then (takeWhile (\<lambda>c. c \<noteq> d) s, tl (dropWhile (\<lambda>c. c \<noteq> d) s), True)
     else (s, [], False))"

lemma join_split: "join_on d (split_on d s) = s"
proof (induction s)
  case (Cons c s)
  obtain p ps where p: "split_on d s = p # ps" by (metis split_on_not_Nil neq_Nil_conv)
  then show ?case using Cons by (cases ps) auto
qed simp

lemma split_on_parts: "p \<in> set (split_on d s) \<Longrightarrow> d \<notin> set p"
  by (induction s arbitrary: p) (auto split: if_splits list.splits)

lemma split_on_free: "d \<notin> set p \<Longrightarrow> split_on d p = [p]"
  by (induction p) auto

lemma split_on_append: "d \<notin> set p \<Longrightarrow> split_on d (p @ d # s) = p # split_on d s"
  by (induction p) auto

lemma split_join: "ps \<noteq> [] \<Longrightarrow> \<forall>p \<in> set ps. d \<notin> set p \<Longrightarrow> split_on d (join_on d ps) = ps"
  by (induction d ps rule: join_on.induct) (auto simp: split_on_free split_on_append)

lemma split_on_iff:
  "split_on d s = ps \<longleftrightarrow> ps \<noteq> [] \<and> (\<forall>p \<in> set ps. d \<notin> set p) \<and> s = join_on d ps"
  using split_join join_split split_on_parts split_on_not_Nil by metis

lemma Cut_append: "d \<notin> set p \<Longrightarrow> Cut d (p @ d # s) = (p, s, True)"
proof -
  assume "d \<notin> set p"
  then have "takeWhile (\<lambda>c. c \<noteq> d) (p @ d # s) = p \<and> dropWhile (\<lambda>c. c \<noteq> d) (p @ d # s) = d # s"
    by (induction p) auto
  then show ?thesis by (simp add: Cut_def)
qed

lemma Cut_Some:
  assumes "Cut d s = (p, q, True)"
  shows "s = p @ d # q" "d \<notin> set p"
proof -
  have "d \<in> set s" using assms by (auto simp: Cut_def split: if_splits)
  then obtain u v where uv: "s = u @ d # v" "d \<notin> set u" by (auto dest: split_list_first)
  then show "s = p @ d # q" "d \<notin> set p" using assms Cut_append [OF uv(2), of v] by simp_all
qed

lemma Cut_None: "Cut d s = (p, q, False) \<longleftrightarrow> d \<notin> set s \<and> p = s \<and> q = []"
  by (auto simp: Cut_def)

section \<open>Release tags\<close>

datatype identifier_error = EmptyIdentifier | NotAlphanumeric | LeadingZero

datatype tag_error =
    NotBounded
  | BuildMetadata
  | InvalidPrerelease identifier_error
  | NotThreeParts
  | InvalidCore

definition decimalIdentifier :: "string \<Rightarrow> bool" where
  "decimalIdentifier v \<longleftrightarrow> v \<noteq> [] \<and> list_all is_digit v"

definition check_identifier :: "bool \<Rightarrow> string \<Rightarrow> identifier_error option" where
  "check_identifier rejectNumericLeadingZero i =
     (if i = [] then Some EmptyIdentifier
      else if \<not> list_all (\<lambda>r. is_digit r \<or> is_upper r \<or> is_lower r \<or> r = CHR ''-'') i
        then Some NotAlphanumeric
      else if rejectNumericLeadingZero \<and> 1 < length i \<and> i ! 0 = CHR ''0'' \<and> decimalIdentifier i
        then Some LeadingZero
      else None)"

fun first_identifier_error :: "bool \<Rightarrow> string list \<Rightarrow> identifier_error option" where
  "first_identifier_error r [] = None"
| "first_identifier_error r (i # is) =
     (case check_identifier r i of Some e \<Rightarrow> Some e | None \<Rightarrow> first_identifier_error r is)"

definition validateSemverIdentifiers :: "string \<Rightarrow> bool \<Rightarrow> identifier_error option" where
  "validateSemverIdentifiers v r = first_identifier_error r (split_on (CHR ''.'') v)"

definition core_part :: "string \<Rightarrow> bool" where
  "core_part part \<longleftrightarrow> \<not> (\<not> decimalIdentifier part \<or> 1 < length part \<and> part ! 0 = CHR ''0'')"

definition ValidateTag :: "string \<Rightarrow> tag_error + string" where
  "ValidateTag tag =
     (if length tag < 2 \<or> length tag > 128 \<or> tag ! 0 \<noteq> CHR ''v'' then Inl NotBounded
      else (let version = tl tag
        in if Contains version ''+'' then Inl BuildMetadata
           else (let (core, prerelease, hasPrerelease) = Cut (CHR ''-'') version
             in case (if hasPrerelease then validateSemverIdentifiers prerelease True else None) of
                  Some e \<Rightarrow> Inl (InvalidPrerelease e)
                | None \<Rightarrow>
                    (let parts = split_on (CHR ''.'') core
                     in if length parts \<noteq> 3 then Inl NotThreeParts
                        else if \<not> list_all core_part parts then Inl InvalidCore
                        else Inr version))))"

text \<open>The grammar of Semantic Versioning 2.0.0, without build metadata.\<close>

definition numeric :: "string \<Rightarrow> bool" where
  "numeric s \<longleftrightarrow> s = ''0'' \<or> s \<noteq> [] \<and> list_all is_digit s \<and> hd s \<noteq> CHR ''0''"

definition identifier_char :: "char \<Rightarrow> bool" where
  "identifier_char c \<longleftrightarrow> is_digit c \<or> is_upper c \<or> is_lower c \<or> c = CHR ''-''"

definition pre_identifier :: "string \<Rightarrow> bool" where
  "pre_identifier s \<longleftrightarrow> numeric s
     \<or> list_all identifier_char s \<and> list_ex (\<lambda>c. \<not> is_digit c) s"

definition semver :: "string \<Rightarrow> bool" where
  "semver v \<longleftrightarrow> (\<exists>x y z. numeric x \<and> numeric y \<and> numeric z
     \<and> (v = x @ ''.'' @ y @ ''.'' @ z
        \<or> (\<exists>ids. ids \<noteq> [] \<and> list_all pre_identifier ids
             \<and> v = x @ ''.'' @ y @ ''.'' @ z @ ''-'' @ join_on (CHR ''.'') ids)))"

lemma core_part_numeric: "core_part s \<longleftrightarrow> numeric s"
proof (cases s)
  case (Cons c t)
  have "is_digit (CHR ''0'')" by code_simp
  then show ?thesis by (cases t) (auto simp: core_part_def decimalIdentifier_def numeric_def Cons)
qed (simp add: core_part_def decimalIdentifier_def numeric_def)

lemma check_identifier_None: "check_identifier True s = None \<longleftrightarrow> pre_identifier s"
proof (cases s)
  case (Cons c t)
  have z: "is_digit (CHR ''0'')" by code_simp
  have "list_all is_digit s \<Longrightarrow> list_all identifier_char s"
    by (auto simp: list_all_iff identifier_char_def)
  then show ?thesis
    using z by (cases t)
      (auto simp: check_identifier_def pre_identifier_def numeric_def decimalIdentifier_def
        identifier_char_def Cons list_all_iff list_ex_iff)
qed (simp add: check_identifier_def pre_identifier_def numeric_def)

lemma validateSemverIdentifiers_None:
  "validateSemverIdentifiers v True = None \<longleftrightarrow> list_all pre_identifier (split_on (CHR ''.'') v)"
proof -
  have "first_identifier_error True is = None \<longleftrightarrow> list_all pre_identifier is" for "is"
    by (induction "is") (auto simp flip: check_identifier_None split: option.split)
  then show ?thesis by (simp add: validateSemverIdentifiers_def)
qed

lemma punctuation [simp]:
  "\<not> is_digit (CHR ''.'')" "\<not> is_digit (CHR ''-'')" "\<not> is_digit (CHR ''+'')" "\<not> is_digit (CHR ''_'')"
  "\<not> identifier_char (CHR ''.'')" "\<not> identifier_char (CHR ''+'')" "\<not> identifier_char (CHR ''_'')"
  by code_simp+

lemma numeric_chars: "numeric s \<Longrightarrow> s \<noteq> [] \<and> list_all is_digit s"
proof -
  have "is_digit (CHR ''0'')" by code_simp
  then show "numeric s \<Longrightarrow> s \<noteq> [] \<and> list_all is_digit s" by (auto simp: numeric_def)
qed

lemma pre_identifier_chars: "pre_identifier s \<Longrightarrow> list_all identifier_char s"
  by (auto simp: pre_identifier_def identifier_char_def list_all_iff dest: numeric_chars)

lemma join_on_set: "set (join_on d ps) \<subseteq> insert d (\<Union>p \<in> set ps. set p)"
  by (induction d ps rule: join_on.induct) auto

lemma numeric_free:
  assumes "numeric s"
  shows "CHR ''.'' \<notin> set s" "CHR ''-'' \<notin> set s" "CHR ''+'' \<notin> set s" "CHR ''_'' \<notin> set s"
proof -
  have "c \<notin> set s" if "\<not> is_digit c" for c
    using numeric_chars [OF assms] that by (auto simp: list_all_iff)
  then show "CHR ''.'' \<notin> set s" "CHR ''-'' \<notin> set s" "CHR ''+'' \<notin> set s" "CHR ''_'' \<notin> set s"
    by simp_all
qed

lemma pre_identifiers_free:
  assumes "list_all pre_identifier ids"
  shows "CHR ''+'' \<notin> set (join_on (CHR ''.'') ids)" "CHR ''_'' \<notin> set (join_on (CHR ''.'') ids)"
    "\<forall>i \<in> set ids. CHR ''.'' \<notin> set i"
proof -
  have c: "c \<notin> set i" if "i \<in> set ids" "\<not> identifier_char c" for c i
    using assms that pre_identifier_chars by (auto simp: list_all_iff)
  have "c \<notin> set (join_on (CHR ''.'') ids)" if "\<not> identifier_char c" "c \<noteq> CHR ''.''" for c
    using c that join_on_set [of "CHR ''.''" ids] by blast
  then show "CHR ''+'' \<notin> set (join_on (CHR ''.'') ids)" "CHR ''_'' \<notin> set (join_on (CHR ''.'') ids)"
    by simp_all
  show "\<forall>i \<in> set ids. CHR ''.'' \<notin> set i" using c by simp
qed

text \<open>The characters of a version: neither a plus nor an underscore.\<close>

lemma semver_free:
  assumes "semver v"
  shows "CHR ''+'' \<notin> set v" "CHR ''_'' \<notin> set v"
proof -
  obtain x y z where n: "numeric x" "numeric y" "numeric z"
    and e: "v = x @ ''.'' @ y @ ''.'' @ z \<or> (\<exists>ids. ids \<noteq> [] \<and> list_all pre_identifier ids
       \<and> v = x @ ''.'' @ y @ ''.'' @ z @ ''-'' @ join_on (CHR ''.'') ids)"
    using assms unfolding semver_def by blast
  from e show "CHR ''+'' \<notin> set v" "CHR ''_'' \<notin> set v"
    by (elim disjE exE conjE; simp add: numeric_free n pre_identifiers_free)+
qed

lemma Contains_char: "Contains s [c] \<longleftrightarrow> c \<in> set s"
  by (induction s) (auto simp: HasPrefix_def)

lemma split_core:
  "length (split_on (CHR ''.'') core) = 3 \<and> list_all core_part (split_on (CHR ''.'') core)
    \<longleftrightarrow> (\<exists>x y z. core = x @ ''.'' @ y @ ''.'' @ z \<and> numeric x \<and> numeric y \<and> numeric z)"
proof
  assume l: "length (split_on (CHR ''.'') core) = 3 \<and> list_all core_part (split_on (CHR ''.'') core)"
  then obtain x y z where s: "split_on (CHR ''.'') core = [x, y, z]"
    by (auto simp: length_Suc_conv numeral_3_eq_3)
  then have "core = join_on (CHR ''.'') [x, y, z]" by (metis join_split)
  then show "\<exists>x y z. core = x @ ''.'' @ y @ ''.'' @ z \<and> numeric x \<and> numeric y \<and> numeric z"
    using l s by (auto simp: core_part_numeric)
next
  assume "\<exists>x y z. core = x @ ''.'' @ y @ ''.'' @ z \<and> numeric x \<and> numeric y \<and> numeric z"
  then obtain x y z where c: "core = x @ ''.'' @ y @ ''.'' @ z" "numeric x" "numeric y" "numeric z"
    by blast
  then have "split_on (CHR ''.'') core = [x, y, z]"
    unfolding split_on_iff using numeric_free by simp
  then show "length (split_on (CHR ''.'') core) = 3 \<and> list_all core_part (split_on (CHR ''.'') core)"
    using c by (simp add: core_part_numeric)
qed

lemma ValidateTag_tail:
  assumes "length tag \<le> 128" "tag = CHR ''v'' # v" "v \<noteq> []"
  shows "ValidateTag tag = Inr w \<longleftrightarrow> w = v \<and> semver v"
proof (cases "CHR ''+'' \<in> set v")
  case True
  then have "\<not> semver v" using semver_free(1) by blast
  then show ?thesis using True assms by (auto simp: ValidateTag_def Contains_char)
next
  case False
  obtain core pre has where c: "Cut (CHR ''-'') v = (core, pre, has)" by (metis prod_cases3)
  have ok: "ValidateTag tag = Inr w \<longleftrightarrow> w = v \<and> (has \<longrightarrow> validateSemverIdentifiers pre True = None)
      \<and> length (split_on (CHR ''.'') core) = 3 \<and> list_all core_part (split_on (CHR ''.'') core)"
    using False assms c by (auto simp: ValidateTag_def Contains_char Let_def split: option.split)
  show ?thesis
  proof (cases has)
    case False
    then have "Cut (CHR ''-'') v = (core, pre, False)" using c by simp
    then have v: "CHR ''-'' \<notin> set v" "core = v" unfolding Cut_None by blast+
    have "v \<noteq> x @ ''.'' @ y @ ''.'' @ z @ ''-'' @ t" for x y z t using v(1) by auto
    then have "semver v \<longleftrightarrow>
        (\<exists>x y z. v = x @ ''.'' @ y @ ''.'' @ z \<and> numeric x \<and> numeric y \<and> numeric z)"
      unfolding semver_def by blast
    then show ?thesis using ok False by (simp only: v(2) split_core simp_thms)
  next
    case True
    then have cut: "Cut (CHR ''-'') v = (core, pre, True)" using c by simp
    note v = Cut_Some [OF cut]
    have "semver v \<longleftrightarrow> list_all pre_identifier (split_on (CHR ''.'') pre)
        \<and> (\<exists>x y z. core = x @ ''.'' @ y @ ''.'' @ z \<and> numeric x \<and> numeric y \<and> numeric z)"
    proof
      assume "semver v"
      then obtain x y z where n: "numeric x" "numeric y" "numeric z"
        and e: "v = x @ ''.'' @ y @ ''.'' @ z \<or> (\<exists>ids. ids \<noteq> [] \<and> list_all pre_identifier ids
             \<and> v = x @ ''.'' @ y @ ''.'' @ z @ ''-'' @ join_on (CHR ''.'') ids)"
        unfolding semver_def by blast
      have f: "CHR ''-'' \<notin> set (x @ ''.'' @ y @ ''.'' @ z)" using n numeric_free by simp
      moreover have "CHR ''-'' \<in> set v" unfolding v(1) by simp
      ultimately have "v \<noteq> x @ ''.'' @ y @ ''.'' @ z" by metis
      then obtain ids where i: "ids \<noteq> []" "list_all pre_identifier ids"
        "v = (x @ ''.'' @ y @ ''.'' @ z) @ CHR ''-'' # join_on (CHR ''.'') ids" using e by auto
      have "Cut (CHR ''-'') v = (x @ ''.'' @ y @ ''.'' @ z, join_on (CHR ''.'') ids, True)"
        unfolding i(3) by (rule Cut_append [OF f])
      then have "core = x @ ''.'' @ y @ ''.'' @ z" "pre = join_on (CHR ''.'') ids" using c by simp_all
      then show "list_all pre_identifier (split_on (CHR ''.'') pre)
          \<and> (\<exists>x y z. core = x @ ''.'' @ y @ ''.'' @ z \<and> numeric x \<and> numeric y \<and> numeric z)"
        using n i split_join [OF i(1) pre_identifiers_free(3) [OF i(2)]] by auto
    next
      assume r: "list_all pre_identifier (split_on (CHR ''.'') pre)
        \<and> (\<exists>x y z. core = x @ ''.'' @ y @ ''.'' @ z \<and> numeric x \<and> numeric y \<and> numeric z)"
      then obtain x y z where "core = x @ ''.'' @ y @ ''.'' @ z" "numeric x" "numeric y" "numeric z"
        by blast
      moreover have "v = core @ ''-'' @ join_on (CHR ''.'') (split_on (CHR ''.'') pre)"
        by (simp add: v join_split)
      ultimately show "semver v"
        using r split_on_not_Nil unfolding semver_def by (metis append_assoc)
    qed
    then show ?thesis
      using ok True by (simp only: validateSemverIdentifiers_None split_core simp_thms)
  qed
qed

section \<open>Paths\<close>

text \<open>
  \<open>path.Clean\<close>: the elements of a path with \<open>.\<close> and empty elements left out, \<open>..\<close> taking back
  the element before it, and \<open>..\<close> at the start of a rooted path dropped.
\<close>

fun clean_parts :: "bool \<Rightarrow> string list \<Rightarrow> string list \<Rightarrow> string list" where
  "clean_parts rooted [] out = rev out"
| "clean_parts rooted (p # ps) out =
     (if p = [] \<or> p = ''.'' then clean_parts rooted ps out
      else if p = ''..'' then
        (case out of
          q # out' \<Rightarrow> if q = ''..'' then clean_parts rooted ps (p # out) else clean_parts rooted ps out'
        | [] \<Rightarrow> if rooted then clean_parts rooted ps [] else clean_parts rooted ps [p])
      else clean_parts rooted ps (p # out))"

definition Clean :: "string \<Rightarrow> string" where
  "Clean s =
     (let rooted = (s \<noteq> [] \<and> s ! 0 = CHR ''/'');
          out = join_on (CHR ''/'') (clean_parts rooted (split_on (CHR ''/'') s) [])
      in if rooted then CHR ''/'' # out else if out = [] then ''.'' else out)"

text \<open>\<open>filepath.Join\<close> of two elements and \<open>filepath.Base\<close>.\<close>

definition Join :: "string \<Rightarrow> string \<Rightarrow> string" where
  "Join dir name =
     (if dir = [] \<and> name = [] then []
      else Clean (join_on (CHR ''/'') (filter (\<lambda>p. p \<noteq> []) [dir, name])))"

definition Base :: "string \<Rightarrow> string" where
  "Base p = (if p = [] then ''.''
     else (let q = rev (dropWhile (\<lambda>c. c = CHR ''/'') (rev p));
               b = rev (takeWhile (\<lambda>c. c \<noteq> CHR ''/'') (rev q))
           in if b = [] then ''/'' else b))"

datatype path_error = UnsafePath | NonCanonicalPath

definition cleanArchiveName :: "string \<Rightarrow> path_error + string" where
  "cleanArchiveName name =
     (let portable = map (\<lambda>c. if c = CHR 0x5C then CHR ''/'' else c) name;
          clean = Clean portable
      in if clean = ''.'' \<or> clean = ''..'' \<or> HasPrefix clean ''../'' \<or> HasPrefix clean ''/''
           then Inl UnsafePath
         else if name \<noteq> portable \<or> portable \<noteq> clean then Inl NonCanonicalPath
         else Inr clean)"

text \<open>A relative path of elements that name something, without backslashes.\<close>

definition proper :: "string \<Rightarrow> bool" where
  "proper p \<longleftrightarrow> p \<noteq> [] \<and> p \<noteq> ''.'' \<and> p \<noteq> ''..''"

definition canonical_path :: "string \<Rightarrow> bool" where
  "canonical_path s \<longleftrightarrow> CHR 0x5C \<notin> set s \<and> list_all proper (split_on (CHR ''/'') s)"

lemma clean_parts_keeps: "list_all proper ps \<Longrightarrow> clean_parts r ps out = rev out @ ps"
  by (induction ps arbitrary: out) (auto simp: proper_def)

text \<open>The elements of the result: some \<open>..\<close>, then elements that name something.\<close>

definition climbing :: "string list \<Rightarrow> bool" where
  "climbing ps \<longleftrightarrow> list_all proper (dropWhile (\<lambda>p. p = ''..'') ps)"

lemma dropWhile_snoc:
  "dropWhile P (xs @ [x])
    = (if list_all P xs then dropWhile P [x] else dropWhile P xs @ [x])"
  by (induction xs) auto

lemma dropWhile_all: "list_all P xs \<Longrightarrow> dropWhile P xs = []"
  by (induction xs) auto

lemma climbing_snoc: "climbing ps \<Longrightarrow> proper p \<Longrightarrow> climbing (ps @ [p])"
  by (auto simp: climbing_def dropWhile_snoc)

lemma climbing_drop: "climbing (ps @ [q]) \<Longrightarrow> climbing ps"
  by (auto simp: climbing_def dropWhile_snoc dropWhile_all split: if_splits)

lemma climbing_up: "climbing (ps @ [''..'']) \<Longrightarrow> climbing (ps @ [''..'', ''..''])"
proof -
  assume "climbing (ps @ [''..''])"
  then have "list_all (\<lambda>p. p = ''..'') ps"
    by (auto simp: climbing_def dropWhile_snoc proper_def split: if_splits)
  then have "list_all (\<lambda>p. p = ''..'') (ps @ [''..'', ''..''])" by simp
  then have "dropWhile (\<lambda>p. p = ''..'') (ps @ [''..'', ''..'']) = []" by (rule dropWhile_all)
  then show ?thesis by (simp only: climbing_def list.pred_inject)
qed

lemma clean_parts_climbing: "climbing (rev out) \<Longrightarrow> climbing (clean_parts r ps out)"
proof (induction r ps out rule: clean_parts.induct)
  case (2 r p ps out)
  consider (skip) "p = [] \<or> p = ''.''" | (top) "p = ''..''" "out = []"
    | (climb) q out' where "p = ''..''" "out = q # out'" "q = ''..''"
    | (pop) q out' where "p = ''..''" "out = q # out'" "q \<noteq> ''..''" | (push) "proper p"
    unfolding proper_def by (metis list.exhaust)
  then show ?case
  proof cases
    case skip
    then have "clean_parts r (p # ps) out = clean_parts r ps out" by auto
    then show ?thesis using 2(1) [OF skip 2(7)] by simp
  next
    case top
    have up: "climbing (rev [''..''])" "climbing (rev [])" by (simp_all add: climbing_def)
    then show ?thesis using 2 top by (cases r) auto
  next
    case (climb q out')
    then have "climbing (rev (p # out))" using 2(7) climbing_up by simp
    then show ?thesis using 2 climb by simp
  next
    case (pop q out')
    then have "climbing (rev out')" using 2(7) climbing_drop by simp
    then show ?thesis using 2 pop by simp
  next
    case push
    then have "climbing (rev (p # out))" using 2(7) climbing_snoc by simp
    then show ?thesis using 2 push by (simp add: proper_def)
  qed
qed simp

lemma clean_parts_parts:
  "\<forall>p \<in> set ps \<union> set out. d \<notin> set p \<Longrightarrow> \<forall>p \<in> set (clean_parts r ps out). d \<notin> set p"
  by (induction r ps out rule: clean_parts.induct) (auto split: list.splits if_splits)

lemma cleanArchiveName_iff: "cleanArchiveName name = Inr c \<longleftrightarrow> c = name \<and> canonical_path name"
proof
  assume "cleanArchiveName name = Inr c"
  then have c: "c = Clean name" "name = Clean name" "name \<noteq> ''.''" "name \<noteq> ''..''"
      "\<not> HasPrefix name ''../''" "\<not> HasPrefix name ''/''"
    and p: "name = map (\<lambda>c. if c = CHR 0x5C then CHR ''/'' else c) name"
    by (auto simp: cleanArchiveName_def Let_def split: if_splits)
  have bs: "CHR 0x5C \<notin> set name"
  proof
    assume "CHR 0x5C \<in> set name"
    moreover have "CHR 0x5C \<notin> set (map (\<lambda>c. if c = CHR 0x5C then CHR ''/'' else c) name)" by auto
    ultimately show False using p by simp
  qed
  define out where "out = clean_parts False (split_on (CHR ''/'') name) []"
  have nr: "\<not> (name \<noteq> [] \<and> name ! 0 = CHR ''/'')"
    using c(6) by (cases name) (auto simp: HasPrefix_def)
  have "join_on (CHR ''/'') out \<noteq> []"
    using c(2,3) nr by (auto simp: Clean_def Let_def out_def)
  then have n: "name = join_on (CHR ''/'') out" and ne: "out \<noteq> []"
    using c(2) nr by (auto simp: Clean_def Let_def out_def split: if_splits)
  have "\<forall>p \<in> set out. CHR ''/'' \<notin> set p"
    unfolding out_def by (rule clean_parts_parts) (auto dest: split_on_parts)
  then have s: "split_on (CHR ''/'') name = out" using split_join [OF ne] n by simp
  have "climbing (rev [])" by (simp add: climbing_def)
  then have cl: "climbing out" unfolding out_def by (rule clean_parts_climbing)
  obtain p ps where pp: "out = p # ps" using ne by (cases out) auto
  have "p \<noteq> ''..''"
  proof
    assume "p = ''..''"
    then show False using n c(4,5) pp by (cases ps) (auto simp: HasPrefix_def)
  qed
  then have "list_all proper out" using cl unfolding climbing_def pp by (simp only: dropWhile.simps if_False)
  then show "c = name \<and> canonical_path name"
    using c(1,2) bs unfolding canonical_path_def s by simp
next
  assume r: "c = name \<and> canonical_path name"
  then have ps: "list_all proper (split_on (CHR ''/'') name)"
    and bs: "CHR 0x5C \<notin> set name" by (auto simp: canonical_path_def)
  have m: "map (\<lambda>c. if c = CHR 0x5C then CHR ''/'' else c) name = name"
    using bs by (intro map_idI) auto
  obtain p ps where sp: "split_on (CHR ''/'') name = p # ps" by (metis split_on_not_Nil neq_Nil_conv)
  have nj: "name = join_on (CHR ''/'') (p # ps)" by (metis join_split sp)
  have ok: "p \<noteq> []" "p \<noteq> ''.''" "p \<noteq> ''..''" "CHR ''/'' \<notin> set p"
    using ps split_on_parts [of p "CHR ''/''" name] by (auto simp: sp proper_def)
  then have hd: "name \<noteq> []" "name ! 0 \<noteq> CHR ''/''"
    using nj by (cases p; cases ps; auto)+
  have cl: "Clean name = name"
    using hd ps by (simp add: Clean_def clean_parts_keeps join_split)
  have "name \<noteq> ''.''" "name \<noteq> ''..''" using ok nj by (cases ps; auto simp: append_eq_Cons_conv)+
  moreover have "\<not> HasPrefix name ''/''" using hd by (cases name) (auto simp: HasPrefix_def)
  moreover have "\<not> HasPrefix name ''../''"
  proof
    assume "HasPrefix name ''../''"
    then obtain t where "name = ''..'' @ CHR ''/'' # t" by (auto simp: HasPrefix_iff)
    then have "split_on (CHR ''/'') name = ''..'' # split_on (CHR ''/'') t" by simp
    then show False using sp ok(3) by simp
  qed
  ultimately show "cleanArchiveName name = Inr c"
    using r by (simp add: cleanArchiveName_def m cl)
qed

end
