(* ===== verification/Dist_Discover.thy ===== *)
theory Dist_Discover
  imports Dist_Names
begin

text \<open>
  The archives of a distribution (\<open>expectedTargets\<close>, \<open>parseArchiveName\<close> and \<open>discoverArchives\<close> of
  \<open>internal/distcheck/distcheck.go\<close>). The listing \<open>os.ReadDir\<close> returns is an argument: \<open>None\<close> if it
  fails, else the entries, each with what \<open>entry.Info\<close> returns. The set \<open>seen\<close> is a list.
\<close>

record target =
  t_os :: string
  t_arch :: string

record archive =
  v_name :: string
  v_path :: string
  v_target :: target
  v_version :: string

definition maxArchiveBytes :: int where
  "maxArchiveBytes = 512 * 2 ^ 20"

definition expectedTargets :: "target list" where
  "expectedTargets =
     [\<lparr>t_os = ''darwin'', t_arch = ''amd64''\<rparr>, \<lparr>t_os = ''darwin'', t_arch = ''arm64''\<rparr>,
      \<lparr>t_os = ''linux'', t_arch = ''amd64''\<rparr>, \<lparr>t_os = ''linux'', t_arch = ''arm64''\<rparr>,
      \<lparr>t_os = ''windows'', t_arch = ''amd64''\<rparr>, \<lparr>t_os = ''windows'', t_arch = ''arm64''\<rparr>]"

section \<open>Names\<close>

definition name_suffix :: "target \<Rightarrow> string" where
  "name_suffix t =
     ''_'' @ t_os t @ ''_'' @ t_arch t @ (if t_os t = ''windows'' then ''.zip'' else ''.tar.gz'')"

fun parse_candidates :: "string \<Rightarrow> string \<Rightarrow> target list \<Rightarrow> archive option" where
  "parse_candidates directory name [] = None"
| "parse_candidates directory name (candidate # ts) =
     (if \<not> HasSuffix name (name_suffix candidate) then parse_candidates directory name ts
      else (let version = TrimSuffix (TrimPrefix name ''relaybox_'') (name_suffix candidate)
        in if version = [] then None
           else Some \<lparr>v_name = name, v_path = Join directory name, v_target = candidate,
             v_version = version\<rparr>))"

definition parseArchiveName :: "string \<Rightarrow> string \<Rightarrow> archive option" where
  "parseArchiveName directory name =
     (if \<not> HasPrefix name ''relaybox_'' then None
      else parse_candidates directory name expectedTargets)"

definition archive_name :: "string \<Rightarrow> target \<Rightarrow> string" where
  "archive_name v t = ''relaybox_'' @ v @ name_suffix t"

lemma HasSuffix_total:
  assumes "HasSuffix s p" "HasSuffix s q" "length p \<le> length q"
  shows "HasSuffix q p"
proof -
  obtain u v where "s = u @ p" "s = v @ q" using assms(1,2) unfolding HasSuffix_iff by blast
  then have e: "u @ p = v @ q" by simp
  then have "length v \<le> length u" using assms(3) by (metis add_le_cancel_left add_le_mono length_append nat_le_linear le_antisym add.commute)
  then show ?thesis using e unfolding HasSuffix_iff
    by (metis append_eq_append_conv_if append_eq_append_conv2 length_append linorder_not_le assms(3) append_Nil)
qed

lemma suffixes_differ:
  "list_all (\<lambda>t. list_all (\<lambda>u. t = u \<or> \<not> HasSuffix (name_suffix t) (name_suffix u)) expectedTargets)
     expectedTargets"
  by code_simp

lemma suffix_unique:
  assumes "HasSuffix name (name_suffix t)" "HasSuffix name (name_suffix u)"
    "t \<in> set expectedTargets" "u \<in> set expectedTargets"
  shows "t = u"
proof -
  have d: "t = u \<or> \<not> HasSuffix (name_suffix t) (name_suffix u) \<and> \<not> HasSuffix (name_suffix u) (name_suffix t)"
    using suffixes_differ assms(3,4) by (auto simp: list_all_iff)
  show ?thesis
    using d HasSuffix_total [OF assms(1,2)] HasSuffix_total [OF assms(2,1)] by linarith
qed

lemma parse_candidates_Some:
  "parse_candidates dir name ts = Some a \<Longrightarrow> \<exists>t \<in> set ts. HasSuffix name (name_suffix t) \<and> v_target a = t
     \<and> v_name a = name \<and> v_path a = Join dir name \<and> v_version a \<noteq> []
     \<and> v_version a = TrimSuffix (TrimPrefix name ''relaybox_'') (name_suffix t)"
  by (induction ts) (auto simp: Let_def split: if_splits)

lemma parse_candidates_at:
  assumes "t \<in> set ts" "set ts \<subseteq> set expectedTargets" "HasSuffix name (name_suffix t)"
    "TrimSuffix (TrimPrefix name ''relaybox_'') (name_suffix t) = v" "v \<noteq> []"
  shows "parse_candidates dir name ts
    = Some \<lparr>v_name = name, v_path = Join dir name, v_target = t, v_version = v\<rparr>"
  using assms(1,2)
proof (induction ts)
  case (Cons u ts)
  show ?case
  proof (cases "HasSuffix name (name_suffix u)")
    case True
    then have "u = t" using suffix_unique assms(3) Cons.prems by auto
    then show ?thesis using assms(3,4,5) by (simp add: Let_def)
  next
    case False
    then show ?thesis using Cons assms(3) by auto
  qed
qed simp

lemma archive_name_suffix: "HasSuffix (archive_name v t) (name_suffix t)"
proof -
  have "archive_name v t = (''relaybox_'' @ v) @ name_suffix t" by (simp add: archive_name_def)
  then show ?thesis by (metis HasSuffix_append)
qed

lemma parse_archive_name:
  assumes "t \<in> set expectedTargets" "v \<noteq> []"
  shows "parseArchiveName dir (archive_name v t)
    = Some \<lparr>v_name = archive_name v t, v_path = Join dir (archive_name v t), v_target = t, v_version = v\<rparr>"
proof -
  have p: "HasPrefix (archive_name v t) ''relaybox_''"
    "TrimPrefix (archive_name v t) ''relaybox_'' = v @ name_suffix t"
    unfolding archive_name_def by (rule HasPrefix_append TrimPrefix_append)+
  show ?thesis
    unfolding parseArchiveName_def using p assms archive_name_suffix by (simp add: parse_candidates_at)
qed

lemma last_only:
  assumes "p @ [c] = u @ c # z" "c \<notin> set p"
  shows "u = p \<and> z = []"
  using assms
proof (induction p arbitrary: u)
  case (Cons a p)
  then show ?case by (cases u) auto
qed (auto simp: Cons_eq_append_conv)

lemma overlap:
  assumes "p @ r = u @ c # w"
  obtains z where "u = p @ z" "r = z @ c # w" | z where "p = u @ z" "z \<noteq> []" "z @ r = c # w"
proof -
  obtain us where "p = u @ us \<and> us @ r = c # w \<or> p @ us = u \<and> r = us @ c # w"
    using assms unfolding append_eq_append_conv2 by blast
  then show thesis using that by (cases "us = []") auto
qed

text \<open>
  A parsed name is that of an archive, or, as the prefix and the suffix tested may share their
  underscore, that of an archive without a version.
\<close>

lemma parse_name_cases:
  assumes "parseArchiveName dir name = Some a"
  shows "v_target a \<in> set expectedTargets" "v_name a = name" "v_path a = Join dir name" "v_version a \<noteq> []"
    "name = archive_name (v_version a) (v_target a)
      \<or> name = ''relaybox'' @ name_suffix (v_target a) \<and> v_version a = tl (name_suffix (v_target a))"
proof -
  obtain r where r: "name = ''relaybox_'' @ r"
    using assms by (auto simp: parseArchiveName_def HasPrefix_iff split: if_splits)
  obtain t where t: "t \<in> set expectedTargets" "HasSuffix name (name_suffix t)" "v_target a = t"
    "v_name a = name" "v_path a = Join dir name" "v_version a \<noteq> []"
    "v_version a = TrimSuffix r (name_suffix t)"
    using assms parse_candidates_Some unfolding r
    by (fastforce simp: parseArchiveName_def simp del: append.simps split: if_splits)
  then show "v_target a \<in> set expectedTargets" "v_name a = name" "v_path a = Join dir name"
    "v_version a \<noteq> []" by simp_all
  obtain u where u: "name = u @ name_suffix t" using t(2) unfolding HasSuffix_iff by blast
  show "name = archive_name (v_version a) (v_target a)
      \<or> name = ''relaybox'' @ name_suffix (v_target a) \<and> v_version a = tl (name_suffix (v_target a))"
  proof (cases "HasSuffix r (name_suffix t)")
    case True
    then obtain w where "r = w @ name_suffix t" unfolding HasSuffix_iff by blast
    then have "name = archive_name (v_version a) (v_target a)"
      using r t(3,7) by (simp add: archive_name_def)
    then show ?thesis by blast
  next
    case False
    define w where "w = tl (name_suffix t)"
    have s: "name_suffix t = CHR ''_'' # w" by (simp add: w_def name_suffix_def)
    have e: "''relaybox_'' @ r = u @ CHR ''_'' # w" using r u s by simp
    then consider z where "u = ''relaybox_'' @ z" "r = z @ CHR ''_'' # w"
      | z where "''relaybox_'' = u @ z" "z \<noteq> []" "z @ r = CHR ''_'' # w"
      by (rule overlap)
    then show ?thesis
    proof cases
      case (1 z)
      then show ?thesis using False s unfolding HasSuffix_iff by simp
    next
      case (2 z)
      then obtain z' where z: "z = CHR ''_'' # z'" "w = z' @ r" by (cases z) auto
      have us: "CHR ''_'' \<notin> set ''relaybox''" by code_simp
      have "''relaybox'' @ [CHR ''_''] = u @ CHR ''_'' # z'" using 2(1) z(1) by simp
      note uz = last_only [OF this us]
      have "name = ''relaybox'' @ name_suffix t" using u uz by (simp only: simp_thms)
      moreover have "v_version a = tl (name_suffix t)"
        using t(7) False z(2) uz w_def by (simp only: TrimSuffix_def if_False append_Nil)
      ultimately show ?thesis using t(3) by (simp only: simp_thms)
    qed
  qed
qed

lemma parse_name_versioned:
  assumes "parseArchiveName dir name = Some a" "CHR ''_'' \<notin> set (v_version a)"
  shows "name = archive_name (v_version a) (v_target a)"
proof -
  have "CHR ''_'' \<in> set (tl (name_suffix t))" for t by (simp add: name_suffix_def)
  then show ?thesis using parse_name_cases(5) [OF assms(1)] assms(2) by metis
qed

section \<open>The listing\<close>

record entry_info =
  i_regular :: bool
  i_size :: int

record dir_entry =
  d_Name :: string
  d_IsDir :: bool
  d_Info :: "entry_info option"

datatype discover_error =
    ReadDirectory
  | UnexpectedArchive string
  | InspectEntry string
  | NotBoundedFile string
  | DuplicateTarget target
  | VersionMismatch string string string
  | MissingTarget target

definition release_entry :: "dir_entry \<Rightarrow> bool" where
  "release_entry e \<longleftrightarrow> \<not> (d_IsDir e \<or> \<not> HasSuffix (d_Name e) ''.tar.gz'' \<and> \<not> HasSuffix (d_Name e) ''.zip'')"

fun discover_entries ::
    "string \<Rightarrow> dir_entry list \<Rightarrow> target list \<Rightarrow> string \<Rightarrow> archive list
     \<Rightarrow> discover_error + target list \<times> string \<times> archive list" where
  "discover_entries dir [] seen version archives = Inr (seen, version, archives)"
| "discover_entries dir (e # es) seen version archives =
     (if \<not> release_entry e then discover_entries dir es seen version archives
      else (case parseArchiveName dir (d_Name e) of
          None \<Rightarrow> Inl (UnexpectedArchive (d_Name e))
        | Some item \<Rightarrow>
            if v_target item \<notin> set expectedTargets then Inl (UnexpectedArchive (d_Name e))
            else (case d_Info e of
                None \<Rightarrow> Inl (InspectEntry (d_Name e))
              | Some info \<Rightarrow>
                  if \<not> i_regular info \<or> i_size info \<le> 0 \<or> i_size info > maxArchiveBytes
                    then Inl (NotBoundedFile (d_Name e))
                  else if v_target item \<in> set seen then Inl (DuplicateTarget (v_target item))
                  else if version = [] then
                    discover_entries dir es (v_target item # seen) (v_version item) (archives @ [item])
                  else if v_version item \<noteq> version
                    then Inl (VersionMismatch (v_name item) (v_version item) version)
                  else discover_entries dir es (v_target item # seen) version (archives @ [item]))))"

definition by_name :: "archive \<Rightarrow> archive \<Rightarrow> bool" where
  "by_name a b \<longleftrightarrow> v_name a < v_name b"

definition discoverArchives ::
    "string \<Rightarrow> dir_entry list option \<Rightarrow> discover_error + archive list \<times> string" where
  "discoverArchives dir listing =
     (case listing of
       None \<Rightarrow> Inl ReadDirectory
     | Some es \<Rightarrow>
         (case discover_entries dir es [] [] [] of
           Inl e \<Rightarrow> Inl e
         | Inr (seen, version, archives) \<Rightarrow>
             (case find (\<lambda>t. t \<notin> set seen) expectedTargets of
               Some t \<Rightarrow> Inl (MissingTarget t)
             | None \<Rightarrow> Inr (sort_slice by_name archives, version))))"

interpretation by_name: slice_less by_name
  by unfold_locales (auto simp: by_name_def)

text \<open>What is expected of the entry of an archive.\<close>

definition bounded_entry :: "dir_entry \<Rightarrow> bool" where
  "bounded_entry e \<longleftrightarrow>
     (\<exists>i. d_Info e = Some i \<and> i_regular i \<and> 0 < i_size i \<and> i_size i \<le> maxArchiveBytes)"

lemma discover_entries_Inr:
  "discover_entries dir es seen v as = Inr (seen', v', as') \<longleftrightarrow>
    (\<exists>items. map (\<lambda>e. parseArchiveName dir (d_Name e)) (filter release_entry es) = map Some items
      \<and> list_all bounded_entry (filter release_entry es)
      \<and> distinct (map v_target items) \<and> set (map v_target items) \<inter> set seen = {}
      \<and> as' = as @ items \<and> seen' = rev (map v_target items) @ seen
      \<and> v' = (if v = [] \<and> items \<noteq> [] then v_version (hd items) else v)
      \<and> (\<forall>i \<in> set items. v_version i = v'))" (is "?D es seen v as \<longleftrightarrow> (\<exists>items. ?P es seen v as items)")
proof (induction es arbitrary: seen v as)
  case (Cons e es)
  show ?case
  proof (cases "release_entry e")
    case False
    then show ?thesis using Cons.IH by simp
  next
    case r: True
    show ?thesis
    proof (cases "parseArchiveName dir (d_Name e)")
      case None
      then show ?thesis using r by auto
    next
      case (Some item)
      note nm = parse_name_cases(1,4) [OF Some]
      define w where "w = (if v = [] then v_version item else v)"
      have w: "w \<noteq> []" using nm by (simp add: w_def)
      have "?D (e # es) seen v as \<longleftrightarrow> bounded_entry e \<and> v_target item \<notin> set seen
          \<and> v_version item = w \<and> ?D es (v_target item # seen) w (as @ [item])"
        using r Some nm by (auto simp: bounded_entry_def w_def split: option.split)
      also have "\<dots> \<longleftrightarrow> (\<exists>items. bounded_entry e \<and> v_target item \<notin> set seen
          \<and> v_version item = w \<and> ?P es (v_target item # seen) w (as @ [item]) items)"
        unfolding Cons.IH by blast
      also have "\<dots> \<longleftrightarrow> (\<exists>items. ?P (e # es) seen v as (item # items))"
        using r Some w by (intro ex_cong1) (auto simp: w_def)
      also have "\<dots> \<longleftrightarrow> (\<exists>items. ?P (e # es) seen v as items)"
      proof
        assume "\<exists>items. ?P (e # es) seen v as items"
        then obtain items where i: "?P (e # es) seen v as items" by blast
        then obtain its where "items = item # its" using r Some by (cases items) auto
        then show "\<exists>items. ?P (e # es) seen v as (item # items)" using i by blast
      qed blast
      finally show ?thesis .
    qed
  qed
qed auto

lemma expectedTargets_distinct: "distinct expectedTargets"
  by code_simp

lemma targets_mset:
  assumes "distinct ts" "set ts \<subseteq> set expectedTargets"
  shows "(\<forall>t \<in> set expectedTargets. t \<in> set ts) \<longleftrightarrow> mset ts = mset expectedTargets"
proof -
  have "mset ts = mset expectedTargets \<longleftrightarrow> set ts = set expectedTargets"
    using assms(1) expectedTargets_distinct by (metis mset_set_set set_mset_mset)
  then show ?thesis using assms(2) by auto
qed

lemma discoverArchives_iff:
  "discoverArchives dir (Some es) = Inr (as, v) \<longleftrightarrow>
    (\<exists>items. map (\<lambda>e. parseArchiveName dir (d_Name e)) (filter release_entry es) = map Some items
      \<and> list_all bounded_entry (filter release_entry es)
      \<and> mset (map v_target items) = mset expectedTargets
      \<and> (\<forall>i \<in> set items. v_version i = v) \<and> as = sort_slice by_name items)"
proof -
  have sub: "set (map v_target items) \<subseteq> set expectedTargets"
    if "map (\<lambda>e. parseArchiveName dir (d_Name e)) (filter release_entry es) = map Some items" for items
  proof -
    have "\<exists>n. parseArchiveName dir n = Some i" if "i \<in> set items" for i
    proof -
      have "Some i \<in> set (map Some items)" using that by simp
      then have "Some i \<in> set (map (\<lambda>e. parseArchiveName dir (d_Name e)) (filter release_entry es))"
        using \<open>_ = map Some items\<close> by simp
      then show ?thesis by auto
    qed
    then show ?thesis using parse_name_cases(1) by fastforce
  qed
  have f: "find (\<lambda>t. t \<notin> set seen) expectedTargets = None \<longleftrightarrow> (\<forall>t \<in> set expectedTargets. t \<in> set seen)"
    for seen by (auto simp: find_None_iff)
  have "discoverArchives dir (Some es) = Inr (as, v) \<longleftrightarrow> (\<exists>seen items.
      discover_entries dir es [] [] [] = Inr (seen, v, items)
      \<and> (\<forall>t \<in> set expectedTargets. t \<in> set seen) \<and> as = sort_slice by_name items)"
    by (auto simp: discoverArchives_def simp flip: f split: sum.splits option.splits prod.splits)
  also have "\<dots> \<longleftrightarrow> (\<exists>items. map (\<lambda>e. parseArchiveName dir (d_Name e)) (filter release_entry es) = map Some items
      \<and> list_all bounded_entry (filter release_entry es) \<and> distinct (map v_target items)
      \<and> v = (if items \<noteq> [] then v_version (hd items) else [])
      \<and> (\<forall>i \<in> set items. v_version i = v)
      \<and> (\<forall>t \<in> set expectedTargets. t \<in> set (map v_target items)) \<and> as = sort_slice by_name items)"
    unfolding discover_entries_Inr by fastforce
  also have "\<dots> \<longleftrightarrow> (\<exists>items. map (\<lambda>e. parseArchiveName dir (d_Name e)) (filter release_entry es) = map Some items
      \<and> list_all bounded_entry (filter release_entry es) \<and> mset (map v_target items) = mset expectedTargets
      \<and> (\<forall>i \<in> set items. v_version i = v) \<and> as = sort_slice by_name items)"
  proof -
    have "(distinct (map v_target items) \<and> v = (if items \<noteq> [] then v_version (hd items) else [])
        \<and> (\<forall>i \<in> set items. v_version i = v)
        \<and> (\<forall>t \<in> set expectedTargets. t \<in> set (map v_target items)))
      \<longleftrightarrow> (mset (map v_target items) = mset expectedTargets \<and> (\<forall>i \<in> set items. v_version i = v))"
      if m: "map (\<lambda>e. parseArchiveName dir (d_Name e)) (filter release_entry es) = map Some items" for items
    proof -
      have ne: "items \<noteq> []" if "\<forall>t \<in> set expectedTargets. t \<in> set (map v_target items)"
        using that by (auto simp: expectedTargets_def)
      have d: "distinct (map v_target items)" if "mset (map v_target items) = mset expectedTargets"
        using that expectedTargets_distinct by (metis mset_eq_imp_distinct_iff)
      note t = targets_mset [OF _ sub [OF m]]
      show ?thesis using ne d t by (metis hd_in_set)
    qed
    then show ?thesis by blast
  qed
  finally show ?thesis .
qed

end
