(* ===== verification/Dist_Checksums.thy ===== *)
theory Dist_Checksums
  imports Dist_Discover
begin

text \<open>
  The checksum manifest (\<open>verifyChecksums\<close>, \<open>readBoundedRegular\<close> and \<open>fileSHA256\<close> of
  \<open>internal/distcheck/distcheck.go\<close>). The files are an argument: what opening a path gives, with
  what each later call on it returns. White space is ASCII white space.
\<close>

section \<open>Files\<close>

record os_file =
  f_statFails :: bool
  f_regular :: bool
  f_size :: int
  f_data :: string
  f_readFails :: bool
  f_closeFails :: bool

type_synonym files = "string \<Rightarrow> os_file option"

datatype file_error =
    OpenFailed
  | StatFailed
  | NotBoundedRegular
  | ReadFailed
  | CloseFailed
  | LimitExceeded

definition maxChecksumBytes :: int where
  "maxChecksumBytes = 2 ^ 20"

definition readBoundedRegular :: "files \<Rightarrow> string \<Rightarrow> int \<Rightarrow> file_error + string" where
  "readBoundedRegular fs name limit =
     (case fs name of
       None \<Rightarrow> Inl OpenFailed
     | Some f \<Rightarrow>
         if f_statFails f then Inl StatFailed
         else if \<not> f_regular f \<or> f_size f > limit then Inl NotBoundedRegular
         else (let data = take (nat (limit + 1)) (f_data f)
           in if f_readFails f then Inl ReadFailed
              else if f_closeFails f then Inl CloseFailed
              else if int (length data) > limit then Inl LimitExceeded
              else Inr data))"

definition fileSHA256 :: "files \<Rightarrow> string \<Rightarrow> file_error + string" where
  "fileSHA256 fs name =
     (case fs name of
       None \<Rightarrow> Inl OpenFailed
     | Some f \<Rightarrow>
         if f_statFails f then Inl StatFailed
         else if \<not> f_regular f \<or> f_size f \<le> 0 \<or> f_size f > maxArchiveBytes then Inl NotBoundedRegular
         else if f_readFails f then Inl ReadFailed
         else if f_closeFails f then Inl CloseFailed
         else Inr (sha256 (f_data f)))"

text \<open>A file that is read without an error, and is what it says it is.\<close>

definition plain_file :: "string \<Rightarrow> os_file" where
  "plain_file data = \<lparr>f_statFails = False, f_regular = True, f_size = int (length data),
     f_data = data, f_readFails = False, f_closeFails = False\<rparr>"

lemma readBoundedRegular_Inr:
  assumes "readBoundedRegular fs name limit = Inr data" "0 \<le> limit"
  shows "\<exists>f. fs name = Some f \<and> f_regular f \<and> data = f_data f \<and> int (length data) \<le> limit"
proof -
  obtain f where f: "fs name = Some f" "f_regular f" "data = take (nat (limit + 1)) (f_data f)"
    "int (length data) \<le> limit"
    using assms(1) by (auto simp: readBoundedRegular_def Let_def split: option.splits if_splits)
  then have "length (f_data f) \<le> nat (limit + 1)" using assms(2) by (auto simp: min_def split: if_splits)
  then show ?thesis using f by simp
qed

lemma readBoundedRegular_plain:
  "fs name = Some (plain_file data) \<Longrightarrow> int (length data) \<le> limit
    \<Longrightarrow> readBoundedRegular fs name limit = Inr data"
  by (simp add: readBoundedRegular_def plain_file_def)

lemma fileSHA256_Inr:
  "fileSHA256 fs name = Inr d \<Longrightarrow> \<exists>f. fs name = Some f \<and> f_regular f \<and> 0 < f_size f
     \<and> f_size f \<le> maxArchiveBytes \<and> d = sha256 (f_data f)"
  by (auto simp: fileSHA256_def split: option.splits if_splits)

lemma fileSHA256_plain:
  "fs name = Some (plain_file data) \<Longrightarrow> data \<noteq> [] \<Longrightarrow> int (length data) \<le> maxArchiveBytes
    \<Longrightarrow> fileSHA256 fs name = Inr (sha256 data)"
  by (simp add: fileSHA256_def plain_file_def)

section \<open>The manifest\<close>

text \<open>\<open>strings.Fields\<close>.\<close>

function Fields :: "string \<Rightarrow> string list" where
  "Fields [] = []"
| "Fields (c # s) =
     (if is_space c then Fields s
      else (c # takeWhile (\<lambda>x. \<not> is_space x) s) # Fields (dropWhile (\<lambda>x. \<not> is_space x) s))"
  by pat_completeness auto
termination
  by (relation "measure length") (auto simp: le_imp_less_Suc length_dropWhile_le)

datatype checksum_error =
    ReadManifest file_error
  | EntryCount nat nat
  | InvalidLine nat
  | InvalidDigest nat
  | UnsafeName nat
  | UnexpectedArtifact string
  | RepeatedArtifact string
  | HashFailed string file_error
  | ChecksumMismatch string
  | MissingArtifact string

definition wanted_of :: "archive list \<Rightarrow> (string, archive) fmap" where
  "wanted_of archives = fold (\<lambda>item m. fmupd (v_name item) item m) archives fmempty"

definition checksum_line ::
    "files \<Rightarrow> (string, archive) fmap \<Rightarrow> nat \<Rightarrow> string \<Rightarrow> string list \<Rightarrow> checksum_error + string" where
  "checksum_line fs wanted lineNumber line seen =
     (case Fields line of
       [field0, field1] \<Rightarrow>
         (case hex_decode field0 of
           None \<Rightarrow> Inl (InvalidDigest (lineNumber + 1))
         | Some digest \<Rightarrow>
             if length digest \<noteq> 32 then Inl (InvalidDigest (lineNumber + 1))
             else (let name = TrimPrefix field1 ''*''
               in if Base name \<noteq> name \<or> name = ''.'' then Inl (UnsafeName (lineNumber + 1))
                  else (case fmlookup wanted name of
                      None \<Rightarrow> Inl (UnexpectedArtifact name)
                    | Some item \<Rightarrow>
                        if name \<in> set seen then Inl (RepeatedArtifact name)
                        else (case fileSHA256 fs (v_path item) of
                            Inl e \<Rightarrow> Inl (HashFailed name e)
                          | Inr actual \<Rightarrow>
                              if \<not> EqualFold field0 (hex_encode actual) then Inl (ChecksumMismatch name)
                              else Inr name))))
     | _ \<Rightarrow> Inl (InvalidLine (lineNumber + 1)))"

fun checksum_lines ::
    "files \<Rightarrow> (string, archive) fmap \<Rightarrow> nat \<Rightarrow> string list \<Rightarrow> string list \<Rightarrow> checksum_error + string list" where
  "checksum_lines fs wanted lineNumber [] seen = Inr seen"
| "checksum_lines fs wanted lineNumber (line # ls) seen =
     (case checksum_line fs wanted lineNumber line seen of
       Inl e \<Rightarrow> Inl e
     | Inr name \<Rightarrow> checksum_lines fs wanted (lineNumber + 1) ls (name # seen))"

definition verifyChecksums ::
    "files \<Rightarrow> order \<Rightarrow> string \<Rightarrow> archive list \<Rightarrow> checksum_error option" where
  "verifyChecksums fs ord directory archives =
     (case readBoundedRegular fs (Join directory ''checksums.txt'') maxChecksumBytes of
       Inl e \<Rightarrow> Some (ReadManifest e)
     | Inr manifest \<Rightarrow>
         (let wanted = wanted_of archives;
              ls = split_on (CHR 0x0A) (TrimSpace manifest)
          in if length ls \<noteq> length archives then Some (EntryCount (length ls) (length archives))
             else (case checksum_lines fs wanted 0 ls [] of
                 Inl e \<Rightarrow> Some e
               | Inr seen \<Rightarrow>
                   map_option MissingArtifact (find (\<lambda>name. name \<notin> set seen) (range_keys ord wanted)))))"

section \<open>What a line says\<close>

text \<open>A line gives the digest of the file of the archive it names.\<close>

definition line_ok :: "files \<Rightarrow> archive list \<Rightarrow> string \<Rightarrow> string \<Rightarrow> bool" where
  "line_ok fs archives line name \<longleftrightarrow> (\<exists>field0 field1 item actual. Fields line = [field0, field1]
     \<and> TrimPrefix field1 ''*'' = name \<and> Base name = name \<and> name \<noteq> ''.''
     \<and> item \<in> set archives \<and> v_name item = name \<and> fileSHA256 fs (v_path item) = Inr actual
     \<and> hex_decode field0 = Some actual)"

lemma wanted_of_lookup:
  assumes "distinct (map v_name as)"
  shows "fmlookup (wanted_of as) n = Some item \<longleftrightarrow> item \<in> set as \<and> v_name item = n"
proof -
  have "fmlookup (fold (\<lambda>item m. fmupd (v_name item) item m) as m) n = Some item \<longleftrightarrow>
      item \<in> set as \<and> v_name item = n \<or> n \<notin> v_name ` set as \<and> fmlookup m n = Some item" for m
    using assms by (induction as arbitrary: m) (auto split: if_splits)
  then show ?thesis by (simp add: wanted_of_def)
qed

lemma hex_val_char:
  assumes "hex_val c = Some x"
  shows "x < 16 \<and> lower_byte c = hex_digit x"
proof -
  let ?ds = "[48..<58] @ [97..<103] @ [65..<71] :: nat list"
  have "list_all (\<lambda>n. case hex_val (char_of n) of None \<Rightarrow> True
      | Some x \<Rightarrow> x < 16 \<and> lower_byte (char_of n) = hex_digit x) ?ds" by code_simp
  moreover have "of_char c \<in> set ?ds"
    unfolding set_append set_upt Un_iff atLeastLessThan_iff
    using assms by (auto simp: hex_val_def less_eq_char_def split: if_splits)
  ultimately have "case hex_val (char_of (of_char c :: nat)) of None \<Rightarrow> True
      | Some x \<Rightarrow> x < 16 \<and> lower_byte (char_of (of_char c :: nat)) = hex_digit x"
    unfolding list_all_iff by blast
  then show ?thesis using assms by simp
qed

lemma hex_decode_Some: "hex_decode s = Some d \<Longrightarrow> ToLower s = hex_encode d"
proof (induction s arbitrary: d rule: hex_decode.induct)
  case (3 a b cs)
  then obtain x y r where r: "hex_val a = Some x" "hex_val b = Some y" "hex_decode cs = Some r"
    "d = char_of (16 * x + y) # r" by (auto split: option.splits)
  have "x < 16" "y < 16" "lower_byte a = hex_digit x" "lower_byte b = hex_digit y"
    using r(1,2) hex_val_char by blast+
  moreover from this have "(16 * x + y) mod 256 = 16 * x + y" by simp
  ultimately show ?case
    using 3(1) [OF r(1,2,3)] r(4)
    by (simp add: ToLower_def hex_encode_def hex_byte_def)
qed (simp_all add: ToLower_def hex_encode_def)

lemma digest_matches:
  assumes "hex_decode field = Some digest"
  shows "EqualFold field (hex_encode actual) \<longleftrightarrow> digest = actual"
proof -
  have "ToLower (hex_encode actual) = hex_encode actual" for actual
    by (rule hex_decode_Some [OF hex_decode_encode, of actual])
  then show ?thesis
    using hex_decode_Some [OF assms] hex_encode_inj by (auto simp: EqualFold_def)
qed

lemma fileSHA256_length: "fileSHA256 fs name = Inr d \<Longrightarrow> length d = 32"
  by (auto simp: fileSHA256_def split: option.splits if_splits)

lemma two_fields: "(case xs of [a, b] \<Rightarrow> f a b | _ \<Rightarrow> Inl e) = Inr y \<longleftrightarrow> (\<exists>a b. xs = [a, b] \<and> f a b = Inr y)"
  by (auto split: list.split)

lemma checksum_line_Inr:
  assumes "distinct (map v_name as)"
  shows "checksum_line fs (wanted_of as) n line seen = Inr name
    \<longleftrightarrow> line_ok fs as line name \<and> name \<notin> set seen"
proof
  assume l: "checksum_line fs (wanted_of as) n line seen = Inr name"
  obtain field0 field1 where f: "Fields line = [field0, field1]"
    using l unfolding checksum_line_def two_fields by blast
  define nm where "nm = TrimPrefix field1 ''*''"
  note l' = l [unfolded checksum_line_def f list.case, folded nm_def]
  obtain digest where d: "hex_decode field0 = Some digest" "length digest = 32"
    using l' by (cases "hex_decode field0") (simp_all split: if_splits)
  have n: "Base nm = nm" "nm \<noteq> ''.''"
    using l' d by (simp_all add: Let_def split: if_splits)
  obtain item where i: "fmlookup (wanted_of as) nm = Some item" "nm \<notin> set seen"
    using l' d n by (cases "fmlookup (wanted_of as) nm") (simp_all add: Let_def split: if_splits)
  obtain actual where a: "fileSHA256 fs (v_path item) = Inr actual" "EqualFold field0 (hex_encode actual)" "name = nm"
    using l' d n i by (cases "fileSHA256 fs (v_path item)") (simp_all add: Let_def split: if_splits)
  note c = d(1) n i a
  have "hex_decode field0 = Some actual" using digest_matches [OF c(1), of actual] c(1,7) by simp
  moreover have "item \<in> set as" "v_name item = nm" using wanted_of_lookup [OF assms] c(4) by blast+
  ultimately show "line_ok fs as line name \<and> name \<notin> set seen"
    unfolding line_ok_def c(8) using f c(2,3,5,6) nm_def
    by (intro conjI exI [of _ field0] exI [of _ field1] exI [of _ item] exI [of _ actual]) simp_all
next
  assume r: "line_ok fs as line name \<and> name \<notin> set seen"
  then obtain field0 field1 item actual where f: "Fields line = [field0, field1]"
    "TrimPrefix field1 ''*'' = name" "Base name = name" "name \<noteq> ''.''" "item \<in> set as"
    "v_name item = name" "fileSHA256 fs (v_path item) = Inr actual" "hex_decode field0 = Some actual"
    unfolding line_ok_def by blast
  have "fmlookup (wanted_of as) name = Some item" using wanted_of_lookup [OF assms] f(5,6) by blast
  then show "checksum_line fs (wanted_of as) n line seen = Inr name"
    unfolding checksum_line_def f(1) list.case f(2) Let_def f(8) option.case
    using f(3,4,7) r digest_matches [OF f(8), of actual] fileSHA256_length [OF f(7)] by simp
qed

lemma bind_Inr:
  "(case x of Inl e \<Rightarrow> Inl e | Inr z \<Rightarrow> g z) = Inr y \<longleftrightarrow> (\<exists>z. x = Inr z \<and> g z = Inr y)"
  by (cases x) auto

lemma checksum_lines_Inr:
  assumes "distinct (map v_name as)"
  shows "checksum_lines fs (wanted_of as) n ls seen = Inr seen' \<longleftrightarrow>
    (\<exists>names. list_all2 (line_ok fs as) ls names \<and> distinct names \<and> set names \<inter> set seen = {}
      \<and> seen' = rev names @ seen)"
proof (induction ls arbitrary: n seen)
  case (Cons line ls)
  have "checksum_lines fs (wanted_of as) n (line # ls) seen = Inr seen' \<longleftrightarrow>
      (\<exists>name. line_ok fs as line name \<and> name \<notin> set seen
         \<and> checksum_lines fs (wanted_of as) (n + 1) ls (name # seen) = Inr seen')"
    unfolding checksum_lines.simps bind_Inr checksum_line_Inr [OF assms] by blast
  also have "\<dots> \<longleftrightarrow> (\<exists>names. list_all2 (line_ok fs as) (line # ls) names \<and> distinct names
      \<and> set names \<inter> set seen = {} \<and> seen' = rev names @ seen)"
  proof
    assume "\<exists>name. line_ok fs as line name \<and> name \<notin> set seen
      \<and> checksum_lines fs (wanted_of as) (n + 1) ls (name # seen) = Inr seen'"
    then obtain name names where n: "line_ok fs as line name" "name \<notin> set seen"
      "list_all2 (line_ok fs as) ls names" "distinct names" "set names \<inter> set (name # seen) = {}"
      "seen' = rev names @ name # seen" unfolding Cons.IH by blast
    then show "\<exists>names. list_all2 (line_ok fs as) (line # ls) names \<and> distinct names
        \<and> set names \<inter> set seen = {} \<and> seen' = rev names @ seen"
      by (intro exI [of _ "name # names"]) auto
  next
    assume "\<exists>names. list_all2 (line_ok fs as) (line # ls) names \<and> distinct names
        \<and> set names \<inter> set seen = {} \<and> seen' = rev names @ seen"
    then obtain name names where n: "line_ok fs as line name" "list_all2 (line_ok fs as) ls names"
      "distinct (name # names)" "set (name # names) \<inter> set seen = {}" "seen' = rev (name # names) @ seen"
      unfolding list_all2_Cons1 by blast
    then show "\<exists>name. line_ok fs as line name \<and> name \<notin> set seen
      \<and> checksum_lines fs (wanted_of as) (n + 1) ls (name # seen) = Inr seen'"
      unfolding Cons.IH by (intro exI [of _ name] conjI exI [of _ names]) auto
  qed
  finally show ?case .
qed auto

lemma line_ok_name: "line_ok fs as line name \<Longrightarrow> name \<in> v_name ` set as"
  unfolding line_ok_def by (elim exE conjE) (rule rev_image_eqI, assumption, rule sym)

lemma verifyChecksums_None:
  assumes "distinct (map v_name as)" "range_order ord"
  shows "verifyChecksums fs ord dir as = None \<longleftrightarrow>
    (\<exists>manifest names. readBoundedRegular fs (Join dir ''checksums.txt'') maxChecksumBytes = Inr manifest
      \<and> mset names = mset (map v_name as)
      \<and> list_all2 (line_ok fs as) (split_on (CHR 0x0A) (TrimSpace manifest)) names)"
proof (cases "readBoundedRegular fs (Join dir ''checksums.txt'') maxChecksumBytes")
  case (Inr manifest)
  let ?ls = "split_on (CHR 0x0A) (TrimSpace manifest)"
  have dom: "set (range_keys ord (wanted_of as)) = v_name ` set as"
    using assms(2) wanted_of_lookup [OF assms(1)] by (auto simp: fmlookup_dom_iff)
  have full: "mset names = mset (map v_name as) \<longleftrightarrow> distinct names \<and> length names = length as"
    if "list_all2 (line_ok fs as) ?ls names" for names
  proof -
    have sub: "set names \<subseteq> set (map v_name as)"
    proof
      fix x assume "x \<in> set names"
      then obtain i where "i < length names" "x = names ! i" by (auto simp: in_set_conv_nth)
      then have "line_ok fs as (?ls ! i) x" using that by (auto simp: list_all2_conv_all_nth)
      then show "x \<in> set (map v_name as)" using line_ok_name by simp
    qed
    show ?thesis
    proof
      assume "mset names = mset (map v_name as)"
      then show "distinct names \<and> length names = length as"
        using assms(1) by (metis length_map mset_eq_imp_distinct_iff mset_eq_length)
    next
      assume d: "distinct names \<and> length names = length as"
      then have "card (set names) = card (set (map v_name as))"
        using assms(1) by (metis distinct_card length_map)
      then have "set names = set (map v_name as)" using sub by (simp add: card_subset_eq)
      then show "mset names = mset (map v_name as)" using d assms(1) by (metis set_eq_iff_mset_eq_distinct)
    qed
  qed
  have "verifyChecksums fs ord dir as = None \<longleftrightarrow> length ?ls = length as \<and>
      (\<exists>seen. checksum_lines fs (wanted_of as) 0 ?ls [] = Inr seen \<and> v_name ` set as \<subseteq> set seen)"
    by (auto simp: verifyChecksums_def Inr Let_def find_None_iff dom split: sum.split)
  also have "\<dots> \<longleftrightarrow> (\<exists>names. length ?ls = length as \<and> list_all2 (line_ok fs as) ?ls names
      \<and> distinct names \<and> v_name ` set as \<subseteq> set names)"
    unfolding checksum_lines_Inr [OF assms(1)] by (metis (no_types, lifting) append_Nil2 empty_set inf_bot_right set_rev)
  also have "\<dots> \<longleftrightarrow> (\<exists>names. mset names = mset (map v_name as) \<and> list_all2 (line_ok fs as) ?ls names)"
  proof (intro ex_cong1 iffI; elim conjE)
    fix names
    assume "length ?ls = length as" "list_all2 (line_ok fs as) ?ls names" "distinct names"
    then show "mset names = mset (map v_name as) \<and> list_all2 (line_ok fs as) ?ls names"
      using full list_all2_lengthD by metis
  next
    fix names
    assume m: "mset names = mset (map v_name as)" and a: "list_all2 (line_ok fs as) ?ls names"
    then have "set names = v_name ` set as" by (metis list.set_map set_mset_mset)
    then show "length ?ls = length as \<and> list_all2 (line_ok fs as) ?ls names
        \<and> distinct names \<and> v_name ` set as \<subseteq> set names"
      using full [OF a] m a list_all2_lengthD by fastforce
  qed
  finally show ?thesis using Inr by auto
qed (simp add: verifyChecksums_def)

section \<open>A manifest in the format of \<open>sha256sum\<close>\<close>

definition sum_line :: "string \<Rightarrow> string \<Rightarrow> string" where
  "sum_line name data = hex_encode (sha256 data) @ ''  '' @ name"

definition sums :: "(string \<times> string) list \<Rightarrow> string" where
  "sums ns = concat (map (\<lambda>(name, data). sum_line name data @ [CHR 0x0A]) ns)"

definition plain_name :: "string \<Rightarrow> bool" where
  "plain_name n \<longleftrightarrow> n \<noteq> [] \<and> n \<noteq> ''.'' \<and> list_all (\<lambda>c. \<not> is_space c \<and> c \<noteq> CHR ''/'') n
     \<and> hd n \<noteq> CHR ''*''"

lemma spaces [simp]: "is_space (CHR '' '')" "is_space (CHR 0x0A)"
  by code_simp+

lemma Fields_word: "w \<noteq> [] \<Longrightarrow> list_all (\<lambda>c. \<not> is_space c) w \<Longrightarrow> Fields w = [w]"
proof (cases w)
  case (Cons c s)
  assume "list_all (\<lambda>c. \<not> is_space c) w"
  then have "takeWhile (\<lambda>x. \<not> is_space x) s = s" "dropWhile (\<lambda>x. \<not> is_space x) s = []" "\<not> is_space c"
    using Cons by (auto simp: list_all_iff takeWhile_eq_all_conv dropWhile_eq_Nil_conv)
  then show ?thesis by (simp add: Cons del: dropWhile_eq_Nil_conv takeWhile_eq_all_conv)
qed simp

lemma Fields_two:
  assumes "v \<noteq> []" "list_all (\<lambda>c. \<not> is_space c) v" "is_space d"
  shows "Fields (v @ d # s) = v # Fields s"
proof (cases v)
  case (Cons c t)
  have "takeWhile (\<lambda>x. \<not> is_space x) (t @ d # s) = t" "dropWhile (\<lambda>x. \<not> is_space x) (t @ d # s) = d # s"
    using assms(2,3) unfolding Cons by (induction t) auto
  then show ?thesis using assms by (simp add: Cons)
qed (use assms in simp)

lemma hex_encode_not_space: "list_all (\<lambda>c. \<not> is_space c) (hex_encode s)"
proof -
  have "list_all (\<lambda>n. \<not> is_space (hex_digit n)) [0..<16]" by code_simp
  then have d: "\<not> is_space (hex_digit n)" if "n < 16" for n using that by (auto simp: list_all_iff)
  have "\<not> is_space (hex_digit (of_char c div 16)) \<and> \<not> is_space (hex_digit (of_char c mod 16))" for c :: char
  proof -
    have "of_char c < (256 :: nat)" by (rule nat_of_char_less_256)
    then have "of_char c div 16 < (16 :: nat)" "of_char c mod 16 < (16 :: nat)" by linarith+
    then show ?thesis using d by blast
  qed
  then show ?thesis by (auto simp: hex_encode_def hex_byte_def list_all_iff)
qed

lemma digest_nonempty: "hex_encode (sha256 data) \<noteq> []"
  by (metis sha256_hex_def sha256_hex_nonempty)

lemma Fields_sum_line:
  assumes "plain_name name"
  shows "Fields (sum_line name data) = [hex_encode (sha256 data), name]"
proof -
  have "Fields (hex_encode (sha256 data) @ CHR '' '' # CHR '' '' # name)
      = hex_encode (sha256 data) # Fields (CHR '' '' # name)"
    by (rule Fields_two) (simp_all add: hex_encode_not_space digest_nonempty)
  moreover have "Fields name = [name]"
    using assms by (intro Fields_word) (auto simp: plain_name_def list_all_iff)
  ultimately show ?thesis by (simp add: sum_line_def)
qed

lemma Base_plain: "plain_name n \<Longrightarrow> Base n = n"
proof -
  assume p: "plain_name n"
  then have f: "\<forall>c \<in> set n. c \<noteq> CHR ''/''" "n \<noteq> []" by (auto simp: plain_name_def list_all_iff)
  then have "dropWhile (\<lambda>c. c = CHR ''/'') (rev n) = rev n"
    by (cases n rule: rev_cases) auto
  moreover have "takeWhile (\<lambda>c. c \<noteq> CHR ''/'') (rev n) = rev n"
    using f by (simp add: takeWhile_eq_all_conv)
  ultimately show ?thesis
    using f by (simp add: Base_def del: dropWhile_eq_Nil_conv takeWhile_eq_all_conv)
qed

lemma line_ok_sum_line:
  assumes "a \<in> set as" "plain_name (v_name a)" "fileSHA256 fs (v_path a) = Inr (sha256 data)"
  shows "line_ok fs as (sum_line (v_name a) data) (v_name a)"
proof -
  have "\<not> HasPrefix (v_name a) ''*''"
    using assms(2) by (cases "v_name a") (auto simp: plain_name_def HasPrefix_def)
  then have "TrimPrefix (v_name a) ''*'' = v_name a" by (simp add: TrimPrefix_def)
  moreover have "v_name a \<noteq> ''.''" using assms(2) unfolding plain_name_def by blast
  ultimately show ?thesis
    unfolding line_ok_def
    using Fields_sum_line [OF assms(2)] Base_plain [OF assms(2)] assms(1,3) hex_decode_encode by blast
qed

text \<open>The lines of such a manifest.\<close>

lemma TrimSpace_end:
  assumes "s \<noteq> []" "\<not> is_space (hd s)" "\<not> is_space (last s)" "is_space c"
  shows "TrimSpace (s @ [c]) = s"
proof -
  have "dropWhile is_space (s @ [c]) = s @ [c]" using assms(1,2) by (cases s) auto
  moreover have "dropWhile is_space (rev (s @ [c])) = rev s"
    using assms(1,3,4) by (cases s rule: rev_cases) auto
  ultimately show ?thesis unfolding TrimSpace_def by simp
qed

lemma sums_join:
  "ns \<noteq> [] \<Longrightarrow> sums ns = join_on (CHR 0x0A) (map (\<lambda>(name, data). sum_line name data) ns) @ [CHR 0x0A]"
proof (induction ns)
  case (Cons p ns)
  then show ?case by (cases ns) (auto simp: sums_def split: prod.splits)
qed simp

lemma join_on_ends:
  assumes "ls \<noteq> []" "\<forall>l \<in> set ls. l \<noteq> []"
  shows "join_on d ls \<noteq> [] \<and> hd (join_on d ls) = hd (hd ls) \<and> last (join_on d ls) = last (last ls)"
  using assms by (induction d ls rule: join_on.induct) auto

lemma sums_lines:
  assumes "ns \<noteq> []" "\<forall>(name, data) \<in> set ns. plain_name name"
  shows "split_on (CHR 0x0A) (TrimSpace (sums ns)) = map (\<lambda>(name, data). sum_line name data) ns"
proof -
  let ?ls = "map (\<lambda>(name, data). sum_line name data) ns"
  have l: "\<exists>name data. l = sum_line name data \<and> plain_name name" if "l \<in> set ?ls" for l
    using that assms(2) by auto
  have p: "CHR 0x0A \<notin> set (sum_line name data) \<and> sum_line name data \<noteq> []
      \<and> \<not> is_space (hd (sum_line name data)) \<and> \<not> is_space (last (sum_line name data))"
    if "plain_name name" for name data
  proof -
    have n: "name \<noteq> []" "\<forall>c \<in> set name. \<not> is_space c"
      using that unfolding plain_name_def list_all_iff by blast+
    have h: "\<forall>c \<in> set (hex_encode (sha256 data)). \<not> is_space c"
      using hex_encode_not_space unfolding list_all_iff by blast
    have "CHR 0x0A \<notin> set name" "CHR 0x0A \<notin> set (hex_encode (sha256 data))"
      using n(2) h spaces(2) by blast+
    moreover have "\<not> is_space (last name)" "\<not> is_space (hd (hex_encode (sha256 data)))"
      using n h digest_nonempty by (metis last_in_set list.set_sel(1))+
    ultimately show ?thesis using n(1) digest_nonempty by (simp add: sum_line_def)
  qed
  have nl: "\<forall>l \<in> set ?ls. CHR 0x0A \<notin> set l" and ne: "\<forall>l \<in> set ?ls. l \<noteq> []"
    using l p by metis+
  have e: "?ls \<noteq> []" using assms(1) by simp
  note j = join_on_ends [OF e ne, of "CHR 0x0A"]
  have "hd ?ls \<in> set ?ls" "last ?ls \<in> set ?ls" using e by (rule list.set_sel(1) last_in_set)+
  then have "\<not> is_space (hd (hd ?ls))" "\<not> is_space (last (last ?ls))" using l p by metis+
  then have "TrimSpace (sums ns) = join_on (CHR 0x0A) ?ls"
    unfolding sums_join [OF assms(1)] using j by (intro TrimSpace_end) simp_all
  then show ?thesis using split_join [OF e nl] by simp
qed

lemma sums_verified:
  assumes "distinct (map v_name as)" "range_order ord" "as \<noteq> []" "mset bs = mset as"
    "\<forall>a \<in> set as. plain_name (v_name a) \<and> fs (v_path a) = Some (plain_file (data a)) \<and> data a \<noteq> []
       \<and> int (length (data a)) \<le> maxArchiveBytes"
    "fs (Join dir ''checksums.txt'') = Some (plain_file (sums (map (\<lambda>a. (v_name a, data a)) bs)))"
    "int (length (sums (map (\<lambda>a. (v_name a, data a)) bs))) \<le> maxChecksumBytes"
  shows "verifyChecksums fs ord dir as = None"
proof -
  have set: "set bs = set as" by (metis assms(4) set_mset_mset)
  have "bs \<noteq> []" using assms(3,4) by auto
  then have ls: "split_on (CHR 0x0A) (TrimSpace (sums (map (\<lambda>a. (v_name a, data a)) bs)))
      = map (\<lambda>a. sum_line (v_name a) (data a)) bs"
    using sums_lines [of "map (\<lambda>a. (v_name a, data a)) bs"] assms(5) set by (simp add: comp_def)
  have "list_all2 (line_ok fs as) (map (\<lambda>a. sum_line (v_name a) (data a)) bs) (map v_name bs)"
    using assms(5) set
    by (auto simp: list.rel_map list_all2_same intro!: line_ok_sum_line fileSHA256_plain)
  moreover have "mset (map v_name bs) = mset (map v_name as)" using assms(4) by simp
  moreover have "readBoundedRegular fs (Join dir ''checksums.txt'') maxChecksumBytes
      = Inr (sums (map (\<lambda>a. (v_name a, data a)) bs))"
    using assms(6,7) by (rule readBoundedRegular_plain)
  ultimately show ?thesis
    unfolding verifyChecksums_None [OF assms(1,2)] by (metis ls)
qed

end
