(* ===== verification/Dist_Archive.thy ===== *)
theory Dist_Archive
  imports Dist_Checksums
begin

text \<open>
  The contents of an archive (\<open>inspectArchive\<close>, \<open>inspectTarGzip\<close>, \<open>inspectZip\<close>, \<open>zipEndsAtEOF\<close>
  and \<open>validateExecutable\<close> of \<open>internal/distcheck/distcheck.go\<close>). What the decoders of the standard
  library (\<open>compress/gzip\<close>, \<open>archive/tar\<close>, \<open>archive/zip\<close>, \<open>debug/elf\<close>, \<open>debug/macho\<close>,
  \<open>debug/pe\<close>) make of a byte string is an argument, the record \<open>formats\<close>: the entries with their
  headers and what their readers deliver, how the stream ends, the fields of an executable's header.
\<close>

section \<open>Decoded archives and executables\<close>

record entry =
  n_Name :: string
  n_Mode :: "32 word"
  n_Size :: int
  n_Data :: string
  n_ReadFails :: bool

text \<open>
  The end of a tape: an error of \<open>tape.Next\<close>, or its end, with whether draining and closing the
  gzip stream fail, the bytes drained, and the compressed bytes left.
\<close>

datatype tape_end = TapeBroken | TapeEOF bool bool nat nat

record zip_entry = entry +
  n_OpenFails :: bool
  n_CloseFails :: bool

record elf_file =
  elf_Class :: nat
  elf_Data :: nat
  elf_Type :: nat
  elf_Machine :: nat

record macho_file =
  macho_Type :: nat
  macho_Cpu :: nat

record pe_file =
  pe_Characteristics :: "16 word"
  pe_OptionalHeader64 :: bool
  pe_Machine :: "16 word"

record formats =
  b_targz :: "string \<Rightarrow> (entry list \<times> tape_end) option"
  b_zip :: "string \<Rightarrow> zip_entry list option"
  b_elf :: "string \<Rightarrow> elf_file option"
  b_macho :: "string \<Rightarrow> macho_file option"
  b_pe :: "string \<Rightarrow> pe_file option"

datatype archive_error =
    ArchiveFile file_error
  | UnsafeEntry path_error
  | UnexpectedEntry string
  | RepeatedEntry string
  | NotRegularEntry string
  | NotExecutableEntry string
  | EntrySize string int
  | EntryRead string
  | EntryChanged string
  | NotBinary target
  | NotGzip
  | TapeError
  | DrainFailed
  | CloseGzipFailed
  | DataAfterEnd
  | TrailingCompressed
  | TooManyEntries
  | ZipEnd
  | NotZip
  | EntryLimit string
  | EntryOpen string
  | EntryClose string
  | MissingEntry string

definition maxArchiveEntries :: nat where
  "maxArchiveEntries = 100"

definition maxEntryBytes :: int where
  "maxEntryBytes = 256 * 2 ^ 20"

section \<open>Executables\<close>

definition arch_value :: "'a \<Rightarrow> 'a \<Rightarrow> target \<Rightarrow> 'a option" where
  "arch_value amd arm t =
     (if t_arch t = ''amd64'' then Some amd else if t_arch t = ''arm64'' then Some arm else None)"

definition valid_elf :: "elf_file option \<Rightarrow> target \<Rightarrow> bool" where
  "valid_elf f t = (case f of
     None \<Rightarrow> False
   | Some x \<Rightarrow> \<not> (elf_Class x \<noteq> 2 \<or> elf_Data x \<noteq> 1 \<or> elf_Type x \<noteq> 2 \<and> elf_Type x \<noteq> 3)
       \<and> arch_value 62 183 t = Some (elf_Machine x))"

definition valid_macho :: "macho_file option \<Rightarrow> target \<Rightarrow> bool" where
  "valid_macho f t = (case f of
     None \<Rightarrow> False
   | Some x \<Rightarrow> macho_Type x = 2 \<and> arch_value 0x1000007 0x100000C t = Some (macho_Cpu x))"

definition valid_pe :: "pe_file option \<Rightarrow> target \<Rightarrow> bool" where
  "valid_pe f t = (case f of
     None \<Rightarrow> False
   | Some x \<Rightarrow> pe_Characteristics x AND 2 \<noteq> 0 \<and> pe_OptionalHeader64 x
       \<and> arch_value 0x8664 0xAA64 t = Some (pe_Machine x))"

definition validateExecutable :: "formats \<Rightarrow> string \<Rightarrow> target \<Rightarrow> bool" where
  "validateExecutable b data t =
     (if t_os t = ''linux'' then valid_elf (b_elf b data) t
      else if t_os t = ''darwin'' then valid_macho (b_macho b data) t
      else if t_os t = ''windows'' then valid_pe (b_pe b data) t
      else False)"

section \<open>Entries\<close>

text \<open>The bits of an \<open>os.FileMode\<close>: \<open>ModeSymlink\<close>, \<open>ModeType\<close> and the owner's execute bit.\<close>

definition mode_symlink :: "32 word" where
  "mode_symlink = push_bit 27 1"

definition mode_type :: "32 word" where
  "mode_type = push_bit 31 1 OR push_bit 27 1 OR push_bit 26 1 OR push_bit 25 1 OR push_bit 24 1
     OR push_bit 21 1 OR push_bit 19 1"

definition executableName :: "target \<Rightarrow> string" where
  "executableName t = (if t_os t = ''windows'' then ''relaybox.exe'' else ''relaybox'')"

definition required_names :: "target \<Rightarrow> string list" where
  "required_names t = [''LICENSE'', ''README.md'', ''THIRD_PARTY_NOTICES.md'', executableName t]"

definition required0 :: "target \<Rightarrow> (string, bool) fmap" where
  "required0 t = fmap_of_list (map (\<lambda>n. (n, False)) (required_names t))"

type_synonym visited = "(string, bool) fmap \<times> string"

definition visit :: "formats \<Rightarrow> target \<Rightarrow> entry \<Rightarrow> visited \<Rightarrow> archive_error + visited" where
  "visit b t e st =
     (let (required, executable) = st
      in case cleanArchiveName (n_Name e) of
        Inl err \<Rightarrow> Inl (UnsafeEntry err)
      | Inr clean \<Rightarrow>
          (case fmlookup required clean of
            None \<Rightarrow> Inl (UnexpectedEntry clean)
          | Some found \<Rightarrow>
              if found then Inl (RepeatedEntry clean)
              else if n_Mode e AND mode_symlink \<noteq> 0 \<or> n_Mode e AND mode_type \<noteq> 0
                then Inl (NotRegularEntry clean)
              else if clean = executableName t \<and> t_os t \<noteq> ''windows'' \<and> n_Mode e AND 64 = 0
                then Inl (NotExecutableEntry clean)
              else if n_Size e \<le> 0 \<or> n_Size e > maxEntryBytes then Inl (EntrySize clean (n_Size e))
              else if n_ReadFails e then Inl (EntryRead clean)
              else (let contents = take (nat (maxEntryBytes + 1)) (n_Data e)
                in if int (length contents) \<noteq> n_Size e then Inl (EntryChanged clean)
                   else if clean = executableName t \<and> \<not> validateExecutable b contents t
                     then Inl (NotBinary t)
                   else Inr (fmupd clean True required,
                     if clean = executableName t then contents else executable))))"

section \<open>Archives\<close>

fun visit_tape ::
    "formats \<Rightarrow> target \<Rightarrow> nat \<Rightarrow> entry list \<Rightarrow> tape_end \<Rightarrow> visited \<Rightarrow> archive_error + visited" where
  "visit_tape b t entries [] TapeBroken st = Inl TapeError"
| "visit_tape b t entries [] (TapeEOF drainErr closeErr remaining left) st =
     (if drainErr then Inl DrainFailed
      else if closeErr then Inl CloseGzipFailed
      else if remaining \<noteq> 0 then Inl DataAfterEnd
      else if left \<noteq> 0 then Inl TrailingCompressed
      else Inr st)"
| "visit_tape b t entries (e # es) fin st =
     (if entries + 1 > maxArchiveEntries then Inl TooManyEntries
      else (case visit b t e st of
          Inl err \<Rightarrow> Inl err
        | Inr st' \<Rightarrow> visit_tape b t (entries + 1) es fin st'))"

definition inspectTarGzip ::
    "files \<Rightarrow> formats \<Rightarrow> target \<Rightarrow> string \<Rightarrow> visited \<Rightarrow> archive_error + visited" where
  "inspectTarGzip fs b t name st =
     (case readBoundedRegular fs name maxArchiveBytes of
       Inl e \<Rightarrow> Inl (ArchiveFile e)
     | Inr data \<Rightarrow>
         (case b_targz b data of
           None \<Rightarrow> Inl NotGzip
         | Some (es, fin) \<Rightarrow> visit_tape b t 0 es fin st))"

text \<open>The search for an end record whose comment ends at the end of the file.\<close>

definition byte_at :: "string \<Rightarrow> nat \<Rightarrow> nat" where
  "byte_at data i = of_char (data ! i)"

definition eocd_at :: "string \<Rightarrow> nat \<Rightarrow> bool" where
  "eocd_at data offset =
     (if data ! offset \<noteq> CHR ''P'' \<or> offset + 22 > length data
         \<or> take 4 (drop offset data) \<noteq> [CHR ''P'', CHR ''K'', CHR 0x05, CHR 0x06] then False
      else (let commentLength = byte_at data (offset + 20) OR push_bit 8 (byte_at data (offset + 21))
        in offset + 22 + commentLength = length data))"

function zip_scan :: "string \<Rightarrow> nat \<Rightarrow> nat \<Rightarrow> bool" where
  "zip_scan data minimum offset =
     (if offset < minimum then False
      else if eocd_at data offset then True
      else if offset = 0 then False
      else zip_scan data minimum (offset - 1))"
  by pat_completeness auto
termination
  by (relation "measure (\<lambda>(data, minimum, offset). offset)") auto

declare zip_scan.simps [simp del]

definition zipEndsAtEOF :: "string \<Rightarrow> bool" where
  "zipEndsAtEOF data =
     (let start = int (length data) - 22
      in if start < 0 then False
         else zip_scan data (nat (max 0 (int (length data) - 22 - (2 ^ 16 - 1)))) (nat start))"

fun visit_zip :: "formats \<Rightarrow> target \<Rightarrow> zip_entry list \<Rightarrow> visited \<Rightarrow> archive_error + visited" where
  "visit_zip b t [] st = Inr st"
| "visit_zip b t (e # es) st =
     (if n_Size e > maxEntryBytes then Inl (EntryLimit (n_Name e))
      else if n_OpenFails e then Inl (EntryOpen (n_Name e))
      else (case visit b t (entry.truncate e) st of
          Inl err \<Rightarrow> Inl err
        | Inr st' \<Rightarrow> if n_CloseFails e then Inl (EntryClose (n_Name e)) else visit_zip b t es st'))"

definition inspectZip ::
    "files \<Rightarrow> formats \<Rightarrow> target \<Rightarrow> string \<Rightarrow> visited \<Rightarrow> archive_error + visited" where
  "inspectZip fs b t name st =
     (case readBoundedRegular fs name maxArchiveBytes of
       Inl e \<Rightarrow> Inl (ArchiveFile e)
     | Inr data \<Rightarrow>
         if \<not> zipEndsAtEOF data then Inl ZipEnd
         else (case b_zip b data of
             None \<Rightarrow> Inl NotZip
           | Some es \<Rightarrow>
               if length es > maxArchiveEntries then Inl TooManyEntries else visit_zip b t es st))"

definition inspectArchive ::
    "files \<Rightarrow> formats \<Rightarrow> order \<Rightarrow> archive \<Rightarrow> archive_error + string" where
  "inspectArchive fs b ord item =
     (let t = v_target item;
          result = (if t_os t = ''windows'' then inspectZip fs b t (v_path item) (required0 t, [])
            else inspectTarGzip fs b t (v_path item) (required0 t, []))
      in case result of
           Inl e \<Rightarrow> Inl e
         | Inr (required, executable) \<Rightarrow>
             (case find (\<lambda>name. \<not> map_get False required name) (range_keys ord required) of
               Some name \<Rightarrow> Inl (MissingEntry name)
             | None \<Rightarrow> Inr executable))"

section \<open>What a visit accepts\<close>

text \<open>An entry an archive for \<open>t\<close> may hold, once.\<close>

definition entry_ok :: "formats \<Rightarrow> target \<Rightarrow> entry \<Rightarrow> bool" where
  "entry_ok b t e \<longleftrightarrow> n_Name e \<in> set (required_names t) \<and> n_Mode e AND mode_type = 0
     \<and> 0 < n_Size e \<and> n_Size e \<le> maxEntryBytes \<and> n_Size e = int (length (n_Data e)) \<and> \<not> n_ReadFails e
     \<and> (n_Name e = executableName t \<longrightarrow> validateExecutable b (n_Data e) t
          \<and> (t_os t \<noteq> ''windows'' \<longrightarrow> n_Mode e AND 64 \<noteq> 0))"

text \<open>The map of required names, with the names in \<open>found\<close> marked.\<close>

definition marked :: "target \<Rightarrow> string list \<Rightarrow> (string, bool) fmap \<Rightarrow> bool" where
  "marked t found m \<longleftrightarrow>
     (\<forall>n. fmlookup m n = (if n \<in> set (required_names t) then Some (n \<in> set found) else None))"

lemma required_canonical: "n \<in> set (required_names t) \<Longrightarrow> canonical_path n"
proof -
  have "list_all canonical_path
    [''LICENSE'', ''README.md'', ''THIRD_PARTY_NOTICES.md'', ''relaybox'', ''relaybox.exe'']" by code_simp
  then show "n \<in> set (required_names t) \<Longrightarrow> canonical_path n"
    unfolding required_names_def executableName_def by (auto split: if_splits)
qed

lemma required_names_distinct: "distinct (required_names t)"
  by (simp add: required_names_def executableName_def)

lemma marked_required0: "marked t [] (required0 t)"
  by (auto simp: marked_def required0_def fmlookup_of_list map_of_map_restrict restrict_map_def
      map_of_eq_None_iff)

lemma symlink_typed: "m AND mode_type = 0 \<Longrightarrow> m AND mode_symlink = 0"
proof -
  assume a: "m AND mode_type = 0"
  have "mode_type AND mode_symlink = mode_symlink"
    by (simp add: mode_type_def mode_symlink_def)
  then have "m AND mode_symlink = (m AND mode_type) AND mode_symlink"
    by (simp add: and.assoc)
  then show ?thesis using a by simp
qed

lemma contents_full:
  "int (length (take (nat (maxEntryBytes + 1)) s)) = k \<Longrightarrow> k \<le> maxEntryBytes \<Longrightarrow>
     take (nat (maxEntryBytes + 1)) s = s"
  by (auto simp: maxEntryBytes_def min_def split: if_splits)

lemma guard_Inr: "(if c then Inl e else y) = Inr z \<longleftrightarrow> \<not> c \<and> y = Inr z"
  by simp

lemma visit_Inr:
  assumes "marked t found m"
  shows "visit b t e (m, x) = Inr st \<longleftrightarrow> entry_ok b t e \<and> n_Name e \<notin> set found
    \<and> st = (fmupd (n_Name e) True m, if n_Name e = executableName t then n_Data e else x)"
proof (cases "n_Name e \<in> set (required_names t)")
  case False
  have "visit b t e (m, x) \<noteq> Inr st"
  proof (cases "cleanArchiveName (n_Name e)")
    case (Inr c)
    then have "fmlookup m c = None" using False assms by (simp add: cleanArchiveName_iff marked_def)
    then show ?thesis using Inr by (simp add: visit_def)
  qed (simp add: visit_def)
  then show ?thesis using False by (simp add: entry_ok_def)
next
  case True
  have c: "cleanArchiveName (n_Name e) = Inr (n_Name e)"
    using required_canonical [OF True] by (simp add: cleanArchiveName_iff)
  have l: "fmlookup m (n_Name e) = Some (n_Name e \<in> set found)" using True assms by (simp add: marked_def)
  define d where "d = take (nat (maxEntryBytes + 1)) (n_Data e)"
  have d: "n_Size e \<le> maxEntryBytes \<and> int (length d) = n_Size e
      \<longleftrightarrow> n_Size e \<le> maxEntryBytes \<and> n_Size e = int (length (n_Data e)) \<and> d = n_Data e"
    using contents_full [of "n_Data e" "n_Size e"] by (auto simp: d_def maxEntryBytes_def)
  have "visit b t e (m, x) = Inr st \<longleftrightarrow> n_Name e \<notin> set found
      \<and> n_Mode e AND mode_type = 0
      \<and> (n_Name e = executableName t \<longrightarrow> t_os t \<noteq> ''windows'' \<longrightarrow> n_Mode e AND 64 \<noteq> 0)
      \<and> 0 < n_Size e \<and> (n_Size e \<le> maxEntryBytes \<and> int (length d) = n_Size e) \<and> \<not> n_ReadFails e
      \<and> (n_Name e = executableName t \<longrightarrow> validateExecutable b d t)
      \<and> st = (fmupd (n_Name e) True m, if n_Name e = executableName t then d else x)"
    unfolding visit_def prod.case c l sum.case option.case Let_def d_def [symmetric] guard_Inr
    using symlink_typed [of "n_Mode e"] by auto
  moreover have "d = n_Data e" if "n_Size e \<le> maxEntryBytes" "n_Size e = int (length (n_Data e))"
    using that by (simp add: d_def maxEntryBytes_def)
  ultimately show ?thesis
    unfolding d entry_ok_def using True
    by (cases "n_Size e \<le> maxEntryBytes \<and> n_Size e = int (length (n_Data e))") auto
qed

lemma marked_upd:
  "marked t found m \<Longrightarrow> n \<in> set (required_names t) \<Longrightarrow> marked t (n # found) (fmupd n True m)"
  by (auto simp: marked_def)

text \<open>Visiting a list of entries one after the other.\<close>

definition visited_exe :: "target \<Rightarrow> entry list \<Rightarrow> string \<Rightarrow> string" where
  "visited_exe t es x =
     fold (\<lambda>e x. if n_Name e = executableName t then n_Data e else x) es x"

definition visits_ok :: "formats \<Rightarrow> target \<Rightarrow> string list \<Rightarrow> entry list \<Rightarrow> bool" where
  "visits_ok b t found es \<longleftrightarrow> list_all (entry_ok b t) es \<and> distinct (map n_Name es)
     \<and> set (map n_Name es) \<inter> set found = {}"

lemma visits_ok_Cons:
  "visits_ok b t found (e # es) \<longleftrightarrow> entry_ok b t e \<and> n_Name e \<notin> set found
     \<and> visits_ok b t (n_Name e # found) es"
  by (auto simp: visits_ok_def)

lemma entry_ok_required: "entry_ok b t e \<Longrightarrow> n_Name e \<in> set (required_names t)"
  by (simp add: entry_ok_def)

lemma visit_tape_Inr:
  assumes "marked t found m"
  shows "visit_tape b t k es fin (m, x) = Inr (m', y) \<longleftrightarrow> visits_ok b t found es
    \<and> (es \<noteq> [] \<longrightarrow> k + length es \<le> maxArchiveEntries) \<and> fin = TapeEOF False False 0 0
    \<and> m' = fold (\<lambda>e. fmupd (n_Name e) True) es m \<and> y = visited_exe t es x"
  using assms
proof (induction es arbitrary: found m x k)
  case Nil
  then show ?case by (cases fin) (auto simp: visits_ok_def visited_exe_def)
next
  case (Cons e es)
  have "visit_tape b t k (e # es) fin (m, x) = Inr (m', y) \<longleftrightarrow> k + 1 \<le> maxArchiveEntries
      \<and> entry_ok b t e \<and> n_Name e \<notin> set found
      \<and> visit_tape b t (k + 1) es fin (fmupd (n_Name e) True m,
          if n_Name e = executableName t then n_Data e else x) = Inr (m', y)"
    unfolding visit_tape.simps guard_Inr bind_Inr visit_Inr [OF Cons.prems] by (simp add: not_less)
  also have "\<dots> \<longleftrightarrow> visits_ok b t found (e # es) \<and> k + length (e # es) \<le> maxArchiveEntries
      \<and> fin = TapeEOF False False 0 0 \<and> m' = fold (\<lambda>e. fmupd (n_Name e) True) (e # es) m
      \<and> y = visited_exe t (e # es) x"
  proof (cases "entry_ok b t e \<and> n_Name e \<notin> set found")
    case True
    then have "marked t (n_Name e # found) (fmupd (n_Name e) True m)"
      using Cons.prems marked_upd entry_ok_required by blast
    then show ?thesis
      unfolding Cons.IH [OF \<open>marked t (n_Name e # found) _\<close>] visits_ok_Cons visited_exe_def
      using True by (cases es) auto
  qed (unfold visits_ok_Cons, blast)
  finally show ?case by simp
qed

lemma visit_zip_Inr:
  assumes "marked t found m"
  shows "visit_zip b t es (m, x) = Inr (m', y) \<longleftrightarrow> visits_ok b t found (map entry.truncate es)
    \<and> list_all (\<lambda>e. \<not> n_OpenFails e \<and> \<not> n_CloseFails e) es
    \<and> m' = fold (\<lambda>e. fmupd (n_Name e) True) (map entry.truncate es) m
    \<and> y = visited_exe t (map entry.truncate es) x"
  using assms
proof (induction es arbitrary: found m x)
  case Nil
  then show ?case by (auto simp: visits_ok_def visited_exe_def)
next
  case (Cons z es)
  let ?e = "entry.truncate z"
  have s: "n_Size ?e = n_Size z" by (simp add: entry.truncate_def)
  have "visit_zip b t (z # es) (m, x) = Inr (m', y) \<longleftrightarrow> n_Size z \<le> maxEntryBytes
      \<and> \<not> n_OpenFails z \<and> \<not> n_CloseFails z \<and> entry_ok b t ?e \<and> n_Name ?e \<notin> set found
      \<and> visit_zip b t es (fmupd (n_Name ?e) True m,
          if n_Name ?e = executableName t then n_Data ?e else x) = Inr (m', y)"
    unfolding visit_zip.simps guard_Inr bind_Inr visit_Inr [OF Cons.prems] by (auto simp: not_less)
  also have "\<dots> \<longleftrightarrow> visits_ok b t found (?e # map entry.truncate es)
      \<and> list_all (\<lambda>e. \<not> n_OpenFails e \<and> \<not> n_CloseFails e) (z # es)
      \<and> m' = fold (\<lambda>e. fmupd (n_Name e) True) (?e # map entry.truncate es) m
      \<and> y = visited_exe t (?e # map entry.truncate es) x"
  proof (cases "entry_ok b t ?e \<and> n_Name ?e \<notin> set found")
    case True
    then have "n_Size z \<le> maxEntryBytes" unfolding entry_ok_def s by blast
    moreover have "marked t (n_Name ?e # found) (fmupd (n_Name ?e) True m)"
      using True Cons.prems marked_upd entry_ok_required by blast
    ultimately show ?thesis using True Cons.IH [of "n_Name ?e # found"]
      by (auto simp: visits_ok_Cons visited_exe_def)
  qed (auto simp: visits_ok_Cons)
  finally show ?case by simp
qed

text \<open>All required names are found exactly when the entries are the required ones.\<close>

lemma visits_complete:
  assumes "visits_ok b t [] es"
  shows "(\<forall>n \<in> set (required_names t). n \<in> n_Name ` set es) \<longleftrightarrow> mset (map n_Name es) = mset (required_names t)"
proof -
  have d: "distinct (map n_Name es)" and s: "set (map n_Name es) \<subseteq> set (required_names t)"
    using assms by (auto simp: visits_ok_def list_all_iff entry_ok_def)
  have "mset (map n_Name es) = mset (required_names t) \<longleftrightarrow> set (map n_Name es) = set (required_names t)"
    using d required_names_distinct by (metis set_eq_iff_mset_eq_distinct)
  then show ?thesis using s by auto
qed

lemma marked_fold:
  "marked t found m \<Longrightarrow> list_all (entry_ok b t) es \<Longrightarrow>
     marked t (rev (map n_Name es) @ found) (fold (\<lambda>e. fmupd (n_Name e) True) es m)"
proof (induction es arbitrary: found m)
  case (Cons e es)
  then have "marked t (n_Name e # found) (fmupd (n_Name e) True m)"
    using marked_upd [OF Cons.prems(1) entry_ok_required, of b e] by simp
  from Cons.IH [OF this] Cons.prems show ?case by simp
qed simp

lemma find_missing:
  assumes "marked t found m" "range_order ord"
  shows "find (\<lambda>name. \<not> map_get False m name) (range_keys ord m) = None
    \<longleftrightarrow> (\<forall>n \<in> set (required_names t). n \<in> set found)"
proof -
  have "set (range_keys ord m) = set (required_names t)"
    using assms by (auto simp: fmdom_mem_iff marked_def split: if_splits)
  moreover have "map_get False m n = (n \<in> set found)" if "n \<in> set (required_names t)" for n
    using assms(1) that by (simp add: map_get_def marked_def)
  ultimately show ?thesis by (auto simp: find_None_iff)
qed

lemma visited_exe_entry:
  assumes "e \<in> set es" "n_Name e = executableName t" "distinct (map n_Name es)"
  shows "visited_exe t es x = n_Data e"
proof -
  obtain us vs where es: "es = us @ e # vs" using assms(1) by (meson split_list)
  have "visited_exe t vs y = y" for y
    using assms(2,3) unfolding es visited_exe_def
    by (induction vs arbitrary: y) auto
  then show ?thesis using assms(2) by (simp add: visited_exe_def es)
qed

text \<open>The entries the decoder of the target's format finds in an archive that ends properly.\<close>

definition archive_entries :: "formats \<Rightarrow> target \<Rightarrow> string \<Rightarrow> entry list option" where
  "archive_entries b t data =
     (if t_os t = ''windows'' then
        (case b_zip b data of
          None \<Rightarrow> None
        | Some es \<Rightarrow> if zipEndsAtEOF data \<and> list_all (\<lambda>e. \<not> n_OpenFails e \<and> \<not> n_CloseFails e) es
            then Some (map entry.truncate es) else None)
      else (case b_targz b data of
          None \<Rightarrow> None
        | Some (es, fin) \<Rightarrow> if fin = TapeEOF False False 0 0 then Some es else None))"

lemma required_length: "mset (map n_Name es) = mset (required_names t) \<Longrightarrow> length es = 4"
proof -
  assume "mset (map n_Name es) = mset (required_names t)"
  then have "length (map n_Name es) = length (required_names t)" by (rule mset_eq_length)
  then show ?thesis by (simp add: required_names_def)
qed

text \<open>
  An archive passes exactly when its entries are the four required ones, each of them in order,
  and its executable is what the caller gets.
\<close>

lemma inspectArchive_Inr:
  assumes "range_order ord"
  shows "inspectArchive fs b ord item = Inr x \<longleftrightarrow> (\<exists>data es e.
    readBoundedRegular fs (v_path item) maxArchiveBytes = Inr data
    \<and> archive_entries b (v_target item) data = Some es
    \<and> mset (map n_Name es) = mset (required_names (v_target item))
    \<and> list_all (entry_ok b (v_target item)) es
    \<and> e \<in> set es \<and> n_Name e = executableName (v_target item) \<and> x = n_Data e)"
proof -
  let ?t = "v_target item"
  define run where "run = (if t_os ?t = ''windows'' then inspectZip fs b ?t (v_path item) (required0 ?t, [])
    else inspectTarGzip fs b ?t (v_path item) (required0 ?t, []))"
  have run: "run = Inr (m, x) \<longleftrightarrow> (\<exists>data es. readBoundedRegular fs (v_path item) maxArchiveBytes = Inr data
      \<and> archive_entries b ?t data = Some es \<and> visits_ok b ?t [] es \<and> (es \<noteq> [] \<longrightarrow> length es \<le> maxArchiveEntries)
      \<and> m = fold (\<lambda>e. fmupd (n_Name e) True) es (required0 ?t) \<and> x = visited_exe ?t es [])" for m
  proof (cases "readBoundedRegular fs (v_path item) maxArchiveBytes")
    case (Inr data)
    show ?thesis
    proof (cases "t_os ?t = ''windows''")
      case True
      have "run = inspectZip fs b ?t (v_path item) (required0 ?t, [])" using True by (simp add: run_def)
      then show ?thesis
        using True Inr
        by (cases "b_zip b data")
          (auto simp: inspectZip_def archive_entries_def visit_zip_Inr [OF marked_required0])
    next
      case False
      have "run = inspectTarGzip fs b ?t (v_path item) (required0 ?t, [])" using False by (simp add: run_def)
      then show ?thesis
        using False Inr
        by (cases "b_targz b data")
          (auto simp: inspectTarGzip_def archive_entries_def visit_tape_Inr [OF marked_required0]
            split: if_splits)
    qed
  qed (simp add: run_def inspectZip_def inspectTarGzip_def)
  have "inspectArchive fs b ord item = Inr x \<longleftrightarrow> (\<exists>m. run = Inr (m, x)
      \<and> find (\<lambda>name. \<not> map_get False m name) (range_keys ord m) = None)"
    unfolding inspectArchive_def Let_def run_def [symmetric]
    by (auto split: sum.splits option.splits)
  also have "\<dots> \<longleftrightarrow> (\<exists>data es. readBoundedRegular fs (v_path item) maxArchiveBytes = Inr data
      \<and> archive_entries b ?t data = Some es \<and> visits_ok b ?t [] es
      \<and> mset (map n_Name es) = mset (required_names ?t) \<and> x = visited_exe ?t es [])"
  proof -
    have f: "find (\<lambda>name. \<not> map_get False m name) (range_keys ord m) = None
        \<longleftrightarrow> mset (map n_Name es) = mset (required_names ?t)"
      if "visits_ok b ?t [] es" "m = fold (\<lambda>e. fmupd (n_Name e) True) es (required0 ?t)" for es m
    proof -
      have "list_all (entry_ok b ?t) es" using that(1) by (simp add: visits_ok_def)
      from marked_fold [OF marked_required0 this] have "marked ?t (rev (map n_Name es) @ []) m"
        by (simp add: that(2))
      from find_missing [OF this assms] visits_complete [OF that(1)] show ?thesis by simp
    qed
    show ?thesis
      unfolding run using f required_length by (fastforce simp: maxArchiveEntries_def)
  qed
  also have "\<dots> \<longleftrightarrow> (\<exists>data es e. readBoundedRegular fs (v_path item) maxArchiveBytes = Inr data
      \<and> archive_entries b ?t data = Some es
      \<and> mset (map n_Name es) = mset (required_names ?t) \<and> list_all (entry_ok b ?t) es
      \<and> e \<in> set es \<and> n_Name e = executableName ?t \<and> x = n_Data e)"
  proof -
    have "visits_ok b ?t [] es \<longleftrightarrow> list_all (entry_ok b ?t) es"
        "\<exists>e \<in> set es. n_Name e = executableName ?t" "distinct (map n_Name es)"
      if m: "mset (map n_Name es) = mset (required_names ?t)" for es
    proof -
      show d: "distinct (map n_Name es)" using m required_names_distinct by (metis mset_eq_imp_distinct_iff)
      then show "visits_ok b ?t [] es \<longleftrightarrow> list_all (entry_ok b ?t) es" by (simp add: visits_ok_def)
      have "set (map n_Name es) = set (required_names ?t)" using m by (metis set_mset_mset)
      then have "executableName ?t \<in> n_Name ` set es" by (simp add: required_names_def)
      then show "\<exists>e \<in> set es. n_Name e = executableName ?t" by force
    qed
    then show ?thesis using visited_exe_entry by metis
  qed
  finally show ?thesis .
qed

section \<open>The end record of a ZIP archive\<close>

lemma byte_or: "(a :: nat) < 256 \<Longrightarrow> a OR push_bit 8 c = a + 256 * c"
proof -
  assume "a < 256"
  then have "a = take_bit 8 a" by (simp add: take_bit_nat_eq_self)
  then have small: "bit a n \<Longrightarrow> n < 8" for n by (metis bit_take_bit_iff)
  have "a AND push_bit 8 c = 0"
    by (intro bit_eqI) (auto simp: bit_and_iff bit_push_bit_iff dest: small)
  then show ?thesis by (simp add: push_bit_eq_mult flip: disjunctive_add_eq_or)
qed

lemma zip_scan_iff:
  "zip_scan data lo offset \<longleftrightarrow> (\<exists>k. lo \<le> k \<and> k \<le> offset \<and> eocd_at data k)"
proof (induction data lo offset rule: zip_scan.induct)
  case (1 data lo offset)
  show ?case
  proof (cases "offset < lo \<or> eocd_at data offset \<or> offset = 0")
    case True
    then show ?thesis by (subst zip_scan.simps) (auto intro: exI [of _ offset])
  next
    case False
    then have "zip_scan data lo offset \<longleftrightarrow> (\<exists>k. lo \<le> k \<and> k \<le> offset - 1 \<and> eocd_at data k)"
      using 1 by (subst zip_scan.simps) auto
    also have "\<dots> \<longleftrightarrow> (\<exists>k. lo \<le> k \<and> k \<le> offset \<and> eocd_at data k)"
      using False by (metis le_Suc_eq Suc_pred' bot_nat_0.not_eq_extremum)
    finally show ?thesis .
  qed
qed

text \<open>An end record with its comment: the signature, 16 bytes, and the length of the comment.\<close>

definition end_record :: "string \<Rightarrow> bool" where
  "end_record r \<longleftrightarrow> (\<exists>fields lo hi comment. length fields = 16
     \<and> r = [CHR ''P'', CHR ''K'', CHR 0x05, CHR 0x06] @ fields @ [lo, hi] @ comment
     \<and> length comment = of_char lo + 256 * of_char hi)"

lemma eocd_at_iff: "eocd_at data k \<longleftrightarrow> k + 22 \<le> length data \<and> end_record (drop k data)"
proof (cases "k + 22 \<le> length data")
  case False
  then show ?thesis by (simp add: eocd_at_def)
next
  case True
  define r where "r = drop k data"
  have len: "22 \<le> length r" "length r = length data - k" using True by (simp_all add: r_def)
  have nth: "data ! (k + i) = r ! i" if "i < length r" for i using that True by (simp add: r_def)
  have b: "byte_at data (k + 20) = of_char (r ! 20)" "byte_at data (k + 21) = of_char (r ! 21)"
    using nth len by (simp_all add: byte_at_def)
  have "of_char (r ! 20) OR push_bit 8 (of_char (r ! 21)) = of_char (r ! 20) + 256 * (of_char (r ! 21) :: nat)"
    by (rule byte_or) (rule nat_of_char_less_256)
  then have l: "byte_at data (k + 20) OR push_bit 8 (byte_at data (k + 21))
      = of_char (r ! 20) + 256 * of_char (r ! 21)" using b by simp
  let ?sig = "[CHR ''P'', CHR ''K'', CHR 0x05, CHR 0x06]"
  have sig: "data ! k = CHR ''P''" if "take 4 r = ?sig"
  proof -
    have "r ! 0 = take 4 r ! 0" by simp
    then show ?thesis using that nth [of 0] len by simp
  qed
  have "eocd_at data k \<longleftrightarrow> take 4 r = ?sig \<and> 22 + (of_char (r ! 20) + 256 * of_char (r ! 21)) = length r"
    using True sig l len(2) by (auto simp: eocd_at_def r_def Let_def)
  also have "\<dots> \<longleftrightarrow> end_record r"
  proof
    assume a: "take 4 r = ?sig \<and> 22 + (of_char (r ! 20) + 256 * of_char (r ! 21)) = length r"
    have "r = take 4 r @ take 16 (drop 4 r) @ [r ! 20, r ! 21] @ drop 22 r"
    proof -
      have "drop 20 r = r ! 20 # r ! 21 # drop 22 r"
        using len(1) Cons_nth_drop_Suc [of 20 r] Cons_nth_drop_Suc [of 21 r] by simp
      moreover have "drop 4 r = take 16 (drop 4 r) @ drop 20 r"
        using append_take_drop_id [of 16 "drop 4 r"] by (simp add: add.commute)
      ultimately show ?thesis by (metis append_Cons append_Nil append_take_drop_id)
    qed
    then have "r = ?sig @ take 16 (drop 4 r) @ [r ! 20, r ! 21] @ drop 22 r" using a by simp
    moreover have "length (take 16 (drop 4 r)) = 16" using len(1) by simp
    moreover have "length (drop 22 r) = of_char (r ! 20) + 256 * of_char (r ! 21)"
      using a unfolding length_drop by linarith
    ultimately show "end_record r" unfolding end_record_def by blast
  next
    assume "end_record r"
    then obtain fields lo hi comment where f: "length fields = 16"
      "r = ?sig @ fields @ [lo, hi] @ comment" "length comment = of_char lo + 256 * of_char hi"
      unfolding end_record_def by blast
    have "r ! 20 = lo" "r ! 21 = hi" using f(1) unfolding f(2) by (simp_all add: nth_append)
    then show "take 4 r = ?sig \<and> 22 + (of_char (r ! 20) + 256 * of_char (r ! 21)) = length r"
      using f by simp
  qed
  finally show ?thesis using True by (simp add: r_def)
qed

lemma zipEndsAtEOF_iff: "zipEndsAtEOF data \<longleftrightarrow> (\<exists>front r. data = front @ r \<and> end_record r)"
proof
  assume "zipEndsAtEOF data"
  then obtain k where "eocd_at data k"
    by (auto simp: zipEndsAtEOF_def zip_scan_iff Let_def split: if_splits)
  then show "\<exists>front r. data = front @ r \<and> end_record r"
    unfolding eocd_at_iff by (metis append_take_drop_id)
next
  assume "\<exists>front r. data = front @ r \<and> end_record r"
  then obtain front r where f: "data = front @ r" "end_record r" by blast
  then obtain fields lo hi comment where c: "length fields = 16"
    "r = [CHR ''P'', CHR ''K'', CHR 0x05, CHR 0x06] @ fields @ [lo, hi] @ comment"
    "length comment = of_char lo + 256 * of_char hi" unfolding end_record_def by blast
  have l: "length r = 22 + length comment" by (simp add: c(1,2))
  have "of_char lo < (256 :: nat)" "of_char hi < (256 :: nat)" by (rule nat_of_char_less_256)+
  then have m: "length comment \<le> 65535" using c(3) by linarith
  have "eocd_at data (length front)" unfolding eocd_at_iff using f l by simp
  moreover have "nat (max 0 (int (length data) - 22 - (2 ^ 16 - 1))) \<le> length front"
    "length front \<le> nat (int (length data) - 22)" "0 \<le> int (length data) - 22"
    using f(1) l m by simp_all
  ultimately show "zipEndsAtEOF data"
    unfolding zipEndsAtEOF_def zip_scan_iff Let_def by (auto simp del: of_nat_diff)
qed

end
