(* ===== verification/Dist_Verify.thy ===== *)
theory Dist_Verify
  imports Dist_Archive
begin

text \<open>
  The check of a release (\<open>Verify\<close> and \<open>smokeExecutable\<close> of \<open>internal/distcheck/distcheck.go\<close>).
  The record \<open>host\<close> holds what the check sees of its surroundings: the listing of the directory,
  the files, the decoders, the order of ranges over maps, the operating system and architecture,
  and what running an executable gives.
\<close>

record smoke_run =
  m_MkdirFails :: bool
  m_WriteFails :: bool
  m_Expired :: bool
  m_Fails :: bool
  m_Output :: string

record host =
  g_listing :: "dir_entry list option"
  g_files :: files
  g_formats :: formats
  g_order :: order
  g_os :: string
  g_arch :: string
  g_run :: "string \<Rightarrow> smoke_run"

datatype smoke_error =
    MkdirFailed
  | WriteFailed
  | Expired
  | CommandFailed string
  | WrongOutput string string

datatype verify_error =
    InvalidTag tag_error
  | Discovery discover_error
  | WrongVersion string string
  | Checksums checksum_error
  | Inspection string archive_error
  | Smoke string smoke_error
  | NotSmoked string string

definition smokeExecutable :: "(string \<Rightarrow> smoke_run) \<Rightarrow> string \<Rightarrow> string \<Rightarrow> smoke_error option" where
  "smokeExecutable run data version =
     (let r = run data;
          got = TrimSpace (m_Output r);
          want = ''relaybox '' @ version
      in if m_MkdirFails r then Some MkdirFailed
         else if m_WriteFails r then Some WriteFailed
         else if m_Expired r then Some Expired
         else if m_Fails r then Some (CommandFailed got)
         else if got \<noteq> want \<or> HasSuffix got '' dev'' then Some (WrongOutput got want)
         else None)"

text \<open>The loop over the archives, with \<open>smoked\<close> at its end.\<close>

fun verify_archives ::
    "host \<Rightarrow> string \<Rightarrow> bool \<Rightarrow> archive list \<Rightarrow> bool \<Rightarrow> verify_error + bool" where
  "verify_archives host version smoke [] smoked = Inr smoked"
| "verify_archives host version smoke (item # items) smoked =
     (case inspectArchive (g_files host) (g_formats host) (g_order host) item of
       Inl e \<Rightarrow> Inl (Inspection (v_name item) e)
     | Inr executable \<Rightarrow>
         if smoke \<and> t_os (v_target item) = g_os host \<and> t_arch (v_target item) = g_arch host
           then (case smokeExecutable (g_run host) executable version of
               Some e \<Rightarrow> Inl (Smoke (v_name item) e)
             | None \<Rightarrow> verify_archives host version smoke items True)
         else verify_archives host version smoke items smoked)"

definition expected_version :: "string \<Rightarrow> tag_error + string" where
  "expected_version expected =
     (if expected = [] then Inr []
      else if HasPrefix expected ''v'' then ValidateTag expected
      else (case ValidateTag (''v'' @ expected) of Inl e \<Rightarrow> Inl e | Inr v \<Rightarrow> Inr expected))"

definition Verify :: "host \<Rightarrow> string \<Rightarrow> string \<Rightarrow> bool \<Rightarrow> verify_error option" where
  "Verify host directory expected smoke =
     (case expected_version expected of
       Inl e \<Rightarrow> Some (InvalidTag e)
     | Inr expectedVersion \<Rightarrow>
         (case discoverArchives directory (g_listing host) of
           Inl e \<Rightarrow> Some (Discovery e)
         | Inr (archives, version) \<Rightarrow>
             if expectedVersion \<noteq> [] \<and> version \<noteq> expectedVersion
               then Some (WrongVersion version expectedVersion)
             else (case verifyChecksums (g_files host) (g_order host) directory archives of
                 Some e \<Rightarrow> Some (Checksums e)
               | None \<Rightarrow>
                   (case verify_archives host version smoke archives (\<not> smoke) of
                     Inl e \<Rightarrow> Some e
                   | Inr smoked \<Rightarrow>
                       if \<not> smoked then Some (NotSmoked (g_os host) (g_arch host)) else None))))"

section \<open>Accepted releases\<close>

lemma ValidateTag_Inr:
  "ValidateTag tag = Inr v \<longleftrightarrow> tag = CHR ''v'' # v \<and> length tag \<le> 128 \<and> semver v"
proof (cases "2 \<le> length tag \<and> length tag \<le> 128 \<and> tag ! 0 = CHR ''v''")
  case True
  then obtain w where w: "tag = CHR ''v'' # w" "w \<noteq> []" by (cases tag) (auto simp: Suc_le_eq)
  then show ?thesis using ValidateTag_tail [of tag w v] True by auto
next
  case False
  have "v \<noteq> []" if "semver v"
    using that unfolding semver_def by (auto simp: numeric_def)
  moreover have "ValidateTag tag \<noteq> Inr v" using False by (auto simp: ValidateTag_def)
  ultimately show ?thesis using False by (cases v) auto
qed

lemma semver_head: "semver v \<Longrightarrow> \<not> HasPrefix v ''v''"
proof
  assume s: "semver v" and p: "HasPrefix v ''v''"
  obtain x y where x: "numeric x" "v = x @ y" using s unfolding semver_def by auto
  then obtain c xs where c: "x = c # xs" "is_digit c" using numeric_chars [OF x(1)] by (cases x) auto
  have "\<not> is_digit (CHR ''v'')" by code_simp
  then show False using p c x(2) by (auto simp: HasPrefix_iff)
qed

lemma expected_version_Inr:
  assumes "expected \<noteq> []"
  shows "expected_version expected = Inr v
    \<longleftrightarrow> semver v \<and> length v \<le> 127 \<and> (expected = v \<or> expected = CHR ''v'' # v)"
proof (cases "HasPrefix expected ''v''")
  case True
  then have "expected \<noteq> v" if "semver v" using that semver_head by blast
  then show ?thesis using True assms by (auto simp: expected_version_def ValidateTag_Inr)
next
  case False
  then have "expected \<noteq> CHR ''v'' # v" by (auto simp: HasPrefix_def)
  moreover have tag: "(\<exists>w. ValidateTag (CHR ''v'' # expected) = Inr w) \<longleftrightarrow> semver expected \<and> length expected \<le> 127"
    by (auto simp: ValidateTag_Inr)
  ultimately show ?thesis
    using False assms tag
    by (cases "ValidateTag (CHR ''v'' # expected)") (auto simp: expected_version_def)
qed

lemma verify_archives_Inr:
  "verify_archives host version smoke items smoked = Inr smoked' \<longleftrightarrow>
    (\<forall>item \<in> set items. \<exists>x. inspectArchive (g_files host) (g_formats host) (g_order host) item = Inr x
       \<and> (smoke \<longrightarrow> t_os (v_target item) = g_os host \<longrightarrow> t_arch (v_target item) = g_arch host \<longrightarrow>
            smokeExecutable (g_run host) x version = None))
    \<and> smoked' = (smoked \<or> smoke
        \<and> (\<exists>item \<in> set items. t_os (v_target item) = g_os host \<and> t_arch (v_target item) = g_arch host))"
  by (induction items arbitrary: smoked) (auto split: sum.split option.split)

end
