(* ===== verification/Dist_Props.thy ===== *)
theory Dist_Props
  imports Dist_Verify
begin

text \<open>
  The properties of the release check: what tags, paths, listings, manifests and archives it
  accepts, and what a release that passes it is.
\<close>

section \<open>Tags and paths\<close>

text \<open>
  C34. A tag is accepted exactly when it is the letter \<open>v\<close> and a version in the grammar of
  Semantic Versioning 2.0.0 without build metadata, of at most 128 bytes in all; the result is
  the version.
\<close>

theorem ValidateTag_semver:
  "ValidateTag tag = Inr v \<longleftrightarrow> tag = CHR ''v'' # v \<and> length tag \<le> 128 \<and> semver v"
  by (rule ValidateTag_Inr)

text \<open>
  C35. The name of an archive entry is accepted exactly when it is a canonical relative path: no
  backslash, and all its elements are neither empty nor \<open>.\<close> nor \<open>..\<close>; the result is the name.
\<close>

theorem cleanArchiveName_canonical:
  "cleanArchiveName name = Inr c \<longleftrightarrow> c = name \<and> canonical_path name"
  by (rule cleanArchiveName_iff)

text \<open>
  C36. The search finds an end record exactly when the file ends in one: its signature, 16 bytes
  of fields, the length of a comment in little endian, and a comment of this length.
\<close>

theorem zipEndsAtEOF_record:
  "zipEndsAtEOF data \<longleftrightarrow> (\<exists>front r. data = front @ r \<and> end_record r)"
  by (rule zipEndsAtEOF_iff)

section \<open>The archives of a release\<close>


text \<open>
  C37. A manifest in the format \<open>sha256sum\<close> writes, with the archives in any order and the digests
  of their files, is accepted.
\<close>

theorem sums_accepted:
  assumes "distinct (map v_name as)" "range_order ord" "as \<noteq> []" "mset bs = mset as"
    "\<forall>a \<in> set as. plain_name (v_name a) \<and> fs (v_path a) = Some (plain_file (data a)) \<and> data a \<noteq> []
       \<and> int (length (data a)) \<le> maxArchiveBytes"
    "fs (Join dir ''checksums.txt'') = Some (plain_file (sums (map (\<lambda>a. (v_name a, data a)) bs)))"
    "int (length (sums (map (\<lambda>a. (v_name a, data a)) bs))) \<le> maxChecksumBytes"
  shows "verifyChecksums fs ord dir as = None"
  using assms by (rule sums_verified)

definition demo_item :: archive where
  "demo_item = \<lparr>v_name = ''a'', v_path = ''a'', v_target = \<lparr>t_os = ''linux'', t_arch = ''amd64''\<rparr>,
     v_version = ''1''\<rparr>"

definition demo_files :: files where
  "demo_files p = (if p = ''a'' then Some (plain_file ''x'') else Some (plain_file (sums [(''a'', ''x'')])))"

theorem sums_accepted_witness: "verifyChecksums demo_files id ''d'' [demo_item] = None"
proof -
  have j: "Join ''d'' ''checksums.txt'' \<noteq> ''a''" by code_simp
  have p: "plain_name ''a''" by code_simp
  show ?thesis
    using j p
    by (intro sums_accepted [of _ _ "[demo_item]" _ "\<lambda>_. ''x''"])
      (simp_all add: demo_item_def demo_files_def sums_def sum_line_def maxArchiveBytes_def maxChecksumBytes_def)
qed

text \<open>
  C20. An archive passes exactly when it is a bounded regular file in the format of its target
  that ends where its last structure ends, and its entries are the four required files, each
  once, regular, not empty, of the announced size, and the executable a binary of the target with
  the owner's execute bit where there is one. The caller gets the contents of the executable.
\<close>

theorem inspectArchive_exact:
  assumes "range_order ord"
  shows "inspectArchive fs b ord item = Inr x \<longleftrightarrow> (\<exists>data es e.
    readBoundedRegular fs (v_path item) maxArchiveBytes = Inr data
    \<and> archive_entries b (v_target item) data = Some es
    \<and> mset (map n_Name es) = mset (required_names (v_target item))
    \<and> list_all (entry_ok b (v_target item)) es
    \<and> e \<in> set es \<and> n_Name e = executableName (v_target item) \<and> x = n_Data e)"
  using assms by (rule inspectArchive_Inr)

section \<open>Releases\<close>

text \<open>What the property says of the archive of a target.\<close>

definition released :: "host \<Rightarrow> string \<Rightarrow> string \<Rightarrow> bool \<Rightarrow> target \<Rightarrow> bool" where
  "released host dir v smoke t \<longleftrightarrow> (\<exists>f es e manifest line digest field.
     g_files host (Join dir (archive_name v t)) = Some f \<and> f_regular f
     \<and> 0 < f_size f \<and> f_size f \<le> maxArchiveBytes
     \<and> readBoundedRegular (g_files host) (Join dir ''checksums.txt'') maxChecksumBytes = Inr manifest
     \<and> line \<in> set (split_on (CHR 0x0A) (TrimSpace manifest)) \<and> Fields line = [digest, field]
     \<and> TrimPrefix field ''*'' = archive_name v t \<and> hex_decode digest = Some (sha256 (f_data f))
     \<and> archive_entries (g_formats host) t (f_data f) = Some es
     \<and> mset (map n_Name es) = mset (required_names t) \<and> list_all (entry_ok (g_formats host) t) es
     \<and> e \<in> set es \<and> n_Name e = executableName t
     \<and> (smoke \<and> t_os t = g_os host \<and> t_arch t = g_arch host \<longrightarrow>
          smokeExecutable (g_run host) (n_Data e) v = None))"

lemma discovered_archives:
  assumes "discoverArchives dir listing = Inr (as, v)"
  shows "mset (map v_target as) = mset expectedTargets"
    "\<forall>a \<in> set as. \<exists>n. parseArchiveName dir n = Some a \<and> v_version a = v"
    "\<exists>es. listing = Some es \<and> (\<forall>e \<in> set es. release_entry e \<longrightarrow> d_Name e \<in> v_name ` set as)"
proof -
  obtain es where es: "listing = Some es" using assms by (cases listing) (auto simp: discoverArchives_def)
  obtain items where i: "map (\<lambda>e. parseArchiveName dir (d_Name e)) (filter release_entry es) = map Some items"
    "mset (map v_target items) = mset expectedTargets" "\<forall>i \<in> set items. v_version i = v"
    "as = sort_slice by_name items"
    using assms unfolding es discoverArchives_iff by blast
  have "image_mset v_target (mset as) = image_mset v_target (mset items)" by (simp add: i(4))
  then show "mset (map v_target as) = mset expectedTargets" using i(2) by simp
  show "\<forall>a \<in> set as. \<exists>n. parseArchiveName dir n = Some a \<and> v_version a = v"
  proof
    fix a assume "a \<in> set as"
    then have a: "a \<in> set items" by (simp add: i(4))
    then have "Some a \<in> set (map (\<lambda>e. parseArchiveName dir (d_Name e)) (filter release_entry es))"
      unfolding i(1) by simp
    then show "\<exists>n. parseArchiveName dir n = Some a \<and> v_version a = v" using i(3) a by auto
  qed
  have "\<forall>e \<in> set es. release_entry e \<longrightarrow> d_Name e \<in> v_name ` set as"
  proof (intro ballI impI)
    fix e assume e: "e \<in> set es" "release_entry e"
    then have "parseArchiveName dir (d_Name e) \<in> set (map Some items)" unfolding i(1) [symmetric] by simp
    then obtain a where a: "a \<in> set items" "parseArchiveName dir (d_Name e) = Some a" by auto
    then have "v_name a = d_Name e" using parse_name_cases(2) by blast
    then show "d_Name e \<in> v_name ` set as" using a(1) by (force simp: i(4))
  qed
  then show "\<exists>es. listing = Some es \<and> (\<forall>e \<in> set es. release_entry e \<longrightarrow> d_Name e \<in> v_name ` set as)"
    using es by blast
qed

lemma Verify_None:
  "Verify host dir expected smoke = None \<longleftrightarrow> (\<exists>ev as v. expected_version expected = Inr ev
    \<and> discoverArchives dir (g_listing host) = Inr (as, v) \<and> (ev = [] \<or> v = ev)
    \<and> verifyChecksums (g_files host) (g_order host) dir as = None
    \<and> verify_archives host v smoke as (\<not> smoke) = Inr True)"
  by (auto simp: Verify_def split: sum.split prod.split option.split)

lemma semver_nonempty: "semver v \<Longrightarrow> v \<noteq> []"
  unfolding semver_def by (auto simp: numeric_def)

text \<open>
  C19. A release that passes the check against an expected version has an archive of exactly this
  version for each of the six targets and no other archive, each of them with the digest the
  manifest gives for it, exactly the four required files, and an executable that is a binary for
  its target; if asked for, the host's own executable has run and reported the version.
\<close>

theorem Verify_release:
  assumes "Verify host dir expected smoke = None" "expected \<noteq> []" "range_order (g_order host)"
  shows "\<exists>v es. semver v \<and> (expected = v \<or> expected = CHR ''v'' # v) \<and> g_listing host = Some es
    \<and> (\<forall>t \<in> set expectedTargets. released host dir v smoke t)
    \<and> (\<forall>e \<in> set es. release_entry e \<longrightarrow> (\<exists>t \<in> set expectedTargets. d_Name e = archive_name v t))
    \<and> (smoke \<longrightarrow> (\<exists>t \<in> set expectedTargets. t_os t = g_os host \<and> t_arch t = g_arch host))"
proof -
  from assms(1) obtain ev as v where p: "expected_version expected = Inr ev"
    "discoverArchives dir (g_listing host) = Inr (as, v)" "ev = [] \<or> v = ev"
    "verifyChecksums (g_files host) (g_order host) dir as = None"
    "verify_archives host v smoke as (\<not> smoke) = Inr True" unfolding Verify_None by blast
  have ev: "semver ev" "expected = ev \<or> expected = CHR ''v'' # ev"
    using p(1) expected_version_Inr [OF assms(2)] by blast+
  then have v: "v = ev" using p(3) semver_nonempty by blast
  note d = discovered_archives [OF p(2)]
  have name: "v_name a = archive_name v (v_target a)" "v_path a = Join dir (archive_name v (v_target a))"
    "v_target a \<in> set expectedTargets" if a: "a \<in> set as" for a
  proof -
    obtain n where n: "parseArchiveName dir n = Some a" "v_version a = v" using d(2) a by blast
    have "CHR ''_'' \<notin> set (v_version a)" using semver_free(2) [OF ev(1)] n(2) v by simp
    from parse_name_versioned [OF n(1) this] show "v_name a = archive_name v (v_target a)"
      "v_path a = Join dir (archive_name v (v_target a))" "v_target a \<in> set expectedTargets"
      using parse_name_cases(1,2,3) [OF n(1)] n(2) by simp_all
  qed
  have "distinct (map v_target as)"
    using d(1) expectedTargets_distinct by (metis mset_eq_imp_distinct_iff)
  moreover have "map v_name as = map (archive_name v) (map v_target as)" using name(1) by simp
  moreover have "inj_on (archive_name v) (set expectedTargets)"
  proof (rule inj_onI)
    fix t u assume tu: "t \<in> set expectedTargets" "u \<in> set expectedTargets" "archive_name v t = archive_name v u"
    have "HasSuffix (archive_name v t) (name_suffix t)" "HasSuffix (archive_name v t) (name_suffix u)"
      using archive_name_suffix [of v t] archive_name_suffix [of v u] tu(3) by simp_all
    then show "t = u" using suffix_unique tu(1,2) by blast
  qed
  moreover have ts: "set (map v_target as) = set expectedTargets" using d(1) by (metis set_mset_mset)
  ultimately have dn: "distinct (map v_name as)" by (metis distinct_map)
  obtain manifest names where m: "readBoundedRegular (g_files host) (Join dir ''checksums.txt'') maxChecksumBytes = Inr manifest"
    "mset names = mset (map v_name as)"
    "list_all2 (line_ok (g_files host) as) (split_on (CHR 0x0A) (TrimSpace manifest)) names"
    using p(4) unfolding verifyChecksums_None [OF dn assms(3)] by blast
  have vi: "\<forall>item \<in> set as. \<exists>x. inspectArchive (g_files host) (g_formats host) (g_order host) item = Inr x
       \<and> (smoke \<longrightarrow> t_os (v_target item) = g_os host \<longrightarrow> t_arch (v_target item) = g_arch host \<longrightarrow>
            smokeExecutable (g_run host) x v = None)"
    and sm: "\<not> smoke \<or> (\<exists>item \<in> set as. t_os (v_target item) = g_os host \<and> t_arch (v_target item) = g_arch host)"
    using p(5) unfolding verify_archives_Inr by blast+
  have rel: "released host dir v smoke (v_target a)" if a: "a \<in> set as" for a
  proof -
    have "v_name a \<in> set names" using m(2) a by (metis image_eqI list.set_map set_mset_mset)
    then obtain i where i: "i < length names" "names ! i = v_name a" by (auto simp: in_set_conv_nth)
    define line where "line = split_on (CHR 0x0A) (TrimSpace manifest) ! i"
    have "line_ok (g_files host) as line (v_name a)" "line \<in> set (split_on (CHR 0x0A) (TrimSpace manifest))"
      using m(3) i by (auto simp: line_def list_all2_conv_all_nth)
    then obtain digest field item actual where l: "Fields line = [digest, field]"
      "TrimPrefix field ''*'' = v_name a" "item \<in> set as" "v_name item = v_name a"
      "fileSHA256 (g_files host) (v_path item) = Inr actual" "hex_decode digest = Some actual"
      "line \<in> set (split_on (CHR 0x0A) (TrimSpace manifest))"
      unfolding line_ok_def by blast
    have it: "item = a" using dn l(3,4) a by (metis distinct_map inj_onD)
    obtain f where f: "g_files host (v_path a) = Some f" "f_regular f" "0 < f_size f"
      "f_size f \<le> maxArchiveBytes" "actual = sha256 (f_data f)"
      using fileSHA256_Inr [OF l(5)] it by blast
    obtain x where x: "inspectArchive (g_files host) (g_formats host) (g_order host) a = Inr x"
      "smoke \<longrightarrow> t_os (v_target a) = g_os host \<longrightarrow> t_arch (v_target a) = g_arch host \<longrightarrow>
         smokeExecutable (g_run host) x v = None" using vi a by blast
    obtain data es e where e: "readBoundedRegular (g_files host) (v_path a) maxArchiveBytes = Inr data"
      "archive_entries (g_formats host) (v_target a) data = Some es"
      "mset (map n_Name es) = mset (required_names (v_target a))"
      "list_all (entry_ok (g_formats host) (v_target a)) es" "e \<in> set es"
      "n_Name e = executableName (v_target a)" "x = n_Data e"
      using x(1) unfolding inspectArchive_Inr [OF assms(3)] by blast
    have "data = f_data f"
      using readBoundedRegular_Inr [OF e(1)] f(1) by (auto simp: maxArchiveBytes_def)
    then show ?thesis
      unfolding released_def using f l e x(2) m(1) name(1,2) [OF a] by metis
  qed
  have "\<forall>t \<in> set expectedTargets. released host dir v smoke t"
    using rel ts by (metis (no_types, lifting) imageE list.set_map)
  moreover obtain es where es: "g_listing host = Some es"
    "\<forall>e \<in> set es. release_entry e \<longrightarrow> d_Name e \<in> v_name ` set as" using d(3) by blast
  moreover have "\<forall>e \<in> set es. release_entry e \<longrightarrow> (\<exists>t \<in> set expectedTargets. d_Name e = archive_name v t)"
    using es(2) name by force
  moreover have "smoke \<longrightarrow> (\<exists>t \<in> set expectedTargets. t_os t = g_os host \<and> t_arch t = g_arch host)"
    using sm name(3) by blast
  ultimately show ?thesis using ev v by blast
qed

section \<open>A release\<close>

text \<open>A distribution of version 1.2.3 in a directory \<open>d\<close>.\<close>

definition demo_data :: "target \<Rightarrow> string" where
  "demo_data t = t_arch t @ (if t_os t = ''windows''
     then [CHR ''P'', CHR ''K'', CHR 0x05, CHR 0x06] @ replicate 18 (CHR 0x00) else [])"

definition demo_entries :: "target \<Rightarrow> string \<Rightarrow> entry list" where
  "demo_entries t data = map (\<lambda>n. \<lparr>n_Name = n, n_Mode = 493, n_Size = int (length data), n_Data = data,
     n_ReadFails = False\<rparr>) (required_names t)"

definition demo_formats :: formats where
  "demo_formats = \<lparr>
     b_targz = (\<lambda>d. Some (demo_entries \<lparr>t_os = ''linux'', t_arch = []\<rparr> d, TapeEOF False False 0 0)),
     b_zip = (\<lambda>d. Some (map (\<lambda>e. entry.extend e \<lparr>n_OpenFails = False, n_CloseFails = False\<rparr>)
       (demo_entries \<lparr>t_os = ''windows'', t_arch = []\<rparr> d))),
     b_elf = (\<lambda>d. Some \<lparr>elf_Class = 2, elf_Data = 1, elf_Type = 3,
       elf_Machine = (if d = ''amd64'' then 62 else 183)\<rparr>),
     b_macho = (\<lambda>d. Some \<lparr>macho_Type = 2, macho_Cpu = (if d = ''amd64'' then 0x1000007 else 0x100000C)\<rparr>),
     b_pe = (\<lambda>d. Some \<lparr>pe_Characteristics = 2, pe_OptionalHeader64 = True,
       pe_Machine = (if HasPrefix d ''amd64'' then 0x8664 else 0xAA64)\<rparr>)\<rparr>"

definition demo_archive :: "target \<Rightarrow> archive" where
  "demo_archive t = \<lparr>v_name = archive_name ''1.2.3'' t, v_path = Join ''d'' (archive_name ''1.2.3'' t),
     v_target = t, v_version = ''1.2.3''\<rparr>"

definition demo_sums :: string where
  "demo_sums = sums (map (\<lambda>a. (v_name a, demo_data (v_target a))) (map demo_archive expectedTargets))"

definition demo_host :: host where
  "demo_host = \<lparr>g_listing = Some (map (\<lambda>t. \<lparr>d_Name = archive_name ''1.2.3'' t, d_IsDir = False,
       d_Info = Some \<lparr>i_regular = True, i_size = 5\<rparr>\<rparr>) expectedTargets),
     g_files = (\<lambda>p. map_option plain_file (if p = Join ''d'' ''checksums.txt'' then Some demo_sums
       else map_option demo_data (find (\<lambda>t. p = Join ''d'' (archive_name ''1.2.3'' t)) expectedTargets))),
     g_formats = demo_formats, g_order = id, g_os = ''linux'', g_arch = ''amd64'',
     g_run = (\<lambda>d. \<lparr>m_MkdirFails = False, m_WriteFails = False, m_Expired = False, m_Fails = False,
       m_Output = ''relaybox 1.2.3'' @ [CHR 0x0A]\<rparr>)\<rparr>"

lemma demo_discovered:
  "discoverArchives ''d'' (g_listing demo_host) = Inr (map demo_archive expectedTargets, ''1.2.3'')"
  unfolding demo_host_def host.select_convs by code_simp

lemma demo_tag: "expected_version ''v1.2.3'' = Inr ''1.2.3''"
  by code_simp

lemma demo_paths:
  "list_all (\<lambda>t. Join ''d'' (archive_name ''1.2.3'' t) \<noteq> Join ''d'' ''checksums.txt''
     \<and> find (\<lambda>u. Join ''d'' (archive_name ''1.2.3'' t) = Join ''d'' (archive_name ''1.2.3'' u)) expectedTargets = Some t
     \<and> plain_name (archive_name ''1.2.3'' t) \<and> demo_data t \<noteq> [] \<and> length (demo_data t) < 100
     \<and> length (archive_name ''1.2.3'' t) < 100)
    expectedTargets"
  by code_simp

lemma demo_distinct: "distinct (map v_name (map demo_archive expectedTargets))"
  by code_simp

lemma demo_file:
  assumes "t \<in> set expectedTargets"
  shows "g_files demo_host (v_path (demo_archive t)) = Some (plain_file (demo_data t))"
  using demo_paths assms unfolding list_all_iff
  by (auto simp: demo_host_def demo_archive_def)

lemma sums_Cons: "sums ((n, d) # ns) = sum_line n d @ CHR 0x0A # sums ns"
  by (simp add: sums_def)

lemma demo_checked: "verifyChecksums (g_files demo_host) id ''d'' (map demo_archive expectedTargets) = None"
proof (rule sums_verified [OF demo_distinct])
  let ?as = "map demo_archive expectedTargets"
  show "range_order id" by simp
  show "?as \<noteq> []" by (simp add: expectedTargets_def)
  show "mset ?as = mset ?as" by simp
  show "\<forall>a \<in> set ?as. plain_name (v_name a) \<and> g_files demo_host (v_path a) = Some (plain_file (demo_data (v_target a)))
      \<and> demo_data (v_target a) \<noteq> [] \<and> int (length (demo_data (v_target a))) \<le> maxArchiveBytes"
    using demo_paths demo_file by (auto simp: list_all_iff demo_archive_def maxArchiveBytes_def)
  show "g_files demo_host (Join ''d'' ''checksums.txt'')
      = Some (plain_file (sums (map (\<lambda>a. (v_name a, demo_data (v_target a))) ?as)))"
    by (simp add: demo_host_def demo_sums_def)
  have "length (sums (map (\<lambda>a. (v_name a, demo_data (v_target a))) (map demo_archive ts)))
      \<le> length ts * 200" if "set ts \<subseteq> set expectedTargets" for ts
    using that
  proof (induction ts)
    case (Cons t ts)
    have "length (archive_name ''1.2.3'' t) < 100"
      using demo_paths Cons.prems by (auto simp: list_all_iff)
    then show ?case using Cons by (simp add: sums_Cons sum_line_def demo_archive_def)
  qed (simp add: sums_def)
  from this [OF subset_refl]
  show "int (length (sums (map (\<lambda>a. (v_name a, demo_data (v_target a))) ?as))) \<le> maxChecksumBytes"
    by (simp add: expectedTargets_def maxChecksumBytes_def)
qed

lemma demo_zip: "zipEndsAtEOF (s @ [CHR ''P'', CHR ''K'', CHR 0x05, CHR 0x06] @ replicate 18 (CHR 0x00))"
proof -
  have "replicate 18 (CHR 0x00) = replicate 16 (CHR 0x00) @ [CHR 0x00, CHR 0x00] @ []" by code_simp
  then have "end_record ([CHR ''P'', CHR ''K'', CHR 0x05, CHR 0x06] @ replicate 18 (CHR 0x00))"
    unfolding end_record_def
    by (intro exI [of _ "replicate 16 (CHR 0x00)"] exI [of _ "CHR 0x00"] exI [of _ "[]"]) simp
  then show ?thesis unfolding zipEndsAtEOF_iff by blast
qed

lemma demo_entries_found:
  assumes "t \<in> set expectedTargets"
  shows "archive_entries demo_formats t (demo_data t) = Some (demo_entries t (demo_data t))"
proof -
  have e: "demo_entries \<lparr>t_os = t_os t, t_arch = []\<rparr> d = demo_entries t d" for d
    by (simp add: demo_entries_def required_names_def executableName_def)
  have e': "t_os t \<noteq> ''windows'' \<Longrightarrow> demo_entries \<lparr>t_os = ''linux'', t_arch = []\<rparr> d = demo_entries t d" for d
    by (simp add: demo_entries_def required_names_def executableName_def)
  have x: "map (entry.truncate \<circ> (\<lambda>e. entry.extend e \<lparr>n_OpenFails = False, n_CloseFails = False\<rparr>)) es = es"
    for es by (intro map_idI) (simp add: entry.defs)
  show ?thesis
  proof (cases "t_os t = ''windows''")
    case True
    have "list_all (\<lambda>e. \<not> n_OpenFails e \<and> \<not> n_CloseFails e)
        (map (\<lambda>e. entry.extend e \<lparr>n_OpenFails = False, n_CloseFails = False\<rparr>) es)" for es :: "entry list"
      by (simp add: list_all_iff entry.defs)
    then show ?thesis
      using True e [unfolded True] demo_zip [of "t_arch t"] x
      by (simp add: archive_entries_def demo_formats_def demo_data_def)
  next
    case False
    then show ?thesis using e' by (simp add: archive_entries_def demo_formats_def)
  qed
qed

lemma demo_binary:
  assumes "t \<in> set expectedTargets"
  shows "validateExecutable demo_formats (demo_data t) t"
  using assms
  by (auto simp: expectedTargets_def validateExecutable_def valid_elf_def valid_macho_def valid_pe_def
      demo_formats_def demo_data_def arch_value_def HasPrefix_def)

lemma demo_entries_ok:
  assumes "t \<in> set expectedTargets"
  shows "list_all (entry_ok demo_formats t) (demo_entries t (demo_data t))"
proof -
  have "demo_data t \<noteq> []" "length (demo_data t) < 100"
    using demo_paths assms by (auto simp: list_all_iff)
  then show ?thesis
    using demo_binary [OF assms]
    by (auto simp: demo_entries_def entry_ok_def list_all_iff mode_type_def maxEntryBytes_def)
qed

lemma demo_read:
  assumes "t \<in> set expectedTargets"
  shows "readBoundedRegular (g_files demo_host) (v_path (demo_archive t)) maxArchiveBytes = Inr (demo_data t)"
proof (rule readBoundedRegular_plain)
  show "g_files demo_host (v_path (demo_archive t)) = Some (plain_file (demo_data t))"
    by (rule demo_file [OF assms])
  show "int (length (demo_data t)) \<le> maxArchiveBytes"
    using demo_paths assms by (auto simp: list_all_iff maxArchiveBytes_def)
qed

lemma demo_inspected:
  assumes "t \<in> set expectedTargets"
  shows "inspectArchive (g_files demo_host) (g_formats demo_host) id (demo_archive t) = Inr (demo_data t)"
proof -
  have o: "range_order id" by simp
  have t: "v_target (demo_archive t) = t" "g_formats demo_host = demo_formats"
    by (simp_all add: demo_archive_def demo_host_def)
  have c: "archive_entries demo_formats t (demo_data t) = Some (demo_entries t (demo_data t))"
    "list_all (entry_ok demo_formats t) (demo_entries t (demo_data t))"
    using demo_entries_found demo_entries_ok assms by blast+
  have n: "map n_Name (demo_entries t (demo_data t)) = required_names t"
    by (simp add: demo_entries_def comp_def)
  have "executableName t \<in> set (required_names t)" by (simp add: required_names_def)
  then obtain e where "e \<in> set (demo_entries t (demo_data t))" "n_Name e = executableName t"
      "n_Data e = demo_data t"
    by (force simp: demo_entries_def)
  then show ?thesis
    unfolding inspectArchive_Inr [OF o] t
    using demo_read [OF assms] c n by metis
qed

lemma demo_verified: "Verify demo_host ''d'' ''v1.2.3'' True = None"
proof -
  have g: "g_order demo_host = id" "g_os demo_host = ''linux''" "g_arch demo_host = ''amd64''"
    by (simp_all add: demo_host_def)
  have sm: "smokeExecutable (g_run demo_host) d ''1.2.3'' = None" for d
    unfolding demo_host_def host.select_convs by code_simp
  have "\<lparr>t_os = ''linux'', t_arch = ''amd64''\<rparr> \<in> set expectedTargets" by (simp add: expectedTargets_def)
  then have "verify_archives demo_host ''1.2.3'' True (map demo_archive expectedTargets) (\<not> True) = Inr True"
    unfolding verify_archives_Inr g using demo_inspected sm by (force simp: demo_archive_def)
  then show ?thesis
    unfolding Verify_None using demo_tag demo_discovered demo_checked g by auto
qed

theorem inspectArchive_exact_witness:
  "\<exists>es. archive_entries demo_formats \<lparr>t_os = ''linux'', t_arch = ''amd64''\<rparr> ''amd64'' = Some es
    \<and> mset (map n_Name es) = mset (required_names \<lparr>t_os = ''linux'', t_arch = ''amd64''\<rparr>)"
proof -
  let ?t = "\<lparr>t_os = ''linux'', t_arch = ''amd64''\<rparr>"
  have t: "?t \<in> set expectedTargets" by (simp add: expectedTargets_def)
  have o: "range_order id" by simp
  have d: "demo_data ?t = ''amd64''" "g_formats demo_host = demo_formats" "v_target (demo_archive ?t) = ?t"
    by (simp_all add: demo_data_def demo_host_def demo_archive_def)
  obtain data es where "readBoundedRegular (g_files demo_host) (v_path (demo_archive ?t)) maxArchiveBytes = Inr data"
    "archive_entries demo_formats ?t data = Some es" "mset (map n_Name es) = mset (required_names ?t)"
    using demo_inspected [OF t] unfolding inspectArchive_exact [OF o] d by blast
  then show ?thesis using demo_read [OF t] d(1) by simp
qed

theorem Verify_release_witness:
  "\<exists>v. semver v \<and> list_all (released demo_host ''d'' v True) expectedTargets"
proof -
  have "range_order (g_order demo_host)" by (simp add: demo_host_def)
  from Verify_release [OF demo_verified _ this] show ?thesis by (auto simp: list_all_iff)
qed

end
