(* ===== verification/Go_Flag.thy ===== *)
theory Go_Flag
  imports Go_Strings "HOL-Library.AList"
begin

text \<open>
  Go's \<open>flag\<close> package as the commands use it: a flag set with its values, \<open>strconv.ParseInt\<close> with
  base 0 on a 64-bit machine, \<open>strconv.ParseBool\<close>, and \<open>FlagSet.Parse\<close>. The functions are the
  ones of the standard library; nothing of it is a parameter.
\<close>

section \<open>Integers in the syntax of Go\<close>

definition digit_value :: "char \<Rightarrow> nat" where
  "digit_value c =
     (if is_digit c then of_char c - 48
      else if is_lower (lower_byte c) then of_char (lower_byte c) - 87 else 36)"

text \<open>The digits in a base; an underscore between them is skipped here.\<close>

fun base_digits :: "nat \<Rightarrow> nat \<Rightarrow> string \<Rightarrow> nat option" where
  "base_digits b n [] = Some n"
| "base_digits b n (c # s) =
     (if c = CHR ''_'' then base_digits b n s
      else if digit_value c < b then base_digits b (b * n + digit_value c) s else None)"

definition prefix_base :: "char \<Rightarrow> nat option" where
  "prefix_base c =
     (if lower_byte c = CHR ''b'' then Some 2
      else if lower_byte c = CHR ''o'' then Some 8
      else if lower_byte c = CHR ''x'' then Some 16 else None)"

definition number_base :: "string \<Rightarrow> nat \<times> string" where
  "number_base s =
     (case s of
       [] \<Rightarrow> (10, s)
     | c # ds \<Rightarrow>
         if c \<noteq> CHR ''0'' then (10, s)
         else if length s < 3 then (8, ds)
         else (case prefix_base (s ! 1) of None \<Rightarrow> (8, ds) | Some b \<Rightarrow> (b, drop 2 s)))"

text \<open>What came before, as \<open>underscoreOK\<close> of \<open>strconv\<close> tracks it.\<close>

datatype seen = AtStart | Digit | Underscore | Other

fun underscores :: "bool \<Rightarrow> seen \<Rightarrow> string \<Rightarrow> bool" where
  "underscores hex i [] = (i \<noteq> Underscore)"
| "underscores hex i (c # s) =
     (if is_digit c \<or> hex \<and> CHR ''a'' \<le> lower_byte c \<and> lower_byte c \<le> CHR ''f''
        then underscores hex Digit s
      else if c = CHR ''_'' then i = Digit \<and> underscores hex Underscore s
      else i \<noteq> Underscore \<and> underscores hex Other s)"

definition underscoreOK :: "string \<Rightarrow> bool" where
  "underscoreOK s =
     (if 2 \<le> length s \<and> s ! 0 = CHR ''0'' \<and> prefix_base (s ! 1) \<noteq> None
        then underscores (lower_byte (s ! 1) = CHR ''x'') Digit (drop 2 s)
      else underscores False AtStart s)"

definition parse_base0 :: "string \<Rightarrow> nat option" where
  "parse_base0 s =
     (if s = [] then None
      else (let (b, ds) = number_base s
        in case base_digits b 0 ds of
             None \<Rightarrow> None
           | Some n \<Rightarrow> if CHR ''_'' \<in> set ds \<and> \<not> underscoreOK s then None else Some n))"

text \<open>\<open>ParseInt(s, 0, 64)\<close>; out of range is an error.\<close>

definition ParseInt0 :: "string \<Rightarrow> int option" where
  "ParseInt0 s =
     (let (neg, ds) = (case s of
          c # cs \<Rightarrow> if c = CHR ''-'' then (True, cs) else if c = CHR ''+'' then (False, cs) else (False, s)
        | [] \<Rightarrow> (False, []))
      in case parse_base0 ds of
           None \<Rightarrow> None
         | Some n \<Rightarrow>
             (let v = (if neg then - int n else int n)
              in if - (2 ^ 63) \<le> v \<and> v < 2 ^ 63 then Some v else None))"

definition ParseBool :: "string \<Rightarrow> bool option" where
  "ParseBool s =
     (if s \<in> set [''1'', ''t'', ''T'', ''TRUE'', ''true'', ''True''] then Some True
      else if s \<in> set [''0'', ''f'', ''F'', ''FALSE'', ''false'', ''False''] then Some False
      else None)"

section \<open>Flag sets\<close>

datatype flag_value = StringFlag string | IntFlag int | BoolFlag bool

type_synonym flag_set = "(string \<times> flag_value) list"

datatype flag_error =
    HelpRequested
  | BadSyntax string
  | NotDefined string
  | InvalidValue string string
  | NeedsArgument string

definition set_value :: "flag_value \<Rightarrow> string \<Rightarrow> flag_value option" where
  "set_value old s =
     (case old of
       StringFlag _ \<Rightarrow> Some (StringFlag s)
     | IntFlag _ \<Rightarrow> map_option IntFlag (ParseInt0 s)
     | BoolFlag _ \<Rightarrow> map_option BoolFlag (ParseBool s))"

definition is_bool_flag :: "flag_value \<Rightarrow> bool" where
  "is_bool_flag v = (case v of BoolFlag _ \<Rightarrow> True | _ \<Rightarrow> False)"

text \<open>An argument without its dashes, cut at its first \<open>=\<close>.\<close>

definition cut_value :: "string \<Rightarrow> string \<times> string option" where
  "cut_value s =
     (case dropWhile (\<lambda>c. c \<noteq> CHR ''='') s of
       [] \<Rightarrow> (s, None)
     | _ # v \<Rightarrow> (takeWhile (\<lambda>c. c \<noteq> CHR ''='') s, Some v))"

definition flag_name :: "string \<Rightarrow> string" where
  "flag_name s = (if s ! 1 = CHR ''-'' then drop 2 s else drop 1 s)"

definition bad_name :: "string \<Rightarrow> bool" where
  "bad_name name \<longleftrightarrow> name = [] \<or> name ! 0 = CHR ''-'' \<or> name ! 0 = CHR ''=''"

text \<open>\<open>FlagSet.Parse\<close>: the flags with the values given and the arguments that are left.\<close>

fun parse_flags :: "flag_set \<Rightarrow> string list \<Rightarrow> flag_error + flag_set \<times> string list" where
  "parse_flags fs [] = Inr (fs, [])"
| "parse_flags fs (s # args) =
     (if length s < 2 \<or> s ! 0 \<noteq> CHR ''-'' then Inr (fs, s # args)
      else if s = ''--'' then Inr (fs, args)
      else if bad_name (flag_name s) then Inl (BadSyntax s)
      else (let (name, value) = cut_value (flag_name s)
        in case map_of fs name of
          None \<Rightarrow> if name = ''help'' \<or> name = ''h'' then Inl HelpRequested else Inl (NotDefined name)
        | Some old \<Rightarrow>
            if is_bool_flag old \<or> value \<noteq> None then
              (let text = (case value of None \<Rightarrow> ''true'' | Some v \<Rightarrow> v)
               in case set_value old text of
                    None \<Rightarrow> Inl (InvalidValue name text)
                  | Some v \<Rightarrow> parse_flags (AList.update name v fs) args)
            else (case args of
                [] \<Rightarrow> Inl (NeedsArgument name)
              | text # rest \<Rightarrow>
                  (case set_value old text of
                    None \<Rightarrow> Inl (InvalidValue name text)
                  | Some v \<Rightarrow> parse_flags (AList.update name v fs) rest))))"

declare parse_flags.simps [simp del]

definition string_flag :: "flag_set \<Rightarrow> string \<Rightarrow> string" where
  "string_flag fs name = (case map_of fs name of Some (StringFlag s) \<Rightarrow> s | _ \<Rightarrow> [])"

definition int_flag :: "flag_set \<Rightarrow> string \<Rightarrow> int" where
  "int_flag fs name = (case map_of fs name of Some (IntFlag i) \<Rightarrow> i | _ \<Rightarrow> 0)"

definition bool_flag :: "flag_set \<Rightarrow> string \<Rightarrow> bool" where
  "bool_flag fs name = (case map_of fs name of Some (BoolFlag b) \<Rightarrow> b | _ \<Rightarrow> False)"

section \<open>Integers as they are printed\<close>

lemma digit_value_digit: "is_digit c \<Longrightarrow> digit_value c = of_char c - 48" "is_digit c \<Longrightarrow> digit_value c < 10"
  by (auto simp: digit_value_def is_digit_def less_eq_char_def)

lemma base_digits_decimal:
  "list_all is_digit s \<Longrightarrow> base_digits 10 n s = digits_val n s"
proof (induction s arbitrary: n)
  case (Cons c s)
  have "\<not> is_digit (CHR ''_'')" by code_simp
  then show ?case using Cons digit_value_digit [of c] by auto
qed simp

lemma nat_digits_digits: "list_all is_digit (nat_digits n)"
proof (induction n rule: nat_digits.induct)
  case (1 n)
  then show ?case by (subst nat_digits.simps) (auto simp: digit_char list_all_append)
qed

lemma char_of_digit_zero:
  assumes "d < 10" "char_of (48 + d :: nat) = CHR ''0''"
  shows "d = 0"
proof -
  have "48 + d = of_char (CHR ''0'')" using digit_char(2) [OF assms(1)] assms(2) by metis
  then show ?thesis by simp
qed

lemma hd_nat_digits: "n \<noteq> 0 \<Longrightarrow> hd (nat_digits n) \<noteq> CHR ''0''"
proof (induction n rule: nat_digits.induct)
  case (1 n)
  show ?case
  proof (cases "n < 10")
    case True
    then show ?thesis using 1(2) char_of_digit_zero [OF True] by (subst nat_digits.simps) auto
  next
    case False
    then have "n div 10 \<noteq> 0" by simp
    then show ?thesis using 1(1) [OF False] False by (subst nat_digits.simps) simp
  qed
qed

lemma parse_base0_nat_digits: "parse_base0 (nat_digits n) = Some n"
proof (cases "n = 0")
  case True
  have "parse_base0 ''0'' = Some 0" by code_simp
  moreover have "nat_digits 0 = ''0''" by code_simp
  ultimately show ?thesis using True by simp
next
  case False
  obtain c s where s: "nat_digits n = c # s" using nat_digits_not_Nil by (cases "nat_digits n") auto
  have "c \<noteq> CHR ''0''" using hd_nat_digits [OF False] by (simp add: s)
  then have b: "number_base (nat_digits n) = (10, nat_digits n)" by (simp add: number_base_def s)
  have "\<not> is_digit (CHR ''_'')" by code_simp
  then have "CHR ''_'' \<notin> set (nat_digits n)" using nat_digits_digits by (auto simp: list_all_iff)
  then show ?thesis
    using base_digits_decimal [OF nat_digits_digits] digits_val_nat_digits
    by (simp add: parse_base0_def b)
qed

lemma ParseInt0_Itoa:
  assumes "- (2 ^ 63) \<le> v" "v < 2 ^ 63"
  shows "ParseInt0 (Itoa v) = Some v"
proof (cases "v < 0")
  case True
  then show ?thesis using assms by (simp add: ParseInt0_def Itoa_def parse_base0_nat_digits)
next
  case False
  obtain c s where s: "nat_digits (nat v) = c # s"
    using nat_digits_not_Nil by (cases "nat_digits (nat v)") auto
  then have "is_digit c" using nat_digits_digits [of "nat v"] by simp
  moreover have "\<not> is_digit (CHR ''-'')" "\<not> is_digit (CHR ''+'')" by code_simp+
  ultimately have "c \<noteq> CHR ''-''" "c \<noteq> CHR ''+''" by auto
  then have "ParseInt0 (nat_digits (nat v)) = (case parse_base0 (nat_digits (nat v)) of None \<Rightarrow> None
      | Some n \<Rightarrow> if - (2 ^ 63) \<le> int n \<and> int n < 2 ^ 63 then Some (int n) else None)"
    by (auto simp: ParseInt0_def s Let_def split: option.split)
  then show ?thesis using False assms by (simp add: Itoa_def parse_base0_nat_digits)
qed

section \<open>Parsing one flag\<close>

text \<open>A name the commands use: no dash or equals sign at its start, no equals sign in it.\<close>

definition plain_name :: "string \<Rightarrow> bool" where
  "plain_name name \<longleftrightarrow> \<not> bad_name name \<and> CHR ''='' \<notin> set name"

lemma cut_value_plain:
  assumes "CHR ''='' \<notin> set name"
  shows "cut_value name = (name, None)" "cut_value (name @ CHR ''='' # v) = (name, Some v)"
proof -
  have "dropWhile (\<lambda>c. c \<noteq> CHR ''='') name = []" using assms by (induction name) auto
  then show "cut_value name = (name, None)" by (simp only: cut_value_def list.case)
  have "dropWhile (\<lambda>c. c \<noteq> CHR ''='') (name @ CHR ''='' # v) = CHR ''='' # v"
    "takeWhile (\<lambda>c. c \<noteq> CHR ''='') (name @ CHR ''='' # v) = name"
    using assms by (induction name) auto
  then show "cut_value (name @ CHR ''='' # v) = (name, Some v)" by (simp only: cut_value_def list.case)
qed

lemma flag_name_dash:
  assumes "\<not> bad_name name"
  shows "flag_name (CHR ''-'' # name @ t) = name @ t" "flag_name (CHR ''-'' # CHR ''-'' # name @ t) = name @ t"
  using assms by (cases name, auto simp: flag_name_def bad_name_def)+

lemma parse_flags_value:
  assumes "plain_name name" "map_of fs name = Some old" "set_value old text = Some v"
  shows "\<not> is_bool_flag old \<Longrightarrow>
      parse_flags fs ((CHR ''-'' # name) # text # args) = parse_flags (AList.update name v fs) args"
    "parse_flags fs ((CHR ''-'' # name @ CHR ''='' # text) # args) = parse_flags (AList.update name v fs) args"
proof -
  have n: "\<not> bad_name name" "CHR ''='' \<notin> set name" using assms(1) by (simp_all add: plain_name_def)
  then obtain c cs where c: "name = c # cs" "c \<noteq> CHR ''-''" by (cases name) (auto simp: bad_name_def)
  have b: "\<not> bad_name (name @ t)" for t using n(1) c by (auto simp: bad_name_def)
  show "parse_flags fs ((CHR ''-'' # name) # text # args) = parse_flags (AList.update name v fs) args"
    if "\<not> is_bool_flag old"
    using flag_name_dash(1) [OF n(1), of "[]"] n cut_value_plain(1) [OF n(2)] assms(2,3) c that
    by (subst parse_flags.simps) simp
  show "parse_flags fs ((CHR ''-'' # name @ CHR ''='' # text) # args) = parse_flags (AList.update name v fs) args"
    using flag_name_dash(1) [OF n(1)] b cut_value_plain(2) [OF n(2)] assms(2,3) c
    by (subst parse_flags.simps) simp
qed

definition same_kind :: "flag_value \<Rightarrow> flag_value \<Rightarrow> bool" where
  "same_kind v w = (case (v, w) of (StringFlag _, StringFlag _) \<Rightarrow> True
     | (IntFlag _, IntFlag _) \<Rightarrow> True | (BoolFlag _, BoolFlag _) \<Rightarrow> True | _ \<Rightarrow> False)"

lemma same_kind_refl [simp]: "same_kind v v"
  by (cases v) (simp_all add: same_kind_def)

lemma same_kind_trans: "same_kind u v \<Longrightarrow> same_kind v w \<Longrightarrow> same_kind u w"
  by (cases u; cases v; cases w) (simp_all add: same_kind_def)

lemma set_value_kind: "set_value old s = Some v \<Longrightarrow> same_kind old v"
  by (cases old) (auto simp: set_value_def same_kind_def)

definition same_flag :: "string \<times> flag_value \<Rightarrow> string \<times> flag_value \<Rightarrow> bool" where
  "same_flag p q \<longleftrightarrow> fst p = fst q \<and> same_kind (snd p) (snd q)"

lemma same_flag_refl [simp]: "same_flag p p"
  by (simp add: same_flag_def)

lemma update_kinds:
  assumes "map_of fs name = Some old" "same_kind old v"
  shows "list_all2 same_flag fs (AList.update name v fs)"
  using assms
  by (induction fs) (auto simp: same_flag_def list_all2_refl split: if_splits)

lemma same_flags_trans: "list_all2 same_flag fs gs \<Longrightarrow> list_all2 same_flag gs hs \<Longrightarrow> list_all2 same_flag fs hs"
  by (rule list_all2_trans) (auto simp: same_flag_def intro: same_kind_trans)

text \<open>Parsing changes the values of flags only: names, order and kinds stay.\<close>

lemma parse_flags_kinds: "parse_flags fs args = Inr (gs, rest) \<Longrightarrow> list_all2 same_flag fs gs"
proof (induction fs args rule: parse_flags.induct)
  case (1 fs)
  then show ?case by (simp add: parse_flags.simps list_all2_refl)
next
  case (2 fs s args)
  note step = update_kinds [OF _ set_value_kind] 
  show ?case
  proof (cases "length s < 2 \<or> s ! 0 \<noteq> CHR ''-'' \<or> s = ''--'' \<or> bad_name (flag_name s)")
    case True
    then show ?thesis
      using 2(3) by (subst (asm) parse_flags.simps) (auto simp: list_all2_refl split: if_splits)
  next
    case False
    obtain name val where c: "cut_value (flag_name s) = (name, val)" by fastforce
    note e = 2(3) [unfolded parse_flags.simps(2) c] and IH = 2(1,2) [OF _ _ _ c [symmetric] refl]
    then obtain old where old: "map_of fs name = Some old"
      using False by (cases "map_of fs name") (simp_all split: if_splits)
    show ?thesis
    proof (cases "is_bool_flag old \<or> val \<noteq> None")
      case True
      then obtain v where v: "set_value old (case val of None \<Rightarrow> ''true'' | Some v \<Rightarrow> v) = Some v"
        "parse_flags (AList.update name v fs) args = Inr (gs, rest)"
        using e False old by (auto simp: Let_def split: option.splits)
      then have "list_all2 same_flag (AList.update name v fs) gs"
        using IH(1) False old True by blast
      then show ?thesis using step [OF old v(1)] same_flags_trans by blast
    next
      case valued: False
      then obtain arg args' v where v: "args = arg # args'" "set_value old arg = Some v"
        "parse_flags (AList.update name v fs) args' = Inr (gs, rest)"
        using e False old by (auto split: option.splits list.splits)
      then have "list_all2 same_flag (AList.update name v fs) gs"
        using IH(2) False old valued by blast
      then show ?thesis using step [OF old v(2)] same_flags_trans by blast
    qed
  qed
qed

lemma same_flags_lookup:
  assumes "list_all2 same_flag fs gs" "map_of fs name = Some v"
  shows "\<exists>w. map_of gs name = Some w \<and> same_kind v w"
  using assms by (induction fs gs rule: list_all2_induct) (auto simp: same_flag_def split: if_splits)

section \<open>Arguments as they are printed\<close>

fun flag_text :: "flag_value \<Rightarrow> string" where
  "flag_text (StringFlag s) = s"
| "flag_text (IntFlag i) = Itoa i"
| "flag_text (BoolFlag b) = (if b then ''true'' else ''false'')"

definition flag_args :: "flag_set \<Rightarrow> string list" where
  "flag_args fs = map (\<lambda>(name, v). CHR ''-'' # name @ CHR ''='' # flag_text v) fs"

fun in_int64 :: "flag_value \<Rightarrow> bool" where
  "in_int64 (IntFlag i) = (- (2 ^ 63) \<le> i \<and> i < 2 ^ 63)"
| "in_int64 _ = True"

lemma set_value_text: "same_kind old v \<Longrightarrow> in_int64 v \<Longrightarrow> set_value old (flag_text v) = Some v"
proof -
  have "ParseBool ''true'' = Some True" "ParseBool ''false'' = Some False" by code_simp+
  then show "same_kind old v \<Longrightarrow> in_int64 v \<Longrightarrow> set_value old (flag_text v) = Some v"
    by (cases old; cases v) (simp_all add: same_kind_def set_value_def ParseInt0_Itoa)
qed

lemma update_middle: "k \<notin> fst ` set gs \<Longrightarrow> AList.update k v (gs @ (k, w) # fs) = gs @ (k, v) # fs"
  by (induction gs) auto

lemma map_of_middle: "k \<notin> fst ` set gs \<Longrightarrow> map_of (gs @ (k, w) # fs) k = Some w"
  by (simp add: map_add_def map_of_eq_None_iff [THEN iffD2])

lemma parse_flags_printed:
  assumes "list_all2 same_flag fs gs" "distinct (map fst (hs @ gs))"
    "list_all (\<lambda>(name, v). plain_name name \<and> in_int64 v) gs"
  shows "parse_flags (hs @ fs) (flag_args gs @ rest) = parse_flags (hs @ gs) rest"
  using assms
proof (induction fs gs arbitrary: hs rule: list_all2_induct)
  case Nil
  then show ?case by (simp add: flag_args_def)
next
  case (Cons p fs q gs)
  obtain name old v where pq: "p = (name, old)" "q = (name, v)" "same_kind old v"
    using Cons.hyps by (cases p; cases q) (auto simp: same_flag_def)
  have k: "name \<notin> fst ` set hs" using Cons.prems(1) pq by auto
  have "parse_flags (hs @ p # fs) (flag_args (q # gs) @ rest)
      = parse_flags (hs @ (name, v) # fs) (flag_args gs @ rest)"
    using parse_flags_value(2) [OF _ map_of_middle [OF k] set_value_text [OF pq(3)]] Cons.prems(2)
    by (simp add: pq flag_args_def update_middle [OF k])
  also have "\<dots> = parse_flags ((hs @ [q]) @ fs) (flag_args gs @ rest)" by (simp add: pq)
  also have "\<dots> = parse_flags ((hs @ [q]) @ gs) rest" using Cons.prems by (intro Cons.IH) auto
  finally show ?case by simp
qed

end
