(* ===== verification/Cli.thy ===== *)
theory Cli
  imports App_System Dist_Verify Go_Flag
begin

text \<open>
  The commands (\<open>cmd/relaybox/main.go\<close> and \<open>cmd/releasecheck/main.go\<close>): their flags and defaults, the
  limits they check, what they hand to the store and the application, and their exit codes. A command
  ends in a \<open>failure\<close>, whose exit code is \<open>exit_code\<close>, or in an answer. The record \<open>surroundings\<close> holds
  what a command reads: the environment variables, 24 random bytes, the file at a path, the build
  information, and the HTTP client of the standard library.
\<close>

record surroundings =
  n_getenv :: "string \<Rightarrow> string"
  n_random :: "string + string"
  n_file :: "string \<Rightarrow> string"
  n_codec :: codec
  n_env :: env
  n_world :: world
  n_injected :: string
  n_build :: "string option"
  n_get :: "string \<Rightarrow> string + int \<times> string"
  n_post :: "string \<Rightarrow> header \<Rightarrow> string \<Rightarrow> string + string"

datatype failure =
    UsageShown
  | FlagsRejected flag_error
  | Fatal string
  | FatalStore store_error
  | UnexpectedArguments
  | TagRejected tag_error
  | ReleaseRejected verify_error

text \<open>\<open>flag.ExitOnError\<close> ends with 0 when help was asked for; \<open>log.Fatal\<close> ends with 1.\<close>

definition exit_code :: "failure \<Rightarrow> int" where
  "exit_code f =
     (case f of
       UsageShown \<Rightarrow> 2
     | FlagsRejected e \<Rightarrow> if e = HelpRequested then 0 else 2
     | UnexpectedArguments \<Rightarrow> 2
     | _ \<Rightarrow> 1)"

section \<open>The version\<close>

definition resolveVersion :: "string \<Rightarrow> string option \<Rightarrow> bool \<Rightarrow> string" where
  "resolveVersion injected info ok =
     (let injected' = TrimPrefix (TrimSpace injected) ''v''
      in if injected' \<noteq> [] \<and> injected' \<noteq> ''dev'' then injected'
         else (case info of
             None \<Rightarrow> ''dev''
           | Some v \<Rightarrow>
               if \<not> ok then ''dev''
               else (let built = TrimPrefix (TrimSpace v) ''v''
                 in if built = [] \<or> built = ''(devel)'' then ''dev'' else built)))"

definition resolvedVersion :: "surroundings \<Rightarrow> string" where
  "resolvedVersion n = resolveVersion (n_injected n) (n_build n) (n_build n \<noteq> None)"

section \<open>serve\<close>

definition splitCommaList :: "string \<Rightarrow> string list" where
  "splitCommaList v = filter (\<lambda>name. name \<noteq> []) (map TrimSpace (split_on (CHR '','') v))"

definition serve_flags :: "surroundings \<Rightarrow> flag_set" where
  "serve_flags n = [
     (''addr'', StringFlag ''127.0.0.1:8080''),
     (''data'', StringFlag (Join ''data'' ''relaybox.ndjson'')),
     (''secret'', StringFlag (n_getenv n ''RELAYBOX_SECRET'')),
     (''forward'', StringFlag []),
     (''operator-token'', StringFlag (n_getenv n ''RELAYBOX_OPERATOR_TOKEN'')),
     (''max-body'', IntFlag (2 ^ 20)),
     (''attempts'', IntFlag 3),
     (''concurrency'', IntFlag 4),
     (''queue-size'', IntFlag 64),
     (''max-inflight'', IntFlag 64),
     (''retention-captures'', IntFlag 1000),
     (''retention-events'', IntFlag 100000),
     (''jobs-per-request'', IntFlag 8),
     (''search-bytes'', IntFlag (64 * 2 ^ 10)),
     (''allow-private-targets'', BoolFlag False),
     (''secure-cookie'', BoolFlag False)]"

text \<open>The flags as the variables they are parsed into.\<close>

record serve_args =
  v_addr :: string
  v_data :: string
  v_secret :: string
  v_forward :: string
  v_token :: string
  v_max :: int
  v_attempts :: int
  v_conc :: int
  v_queue :: int
  v_maxInFlight :: int
  v_retentionCaptures :: int
  v_retentionEvents :: int
  v_jobsPerRequest :: int
  v_searchBytes :: int
  v_allowPrivate :: bool
  v_secureCookies :: bool

definition serve_args_of :: "flag_set \<Rightarrow> serve_args" where
  "serve_args_of fs = \<lparr>v_addr = string_flag fs ''addr'', v_data = string_flag fs ''data'',
     v_secret = string_flag fs ''secret'', v_forward = string_flag fs ''forward'',
     v_token = string_flag fs ''operator-token'', v_max = int_flag fs ''max-body'',
     v_attempts = int_flag fs ''attempts'', v_conc = int_flag fs ''concurrency'',
     v_queue = int_flag fs ''queue-size'', v_maxInFlight = int_flag fs ''max-inflight'',
     v_retentionCaptures = int_flag fs ''retention-captures'',
     v_retentionEvents = int_flag fs ''retention-events'',
     v_jobsPerRequest = int_flag fs ''jobs-per-request'', v_searchBytes = int_flag fs ''search-bytes'',
     v_allowPrivate = bool_flag fs ''allow-private-targets'',
     v_secureCookies = bool_flag fs ''secure-cookie''\<rparr>"

definition serve_limits :: "world \<Rightarrow> serve_args \<Rightarrow> string option" where
  "serve_limits x v =
     (if v_max v < 1 \<or> v_max v > 64 * 2 ^ 20
        then Some ''-max-body must be between 1 byte and 64 MiB''
      else if v_attempts v < 1 \<or> v_attempts v > 10
        then Some ''-attempts must be between 1 and 10''
      else if v_conc v < 1 \<or> v_conc v > 128
        then Some ''-concurrency must be between 1 and 128''
      else if v_queue v < 1 \<or> v_queue v > 100000
        then Some ''-queue-size must be between 1 and 100000''
      else if v_maxInFlight v < 1 \<or> v_maxInFlight v > 10000
        then Some ''-max-inflight must be between 1 and 10000''
      else if v_retentionCaptures v < 1 \<or> v_retentionCaptures v > 1000000
        then Some ''-retention-captures must be between 1 and 1000000''
      else if v_retentionEvents v < 100 \<or> v_retentionEvents v > 10000000
        then Some ''-retention-events must be between 100 and 10000000''
      else if v_jobsPerRequest v < 1 \<or> v_jobsPerRequest v > 1000
        then Some ''-jobs-per-request must be between 1 and 1000''
      else if v_searchBytes v < 1 \<or> v_searchBytes v > 2 ^ 20
        then Some ''-search-bytes must be between 1 byte and 1 MiB''
      else if v_forward v \<noteq> [] then
        (case ValidateForwardTarget x (v_forward v) (v_allowPrivate v) of
          Some e \<Rightarrow> Some (''invalid -forward: '' @ e)
        | None \<Rightarrow> None)
      else None)"

text \<open>A token is generated when none is given.\<close>

definition serve_token :: "surroundings \<Rightarrow> serve_args \<Rightarrow> failure + string" where
  "serve_token n v =
     (if v_token v \<noteq> [] then Inr (v_token v)
      else (case n_random n of Inl e \<Rightarrow> Inl (Fatal e) | Inr b \<Rightarrow> Inr (hex_encode b)))"

definition serve_warnings :: "string \<Rightarrow> string \<Rightarrow> string list" where
  "serve_warnings token secret =
     (if length token < 24
        then [''warning: operator token is short; use at least 24 random characters outside development'']
        else [])
     @ (if secret = []
        then [''warning: inbox signature verification is disabled; set RELAYBOX_SECRET for untrusted networks'']
        else [])"

definition serve_options :: "serve_args \<Rightarrow> options" where
  "serve_options v = \<lparr>MaxCaptures = v_retentionCaptures v, MaxEvents = v_retentionEvents v,
     MaxJobsPerRequest = v_jobsPerRequest v, MaxAttemptsPerJob = v_attempts v,
     MaxSearchBytes = v_searchBytes v, MaxSearchScan = v_retentionCaptures v,
     MaxCatchUpEvents = 0, MaxCatchUpBytes = 0, SubscriberBacklog = 0\<rparr>"

definition serve_config :: "surroundings \<Rightarrow> serve_args \<Rightarrow> string \<Rightarrow> config" where
  "serve_config n v token = \<lparr>c_Secret = v_secret v, c_ForwardURL = v_forward v,
     c_OperatorToken = token,
     c_ForwardAuthorization = n_getenv n ''RELAYBOX_FORWARD_AUTHORIZATION'',
     c_SensitiveHeaders = splitCommaList (n_getenv n ''RELAYBOX_SENSITIVE_HEADERS''),
     c_MaxBody = v_max v, c_Attempts = v_attempts v, c_Concurrency = v_conc v,
     c_QueueSize = v_queue v, c_MaxInFlight = v_maxInFlight v,
     c_BaseBackoff = 0, c_MaxBackoff = 0, c_LeaseDuration = 0, c_PollInterval = 0, c_SearchTimeout = 0,
     c_AllowPrivateTargets = v_allowPrivate v, c_SecureCookies = v_secureCookies v\<rparr>"

record http_server =
  w_Addr :: string
  w_ReadHeaderTimeout :: time
  w_ReadTimeout :: time
  w_WriteTimeout :: time
  w_IdleTimeout :: time
  w_MaxHeaderBytes :: int

definition serve_server :: "serve_args \<Rightarrow> http_server" where
  "serve_server v = \<lparr>w_Addr = v_addr v, w_ReadHeaderTimeout = 5 * second, w_ReadTimeout = 30 * second,
     w_WriteTimeout = 0, w_IdleTimeout = 60 * second, w_MaxHeaderBytes = 64 * 2 ^ 10\<rparr>"

record service =
  e_args :: serve_args
  e_token :: string
  e_log :: "string list"

text \<open>Up to the opening of the store.\<close>

definition serve_prepare :: "surroundings \<Rightarrow> string list \<Rightarrow> failure + service" where
  "serve_prepare n args =
     (case parse_flags (serve_flags n) args of
       Inl e \<Rightarrow> Inl (FlagsRejected e)
     | Inr (fs, _) \<Rightarrow>
         (let v = serve_args_of fs
          in case serve_limits (n_world n) v of
               Some message \<Rightarrow> Inl (Fatal message)
             | None \<Rightarrow>
                 (case serve_token n v of
                   Inl e \<Rightarrow> Inl e
                 | Inr token \<Rightarrow> Inr \<lparr>e_args = v, e_token = token,
                     e_log = (if v_token v = [] then [''generated operator token: '' @ token] else [])
                       @ serve_warnings token (v_secret v)\<rparr>)))"

definition serve_command :: "surroundings \<Rightarrow> string list \<Rightarrow> failure + http_server \<times> app" where
  "serve_command n args =
     (case serve_prepare n args of
       Inl e \<Rightarrow> Inl e
     | Inr v \<Rightarrow>
         (case OpenWithOptions (n_codec n) (n_env n) (serve_options (e_args v))
             (n_file n (v_data (e_args v))) of
           Inl e \<Rightarrow> Inl (FatalStore e)
         | Inr st \<Rightarrow> Inr (serve_server (e_args v),
             New (n_codec n) (n_world n) (serve_config n (e_args v) (e_token v)) st)))"

text \<open>
  How \<open>serve\<close> ends: the listener returns, with an error or because it was closed, or the process is
  told to stop. The program is then shut down; \<open>expired\<close> is the error of the context when its 20
  seconds pass before \<open>Wait\<close> returns. Errors are logged, and do not change the exit code.
\<close>

datatype serve_event = Interrupted | ListenReturned "string option"

definition ErrServerClosed :: string where
  "ErrServerClosed = ''http: Server closed''"

definition shutdown_app :: "string option \<Rightarrow> app \<Rightarrow> app \<times> string option" where
  "shutdown_app expired a = (shutdown_end (shutdown_begin a), expired)"

text \<open>\<open>errors.Join\<close>, as the list of the errors there are.\<close>

definition ShutdownServer :: "string option \<Rightarrow> string option \<Rightarrow> app \<Rightarrow> app \<times> string list" where
  "ShutdownServer serverErr expired a =
     (let (a1, appErr) = shutdown_app expired (shutdown_begin a)
      in (a1, List.map_filter id [serverErr, appErr]))"

definition serve_end ::
    "string option \<Rightarrow> string option \<Rightarrow> serve_event \<Rightarrow> app \<Rightarrow> app \<times> (failure + string list)" where
  "serve_end serverErr expired ev a =
     (case ev of
       Interrupted \<Rightarrow> (let (a1, errs) = ShutdownServer serverErr expired a in (a1, Inr errs))
     | ListenReturned None \<Rightarrow> (a, Inr [])
     | ListenReturned (Some e) \<Rightarrow> if e \<noteq> ErrServerClosed then (a, Inl (Fatal e)) else (a, Inr []))"

section \<open>healthcheck and demo\<close>

definition healthcheck :: "surroundings \<Rightarrow> string list \<Rightarrow> failure + string" where
  "healthcheck n args =
     (case parse_flags [(''url'', StringFlag ''http://127.0.0.1:8080/readyz'')] args of
       Inl e \<Rightarrow> Inl (FlagsRejected e)
     | Inr (fs, _) \<Rightarrow>
         (case n_get n (string_flag fs ''url'') of
           Inl e \<Rightarrow> Inl (Fatal e)
         | Inr (code, status) \<Rightarrow>
             if code \<noteq> 200 then Inl (Fatal (''healthcheck returned '' @ status)) else Inr []))"

definition demo_payload :: string where
  "demo_payload = ''{'' @ [CHR 0x22] @ ''event'' @ [CHR 0x22] @ '':'' @ [CHR 0x22] @ ''relaybox.demo''
     @ [CHR 0x22] @ '','' @ [CHR 0x22] @ ''message'' @ [CHR 0x22] @ '':'' @ [CHR 0x22]
     @ ''Hello from Relaybox'' @ [CHR 0x22] @ ''}''"

definition demo :: "surroundings \<Rightarrow> string list \<Rightarrow> failure + string" where
  "demo n args =
     (case parse_flags [(''url'', StringFlag ''http://127.0.0.1:8080/inbox'')] args of
       Inl e \<Rightarrow> Inl (FlagsRejected e)
     | Inr (fs, _) \<Rightarrow>
         (case x_url (n_world n) (string_flag fs ''url'') of
           Inl e \<Rightarrow> Inl (Fatal e)
         | Inr u \<Rightarrow>
             (case n_post n (string_flag fs ''url'')
                 (header_set ''Content-Type'' ''application/json'' fmempty) demo_payload of
               Inl e \<Rightarrow> Inl (Fatal e)
             | Inr status \<Rightarrow> Inr (''demo delivery: '' @ status))))"

section \<open>The commands\<close>

datatype answer = Printed string | Serving http_server app

definition printed :: "failure + string \<Rightarrow> failure + answer" where
  "printed r = (case r of Inl e \<Rightarrow> Inl e | Inr s \<Rightarrow> Inr (Printed s))"

text \<open>\<open>main\<close> on \<open>os.Args\<close>.\<close>

definition relaybox_main :: "surroundings \<Rightarrow> string list \<Rightarrow> failure + answer" where
  "relaybox_main n args =
     (case args of
       program # command # rest \<Rightarrow>
         if command = ''serve'' then
           (case serve_command n rest of Inl e \<Rightarrow> Inl e | Inr (srv, a) \<Rightarrow> Inr (Serving srv a))
         else if command = ''demo'' then printed (demo n rest)
         else if command = ''healthcheck'' then printed (healthcheck n rest)
         else if command = ''version'' then Inr (Printed (''relaybox '' @ resolvedVersion n))
         else Inl UsageShown
     | _ \<Rightarrow> Inl UsageShown)"

definition releasecheck_flags :: flag_set where
  "releasecheck_flags = [(''dist'', StringFlag ''dist''), (''version'', StringFlag []),
     (''validate-tag'', StringFlag []), (''smoke'', BoolFlag True)]"

text \<open>\<open>main\<close> of \<open>releasecheck\<close>, on a host for the directory it is given.\<close>

definition releasecheck_main :: "(string \<Rightarrow> host) \<Rightarrow> string list \<Rightarrow> failure + string" where
  "releasecheck_main host args =
     (case parse_flags releasecheck_flags args of
       Inl e \<Rightarrow> Inl (FlagsRejected e)
     | Inr (fs, positional) \<Rightarrow>
         if positional \<noteq> [] then Inl UnexpectedArguments
         else if string_flag fs ''validate-tag'' \<noteq> [] then
           (case ValidateTag (string_flag fs ''validate-tag'') of
             Inl e \<Rightarrow> Inl (TagRejected e)
           | Inr v \<Rightarrow> Inr (''validated Relaybox release tag '' @ string_flag fs ''validate-tag''))
         else (case Verify (host (string_flag fs ''dist'')) (string_flag fs ''dist'')
                 (string_flag fs ''version'') (bool_flag fs ''smoke'') of
             Some e \<Rightarrow> Inl (ReleaseRejected e)
           | None \<Rightarrow> Inr ''verified all Relaybox release archives and checksums''))"

section \<open>What passes the checks\<close>

text \<open>The limits of the flags, as the checks leave them.\<close>

definition within_limits :: "serve_args \<Rightarrow> bool" where
  "within_limits v \<longleftrightarrow>
     1 \<le> v_max v \<and> v_max v \<le> 64 * 2 ^ 20 \<and> 1 \<le> v_attempts v \<and> v_attempts v \<le> 10
     \<and> 1 \<le> v_conc v \<and> v_conc v \<le> 128 \<and> 1 \<le> v_queue v \<and> v_queue v \<le> 100000
     \<and> 1 \<le> v_maxInFlight v \<and> v_maxInFlight v \<le> 10000
     \<and> 1 \<le> v_retentionCaptures v \<and> v_retentionCaptures v \<le> 1000000
     \<and> 100 \<le> v_retentionEvents v \<and> v_retentionEvents v \<le> 10000000
     \<and> 1 \<le> v_jobsPerRequest v \<and> v_jobsPerRequest v \<le> 1000
     \<and> 1 \<le> v_searchBytes v \<and> v_searchBytes v \<le> 2 ^ 20"

lemma serve_limits_None:
  "serve_limits x v = None \<longleftrightarrow> within_limits v
     \<and> (v_forward v = [] \<or> ValidateForwardTarget x (v_forward v) (v_allowPrivate v) = None)"
  unfolding serve_limits_def within_limits_def by (auto split: option.split)

lemma serve_prepare_Inr:
  assumes "serve_prepare n args = Inr v"
  obtains fs rest where "parse_flags (serve_flags n) args = Inr (fs, rest)" "e_args v = serve_args_of fs"
    "serve_limits (n_world n) (e_args v) = None" "serve_token n (e_args v) = Inr (e_token v)"
  using assms
  by (auto simp: serve_prepare_def Let_def split: sum.splits prod.splits option.splits)

lemma serve_token_not_Nil:
  assumes "serve_token n v = Inr t" "\<And>b. n_random n = Inr b \<Longrightarrow> length b = 24"
  shows "t \<noteq> []"
proof
  assume t: "t = []"
  then have "v_token v = []" using assms(1) by (auto simp: serve_token_def split: if_splits)
  then obtain b where b: "n_random n = Inr b" "t = hex_encode b"
    using assms(1) by (auto simp: serve_token_def split: sum.splits)
  then have "length t = 48" using assms(2) by simp
  then show False using t by simp
qed

text \<open>The defaults of the store and of the application leave checked values as they are.\<close>

lemma default_to_pos [simp]: "1 \<le> n \<Longrightarrow> default_to d n = n"
  by (simp add: default_to_def)

lemma withDefaults_serve:
  assumes "within_limits v"
  shows "withDefaults (serve_options v) = (serve_options v)\<lparr>MaxCatchUpEvents := maxCatchUpEvents,
    MaxCatchUpBytes := maxCatchUpBytes, SubscriberBacklog := 128\<rparr>"
  using assms by (simp add: within_limits_def withDefaults_def serve_options_def Let_def)
    (simp add: default_to_def)

lemma config_defaults_serve:
  assumes "within_limits v"
  shows "config_defaults (serve_config n v t) = (serve_config n v t)\<lparr>
    c_BaseBackoff := 500 * millisecond, c_MaxBackoff := 30 * second, c_LeaseDuration := 120 * second,
    c_PollInterval := 250 * millisecond, c_SearchTimeout := 2 * second\<rparr>"
  using assms by (simp add: within_limits_def config_defaults_def serve_config_def Let_def)
    (simp add: default_to_def)

section \<open>Names separated by commas\<close>

definition plain_item :: "string \<Rightarrow> bool" where
  "plain_item p \<longleftrightarrow> p \<noteq> [] \<and> CHR '','' \<notin> set p \<and> \<not> is_space (hd p) \<and> \<not> is_space (last p)"

lemma TrimSpace_ends: "TrimSpace s \<noteq> [] \<Longrightarrow> \<not> is_space (hd (TrimSpace s)) \<and> \<not> is_space (last (TrimSpace s))"
proof -
  define t where "t = dropWhile is_space s"
  define u where "u = dropWhile is_space (rev t)"
  assume "TrimSpace s \<noteq> []"
  then have u: "u \<noteq> []" by (simp add: TrimSpace_def u_def t_def)
  have e: "TrimSpace s = rev u" by (simp add: TrimSpace_def u_def t_def)
  have "\<not> is_space (hd u)" using hd_dropWhile [of is_space "rev t"] u by (simp add: u_def)
  moreover have "t = rev u @ rev (takeWhile is_space (rev t))"
    unfolding u_def using takeWhile_dropWhile_id [of is_space "rev t"] by (metis rev_append rev_rev_ident)
  then have "hd t = hd (rev u)" "t \<noteq> []" using u by (metis hd_append2 rev_is_Nil_conv, metis append_is_Nil_conv rev_is_Nil_conv)
  then have "\<not> is_space (hd (rev u))" using hd_dropWhile [of is_space s] unfolding t_def by metis
  ultimately show ?thesis by (simp add: e last_rev u)
qed

lemma TrimSpace_plain: "p \<noteq> [] \<Longrightarrow> \<not> is_space (hd p) \<Longrightarrow> \<not> is_space (last p) \<Longrightarrow> TrimSpace p = p"
proof -
  assume p: "p \<noteq> []" "\<not> is_space (hd p)" "\<not> is_space (last p)"
  then have "dropWhile is_space p = p" by (cases p) auto
  moreover have "dropWhile is_space (rev p) = rev p" using p(1,3) by (cases p rule: rev_cases) auto
  ultimately show ?thesis by (simp only: TrimSpace_def rev_rev_ident)
qed

lemma TrimSpace_subset: "set (TrimSpace s) \<subseteq> set s"
  by (auto simp: TrimSpace_def dest!: set_dropWhileD)

lemma splitCommaList_plain: "p \<in> set (splitCommaList v) \<Longrightarrow> plain_item p"
  using TrimSpace_ends TrimSpace_subset split_on_parts [of _ "CHR '',''" v]
  by (fastforce simp: splitCommaList_def plain_item_def)

lemma splitCommaList_join:
  assumes "list_all plain_item ps"
  shows "splitCommaList (join_on (CHR '','') ps) = ps"
proof (cases "ps = []")
  case True
  have "splitCommaList [] = []" by code_simp
  then show ?thesis using True by simp
next
  case False
  have "split_on (CHR '','') (join_on (CHR '','') ps) = ps"
    using assms by (intro split_join [OF False]) (auto simp: list_all_iff plain_item_def)
  moreover have "map TrimSpace ps = ps" "filter (\<lambda>name. name \<noteq> []) ps = ps"
    using assms by (auto simp: list_all_iff plain_item_def TrimSpace_plain intro!: map_idI)
  ultimately show ?thesis by (simp add: splitCommaList_def)
qed

end
