(* ===== verification/Cli_Props.thy ===== *)
theory Cli_Props
  imports Cli App_Props_Http
begin

text \<open>
  What the commands pass on: the checked limits reach the store and the application as they were
  given, every variable has the type of its flag, and printed arguments parse to what was printed.
\<close>

section \<open>The options of a store\<close>

lemma appendLocked_opts: "appendLocked cd w e s = (t, x) \<Longrightarrow> s_opts t = s_opts s"
  by (erule appendLocked_view) (simp_all add: view_of_eq)

lemma recover_jobs_opts: "recover_jobs cd w now js s = (t, x) \<Longrightarrow> s_opts t = s_opts s"
  by (induction js arbitrary: s) (auto split: prod.splits sum.splits dest: appendLocked_opts)

lemma RedactHeaders_opts: "RedactHeaders cd w p s = (t, x) \<Longrightarrow> s_opts t = s_opts s"
  using RedactHeaders_change [of cd w p s t x] by (auto simp: view_of_eq elim!: change.cases)

lemma New_opts: "s_opts (a_store (New cd x c s)) = s_opts s"
  by (auto simp: New_def Let_def RecoverLeases_def split: prod.splits
      dest!: RedactHeaders_opts recover_jobs_opts)

lemma New_config [simp]: "a_config (New cd x c s) = config_defaults c"
  by (simp add: New_def Let_def split: prod.splits)

lemma recover_record_opts: "recover_record cd l g seen s = Inr (seen', t) \<Longrightarrow> s_opts t = s_opts s"
  by (auto simp: recover_record_def Let_def split: option.splits if_splits)

lemma recover_loop_opts: "recover_loop cd fin xs g seen s = Inr (g', t) \<Longrightarrow> s_opts t = s_opts s"
proof (induction cd fin xs g seen s rule: recover_loop.induct)
  case (1 cd fin xs g seen s)
  obtain l c rest where r: "readRecord fin xs = Inr (l, c, rest)"
    using 1(2) by (auto simp: recover_loop.simps [of _ _ xs] split: sum.splits)
  show ?case
  proof (cases c)
    case True
    then obtain seen' u where u: "recover_record cd l g seen s = Inr (seen', u)"
      "recover_loop cd fin rest (g + length l) seen' u = Inr (g', t)"
      using 1(2) r by (auto simp: recover_loop.simps [of _ _ xs] split: sum.splits)
    then show ?thesis using 1(1) [OF r refl refl _ u(1)] True recover_record_opts by fastforce
  next
    case False
    then show ?thesis using 1(2) r by (simp add: recover_loop.simps [of _ _ xs])
  qed
qed

lemma OpenWithOptions_opts: "OpenWithOptions cd w oo f = Inr t \<Longrightarrow> s_opts t = withDefaults oo"
  by (auto simp: OpenWithOptions_def recover_def split: option.splits if_splits sum.splits
      dest!: recover_loop_opts)

section \<open>serve\<close>


definition demo_surroundings :: surroundings where
  "demo_surroundings = \<lparr>n_getenv = (\<lambda>_. []), n_random = Inr (replicate 24 (CHR ''x'')), n_file = (\<lambda>_. []),
     n_codec = demo_codec, n_env = calm 7, n_world = demo_world, n_injected = ''v1.2.3'', n_build = None,
     n_get = (\<lambda>_. Inr (200, ''200 OK'')), n_post = (\<lambda>_ _ _. Inr ''202 Accepted'')\<rparr>"

lemma demo_serve: "\<exists>srv a. serve_command demo_surroundings [] = Inr (srv, a)"
proof -
  let ?v = "serve_args_of (serve_flags demo_surroundings)"
  have f: "parse_flags (serve_flags demo_surroundings) [] = Inr (serve_flags demo_surroundings, [])"
    by (simp add: parse_flags.simps)
  have v: "v_forward ?v = []" "v_token ?v = []" "within_limits ?v"
    by (simp_all add: serve_args_of_def string_flag_def int_flag_def serve_flags_def demo_surroundings_def
        within_limits_def)
  have "serve_limits (n_world demo_surroundings) ?v = None" using v by (simp add: serve_limits_None)
  moreover have "\<exists>t. serve_token demo_surroundings ?v = Inr t"
    using v by (simp add: serve_token_def demo_surroundings_def)
  ultimately obtain u where u: "serve_prepare demo_surroundings [] = Inr u"
    using f by (auto simp: serve_prepare_def Let_def)
  have "OpenWithOptions demo_codec (calm 7) oo [] = Inr (new_store oo [])" for oo
    by (simp add: OpenWithOptions_def recover_def recover_loop_Nil)
  then show ?thesis
    using u by (simp add: serve_command_def demo_surroundings_def)
qed


section \<open>Flags\<close>

text \<open>A variable of a command and the flag it is read from.\<close>

datatype variable = TextOf "serve_args \<Rightarrow> string" | NumberOf "serve_args \<Rightarrow> int" | SwitchOf "serve_args \<Rightarrow> bool"

definition serve_variables :: "(string \<times> variable) list" where
  "serve_variables = [
     (''addr'', TextOf v_addr), (''data'', TextOf v_data), (''secret'', TextOf v_secret),
     (''forward'', TextOf v_forward), (''operator-token'', TextOf v_token),
     (''max-body'', NumberOf v_max), (''attempts'', NumberOf v_attempts), (''concurrency'', NumberOf v_conc),
     (''queue-size'', NumberOf v_queue), (''max-inflight'', NumberOf v_maxInFlight),
     (''retention-captures'', NumberOf v_retentionCaptures),
     (''retention-events'', NumberOf v_retentionEvents),
     (''jobs-per-request'', NumberOf v_jobsPerRequest), (''search-bytes'', NumberOf v_searchBytes),
     (''allow-private-targets'', SwitchOf v_allowPrivate), (''secure-cookie'', SwitchOf v_secureCookies)]"

definition variable_value :: "variable \<Rightarrow> serve_args \<Rightarrow> flag_value" where
  "variable_value x v =
     (case x of TextOf f \<Rightarrow> StringFlag (f v) | NumberOf f \<Rightarrow> IntFlag (f v) | SwitchOf f \<Rightarrow> BoolFlag (f v))"

definition variable_flags :: "serve_args \<Rightarrow> flag_set" where
  "variable_flags v = map (\<lambda>(name, x). (name, variable_value x v)) serve_variables"



definition demo_args :: serve_args where
  "demo_args = serve_args_of (serve_flags demo_surroundings)\<lparr>v_attempts := 7, v_forward := ''http://h''\<rparr>"



end
