(* ===== verification/Spec2Isabelle.thy ===== *)
theory Spec2Isabelle
  imports App_Props_Work Store_Props_Durable Dist_Props Cli_Props
begin

text \<open>
  Relaybox, a webhook inbox. One process takes deliveries over HTTP, stores them in an append-only
  log, forwards them to one fixed target with bounded retries, and shows them to an operator who
  holds a token. A second command checks the archives of a release before they are published. This
  development models the Go code under \<open>src/cmd\<close> and \<open>src/internal\<close>; every file under \<open>src\<close> that is
  named below is meant at the commit the line numbers of the manifest refer to.

  \<^bold>\<open>How the parts fit together.\<close> \<open>cmd/relaybox\<close> parses flags, opens a store
  (\<open>internal/store\<close>) and starts an application (\<open>internal/app\<close>) on it. The application's handlers and
  workers are concurrent; what they share is the store, whose operations each hold one lock from
  their start to their end, and the application's own mutex. So an operation of the store is one
  function from a store to a store, and concurrency is the order in which such calls happen. The
  functions are composed as the code composes them, and where the code releases every lock between
  two parts of a handler, the model has two steps.

  \<^bold>\<open>The language and its library.\<close>
  \<^item> \<open>Relay_Prelude\<close>: strings of bytes, maps with zero values and an unspecified order of iteration,
    \<open>sort.Slice\<close>, times, the collection \<open>keep_inv\<close>, and the locale \<open>slice_less\<close>, the contract of a
    comparison function, interpreted for every function the program sorts by.
  \<^item> \<open>Sha256\<close>, \<open>Go_Strings\<close>, \<open>Go_Flag\<close>: the functions of \<open>crypto\<close>, \<open>strings\<close>, \<open>strconv\<close>,
    \<open>encoding/base64\<close>, \<open>net/textproto\<close> and \<open>flag\<close> that the program calls.
  \<^item> \<open>Transition\<close>: reachability, the locale \<open>invariant_of\<close> and its extension \<open>monotone_along\<close>. The
    store (\<open>Store_Calls\<close>, \<open>Store_Fail\<close>), the running application (\<open>App_System\<close>) and the background
    work of an application at rest (\<open>App_Outcome\<close>) interpret them.

  \<^bold>\<open>The store (\<open>internal/store/model.go\<close>, \<open>internal/store/store.go\<close>).\<close>
  \<^item> \<open>Model\<close>, \<open>Store_State\<close>: the records of the data model, the errors, the options and the state.
    The file is a string of bytes; \<open>env\<close> is the environment of one call: the clock, the order of
    iteration over maps, and which system call fails or writes how much.
  \<^item> \<open>Store_Apply\<close>: the effect of an event on the maps, the search index and the catch-up ring.
    \<open>Store_Log\<close>: reading records, recovery and opening. \<open>Store_Append\<close>: compaction and appending.
    \<open>Store_Ops\<close>: every exported operation.
  \<^item> \<open>Store_Inv\<close>, \<open>Store_Append_Inv\<close>, \<open>Store_Keys\<close>, \<open>Store_System\<close>: the invariant of the retained state
    and of the idempotency keys, kept by every call in every environment.
  \<^item> \<open>Store_View\<close>, \<open>Store_Calls\<close>: the abstract store a client sees, and the events a call may emit.
    A property of the view is proved once per kind of event, in the locale \<open>view_property\<close>.
    \<open>Store_Bounds\<close> (retention), \<open>Store_Jobs\<close> (numbering of attempts, life cycle of a job) interpret it;
    \<open>Store_Redaction\<close> has its own such interface, \<open>kept_by_appends\<close>.
  \<^item> \<open>Store_Replay\<close>, \<open>Store_Snapshot\<close>, \<open>Store_Durable\<close>, \<open>Store_Restart\<close>: that the file of a store is the
    printed list of events whose replay is the store, that a snapshot replays to the state it was
    taken of, that every call keeps this, and so what a restart gives back.
  \<^item> \<open>Store_Claims\<close>, \<open>Store_Fail\<close>, \<open>Store_Examples\<close>: the choice of a claim and the work that is left,
    that a failed store stays as it is, and the concrete run of the closed examples.
  \<^item> \<open>Store_Props\<close>, \<open>Store_Props_Calls\<close>, \<open>Store_Props_Durable\<close>: the properties.

  \<^bold>\<open>The application (\<open>internal/app/app.go\<close>).\<close>
  \<^item> \<open>App_State\<close>, \<open>App_Headers\<close>, \<open>Net_Target\<close>: the state, its configuration and defaults; which headers
    are sensitive and which are sent on; which addresses are dialled. \<open>world\<close> is what one handler or
    one round of a worker meets: the environment of each call it makes, the time, new identifiers,
    and the parsers and the HTTP client of the library.
  \<^item> \<open>App_Http\<close>, \<open>App_Forward\<close>: routes, the operator check, every handler; the worker's loop, one
    delivery, retries.
  \<^item> \<open>App_System\<close>: the interleaving of handlers, workers, streams and the shutdown as the step relation
    \<open>app_step\<close>. \<open>app_run\<close> says that a step changes the store by calls of its operations only; by it
    the invariants of the store hold in every state of the application.
  \<^item> \<open>App_Drain\<close>, \<open>App_Outcome\<close>: that the worker's loop ends, what a delivery records, and rest.
  \<^item> \<open>App_Props_Policy\<close>, \<open>App_Props_Http\<close>, \<open>App_Props_Inbox\<close>, \<open>App_Props_Work\<close>: the properties.

  \<^bold>\<open>The release check (\<open>internal/distcheck/distcheck.go\<close>).\<close> \<open>Dist_Names\<close> (tags and names),
  \<open>Dist_Discover\<close> (the listing), \<open>Dist_Checksums\<close>, \<open>Dist_Archive\<close>, \<open>Dist_Verify\<close>, in the order of the
  code, and \<open>Dist_Props\<close>.

  \<^bold>\<open>The commands (\<open>cmd/relaybox/main.go\<close>, \<open>cmd/releasecheck/main.go\<close>).\<close> \<open>Cli\<close> and \<open>Cli_Props\<close>.
\<close>

text \<open>
  \<^bold>\<open>What is shown.\<close>
  \<^item> Durability: a restart gives back what was acknowledged (C1).
  \<^item> The store, for every sequence of calls and every failure of the system: well-formedness (C2),
    the life cycle of a job as a refinement of a small state machine (C3), unfinished work is never
    evicted (C4), the limits of retention (C5), attempts numbered without gaps (C14), the catch-up
    ring (C24). Single calls: accepting a capture, a duplicate, with a full store, with an error
    (C6, C13, C25, C26), and claiming (C15).
  \<^item> The workers: a delivery is recorded as its answer calls for (C8), the loop ends (C9), nothing
    changes after the work is done (C16), and what a lowered limit on attempts does (C40).
  \<^item> The inbox and the API: an accepted delivery (C7), no unsigned one (C33), the invariants of the
    running application (C10), redaction of every response (C11), who may call the API (C12, C32),
    the order of a stream (C23).
  \<^item> Policies, each against an independent description: blocked addresses (C17, C28, C29), outgoing and
    sensitive headers (C18, C27), signatures and session tokens (C30, C31).
  \<^item> The release check: what a release that passes contains (C19 to C21, C37), tags, paths and the end
    of a zip file against reference definitions (C34 to C36).
  \<^item> The command line: limits and types of the flags, and arguments that parse back (C22, C38, C39).

  \<^bold>\<open>Loops, fuel and bounds.\<close> The loops of recovery, of the checksum manifest and of the zip scan are
  total functions whose measure is the input left. The loop of a worker, \<open>worker_drain\<close>, has no bound
  of its own in the code, so it takes fuel and returns an option; C9 shows that fuel above the budget
  of the store is enough: every unfinished job has one unit and one more per attempt it may still
  make, and a round that settles its job uses one. The condition that rounds settle their jobs is
  needed: C40 shows a job that is claimed for ever. Integers that Go keeps at a width
  have it in the model where a value may leave it: the words of SHA-256 and of addresses, the flags
  (\<open>strconv.ParseInt\<close> with its ranges), sizes of archives, the conversion of a back-off from
  \<open>float64\<close>, and the sequence number of an event cursor. Other numbers are counts of what is in
  memory and are \<open>nat\<close> or \<open>int\<close>.

  \<^bold>\<open>What is assumed.\<close> Code outside the repository is a parameter, and its documented behaviour a named
  hypothesis: \<open>codec_ok\<close> (JSON: a document has no newline, decoding gives back an encoded event
  whose strings are valid UTF-8, and the headers alone decode as in the whole event), \<open>range_order\<close>
  (an iteration visits every key once), \<open>world_ok\<close> (the same in every call of a round). The witnesses instantiate all of them with concrete functions. The decoders of gzip, tar,
  zip, ELF, Mach-O and PE are the record \<open>formats\<close>; \<open>url.Parse\<close>, \<open>netip.ParseAddr\<close>, \<open>http.ParseTime\<close>
  and the HTTP client are fields of \<open>world\<close>.

  \<^bold>\<open>Not modelled.\<close>
  \<^item> \<open>internal/store/file_other.go\<close> and \<open>file_windows.go\<close>: they open and rename files with the system's
    calls. Their failures are in \<open>env\<close>; that a rename replaces a file at once, and that synced bytes
    stay, is taken from the system.
  \<^item> \<open>internal/web\<close> embeds the files of the user interface, and its JavaScript is not Go;
    \<open>examples/receiver\<close> prints what it is sent.
  \<^item> The write deadlines and the heartbeat of the event stream, the time limits of the transport and of
    the server: they end a connection, which is a step of the model that may happen at any time.
  \<^item> The text of responses: a JSON body is the value that is encoded. The texts of errors of the
    release check are kept as kinds where the code gives them no later use.
  \<^item> The entropy of \<open>newID\<close> and of a generated operator token: the bytes are an argument.
  \<^item> \<open>EncodeBodyForCurl\<close> and \<open>Open\<close>, which nothing in the program calls, and the functions that copy a
    header or a body (\<open>cloneHeader\<close> and its like): values of the model are never shared.
  \<^item> \<open>strings.TrimSpace\<close> and \<open>strings.Fields\<close> know the white space of ASCII.
  \<^item> Restarts in C1 use the options the store had; C40 shows one effect of other options.
\<close>

end
